(* ===== verification/Mcf_Prelude.thy ===== *)
theory Mcf_Prelude
  imports Main "HOL-Library.Word"
begin

text \<open>
  The shared ground of the development: the machine types of a 64-bit build
  (\<open>__MCF_PTR_BITS\<close> is 64), the integer helpers of \<open>mcfgthread/fwd.h\<close>, and the
  generic facts on lists, sums and words that the component theories use.

  A value of a C type of width \<open>w\<close> is a \<open>w word\<close>; a bit-field of width \<open>w\<close> is a
  \<open>w word\<close> too, so that storing into it truncates as the masks of the source do.
\<close>

unbundle bit_operations_syntax

named_theorems step_simps \<open>equations of the thread programs\<close>
named_theorems word_facts \<open>facts that read word expressions as natural numbers or integers\<close>

section \<open>Machine types\<close>

type_synonym u8 = "8 word"
type_synonym u16 = "16 word"
type_synonym u32 = "32 word"
type_synonym u64 = "64 word"
type_synonym i32 = "32 word"
type_synonym i64 = "64 word"
type_synonym uptr = "64 word"

section \<open>Integer helpers of fwd.h\<close>

definition MCF_minz :: "uptr \<Rightarrow> uptr \<Rightarrow> uptr" where
  "MCF_minz x y = (if y < x then y else x)"

definition MCF_maxz :: "uptr \<Rightarrow> uptr \<Rightarrow> uptr" where
  "MCF_maxz x y = (if x < y then y else x)"

definition MCF_dim :: "uptr \<Rightarrow> uptr \<Rightarrow> uptr" where
  "MCF_dim x y = (if y <s x then x - y else 0)"

lemma MCF_minz_min [word_facts]: "MCF_minz x y = min x y"
  by (auto simp: MCF_minz_def min_def not_less)

lemma MCF_maxz_max [word_facts]: "MCF_maxz x y = max x y"
  by (auto simp: MCF_maxz_def max_def not_less)

section \<open>Lists and sums\<close>

lemma sum_list_map_update:
  fixes f :: "'a \<Rightarrow> int"
  assumes "i < length xs"
  shows "sum_list (map f (xs[i := y])) = sum_list (map f xs) - f (xs ! i) + f y"
  using assms
proof (induction xs arbitrary: i)
  case (Cons x xs)
  then show ?case by (cases i) auto
qed simp

lemma sum_list_map_update_nat:
  fixes f :: "'a \<Rightarrow> nat"
  assumes "i < length xs"
  shows "sum_list (map f (xs[i := y])) + f (xs ! i) = sum_list (map f xs) + f y"
  using assms
proof (induction xs arbitrary: i)
  case (Cons x xs)
  then show ?case by (cases i) auto
qed simp

lemma sum_list_map_member_le:
  fixes f :: "'a \<Rightarrow> nat"
  shows "i < length xs \<Longrightarrow> f (xs ! i) \<le> sum_list (map f xs)"
proof (induction xs arbitrary: i)
  case (Cons x xs)
  then show ?case by (cases i) (auto simp: trans_le_add2)
qed simp

lemma sum_list_map_two_le:
  fixes f :: "'a \<Rightarrow> nat"
  shows "i < length xs \<Longrightarrow> j < length xs \<Longrightarrow> i \<noteq> j \<Longrightarrow>
    f (xs ! i) + f (xs ! j) \<le> sum_list (map f xs)"
proof (induction xs arbitrary: i j)
  case (Cons x xs)
  show ?case
  proof (cases i)
    case 0
    with Cons.prems show ?thesis
      using sum_list_map_member_le[of "j - 1" xs f] by (cases j) auto
  next
    case (Suc i')
    with Cons show ?thesis
      using sum_list_map_member_le[of i' xs f] by (cases j) (auto simp: trans_le_add2)
  qed
qed simp

lemma sum_list_map_le_length:
  fixes f :: "'a \<Rightarrow> nat"
  assumes "\<And>x. f x \<le> 1"
  shows "sum_list (map f xs) \<le> length xs"
proof (induction xs)
  case (Cons x xs)
  then show ?case using assms[of x] by simp
qed simp

lemma sum_list_map_less_length:
  fixes f :: "'a \<Rightarrow> nat"
  assumes "\<And>x. f x \<le> 1"
  shows "i < length xs \<Longrightarrow> f (xs ! i) = 0 \<Longrightarrow> sum_list (map f xs) < length xs"
proof (induction xs arbitrary: i)
  case (Cons x xs)
  show ?case
  proof (cases i)
    case 0
    with Cons.prems show ?thesis
      using sum_list_map_le_length[of f xs] assms by (simp add: less_Suc_eq_le)
  next
    case (Suc j)
    with Cons have "sum_list (map f xs) < length xs" by simp
    then show ?thesis using assms[of x] by simp
  qed
qed simp

lemma sum_list_map_pos:
  fixes f :: "'a \<Rightarrow> nat"
  shows "0 < sum_list (map f xs) \<longleftrightarrow> (\<exists>i < length xs. 0 < f (xs ! i))"
proof -
  have "0 < sum_list (map f xs) \<longleftrightarrow> (\<exists>x \<in> set xs. 0 < f x)"
    by (induction xs) auto
  also have "\<dots> \<longleftrightarrow> (\<exists>i < length xs. 0 < f (xs ! i))"
    by (metis in_set_conv_nth)
  finally show ?thesis .
qed

section \<open>Words\<close>

lemma unat_plus_one [word_facts]:
  fixes x :: "'a::len word"
  assumes "Suc (unat x) < 2 ^ LENGTH('a)"
  shows "unat (x + 1) = Suc (unat x)"
  using assms by (simp add: unat_word_ariths)

lemma unat_minus_one' [word_facts]:
  fixes x :: "'a::len word"
  assumes "x \<noteq> 0"
  shows "Suc (unat (x - 1)) = unat x"
  using assms by (simp add: unat_minus_one unat_gt_0)

lemma unat_pos_iff [word_facts]: "0 < unat x \<longleftrightarrow> x \<noteq> 0"
  by (simp add: unat_gt_0)

lemma unat_less_bound: "unat (x :: 'a::len word) < 2 ^ LENGTH('a)"
  by (rule unsigned_less)

lemma one_bit_cases: "(x :: 1 word) = 0 \<or> x = 1"
proof -
  have "unat x < 2" using unat_less_bound[of x] by simp
  then have "unat x = unat (0 :: 1 word) \<or> unat x = unat (1 :: 1 word)" by auto
  then show ?thesis by (metis word_unat_eq_iff)
qed

lemma one_bit_neq_1 [simp]: "(x :: 1 word) \<noteq> 1 \<longleftrightarrow> x = 0"
  using one_bit_cases[of x] by auto

lemma unat_1word [word_facts]: "unat (x :: 1 word) = (if x = 0 then 0 else 1)"
  using one_bit_cases[of x] by auto

lemma uint_plus_one [word_facts]:
  fixes x :: "'a::len word"
  shows "uint x + 1 < 2 ^ LENGTH('a) \<Longrightarrow> uint (x + 1) = uint x + 1"
  using uint_add_lem[of x 1] by (simp add: uint_1_eq)

lemma uint_minus_one [word_facts]:
  fixes x :: "'a::len word"
  shows "x \<noteq> 0 \<Longrightarrow> uint (x - 1) = uint x - 1"
  by (metis One_nat_def Suc_leI uint_1 uint_nat uint_sub_lem unat_1 unat_gt_0 of_nat_mono)

lemma uint_1word [word_facts]: "uint (x :: 1 word) = (if x = 0 then 0 else 1)"
  using one_bit_cases[of x] by auto

lemma uint_pos_iff [word_facts]: "0 < uint x \<longleftrightarrow> x \<noteq> 0"
  by (metis less_le uint_0_iff uint_ge_0)

lemma and_one_bit [word_facts]: "x AND 1 \<noteq> 0 \<longleftrightarrow> bit (x :: 'a::len word) 0"
  by (simp add: and_one_eq bit_0 mod_2_eq_odd)

lemma unat_take [word_facts]: "unat (take_bit n x) = unat x mod 2 ^ n"
  unfolding unsigned_take_bit_eq by (simp add: take_bit_eq_mod)

lemma unat_drop [word_facts]: "unat (drop_bit n x) = unat x div 2 ^ n"
  unfolding unat_drop_bit_eq by (simp add: drop_bit_eq_div)

lemma and_mask_small: "unat x < 2 ^ k \<Longrightarrow> x AND mask k = x"
  unfolding take_bit_eq_mask[symmetric] word_unat_eq_iff by (simp add: unat_take del: take_bit_eq_mod)

lemma unat_ucast_up [word_facts]:
  "LENGTH('a) \<le> LENGTH('b) \<Longrightarrow> unat (ucast (x :: 'a::len word) :: 'b::len word) = unat x"
proof -
  assume "LENGTH('a) \<le> LENGTH('b)"
  then have "unat x < 2 ^ LENGTH('b)"
    using unat_less_bound[of x] by (meson less_le_trans one_le_numeral power_increasing)
  then show ?thesis by (simp add: unsigned_ucast_eq take_bit_eq_mod)
qed

lemma uint_ucast_up [word_facts]:
  "LENGTH('a) \<le> LENGTH('b) \<Longrightarrow> uint (ucast (x :: 'a::len word) :: 'b::len word) = uint x"
  using unat_ucast_up[where 'a = 'a and 'b = 'b, of x] by (simp only: uint_nat)

end
