(* ===== verification/Winnt_Timeout.thy ===== *)
theory Winnt_Timeout
  imports Mcf_Prelude
begin

text \<open>
  Timeouts (\<open>mcfgthread/src/xglobals.c\<close>): \<open>__MCF_initialize_winnt_timeout_v3\<close>,
  \<open>__MCF_adjust_winnt_timeout_v3\<close> and \<open>__MCF_check_wait_safety\<close>. A timeout is kept in
  units of 100 nanoseconds: positive values are absolute, negative ones relative,
  zero does not wait and \<open>INT64_MAX\<close> waits for ever. Clock readings
  (\<open>QueryUnbiasedInterruptTimePrecise\<close>, \<open>GetSystemTimeAsFileTime\<close>) and the answer of
  \<open>RtlDllShutdownInProgress\<close> come from the system and are arguments.

  The lemmas show that no product or sum overflows, that the result is zero for a
  zero timeout only, and that repeated adjustments shrink a relative timeout by the
  time elapsed since it was set, no further than zero.
\<close>

section \<open>The timeout and its operations\<close>

record winnt_timeout =
  QuadPart :: i64
  since :: u64

definition INT64_MAX :: i64 where
  "INT64_MAX = 0x7FFFFFFFFFFFFFFF"

definition timeout_zero :: winnt_timeout where
  "timeout_zero = \<lparr>QuadPart = 0, since = 0\<rparr>"

definition timeout_infinite :: winnt_timeout where
  "timeout_infinite = \<lparr>QuadPart = INT64_MAX, since = 0\<rparr>"

definition initialize_winnt_timeout_v3 :: "i64 option \<Rightarrow> u64 \<Rightarrow> winnt_timeout" where
  "initialize_winnt_timeout_v3 ms_opt now =
     (case ms_opt of
        None \<Rightarrow> timeout_infinite
      | Some ms \<Rightarrow>
          if 0 <s ms then
            (if 910692730085477 <s ms then timeout_infinite
             else timeout_infinite\<lparr>QuadPart := (11644473600000 + ms) * 10000\<rparr>)
          else if ms <s 0 then
            (if ms <s - 922337203685477 then timeout_infinite
             else \<lparr>QuadPart = ms * 10000, since = now\<rparr>)
          else timeout_infinite\<lparr>QuadPart := 0\<rparr>)"

definition adjust_winnt_timeout_v3 :: "winnt_timeout \<Rightarrow> u64 \<Rightarrow> winnt_timeout" where
  "adjust_winnt_timeout_v3 to now =
     (if 0 \<le>s QuadPart to then to
      else
        (let q = QuadPart to + (now - since to)
         in \<lparr>QuadPart = q AND signed_drop_bit 63 q, since = now\<rparr>))"

text \<open>\<open>True\<close> when the function returns, \<open>False\<close> when it ends the process.\<close>

definition check_wait_safety :: "bool \<Rightarrow> u64 \<Rightarrow> winnt_timeout \<Rightarrow> bool" where
  "check_wait_safety shutdown_in_progress filetime to =
     (if \<not> shutdown_in_progress then True
      else if - 30000000 \<le>s QuadPart to \<and> QuadPart to \<le>s 0 then True
      else if 0 <s QuadPart to then QuadPart to \<le>s filetime + 30000000
      else False)"

text \<open>
  The prologue shared by every waiting function: a zero-initialised timeout, which is
  set up unless a zero duration was asked for.
\<close>

definition begin_timeout :: "i64 option \<Rightarrow> u64 \<Rightarrow> winnt_timeout" where
  "begin_timeout timeout_opt now =
     (if timeout_opt = Some 0 then timeout_zero
      else initialize_winnt_timeout_v3 timeout_opt now)"

definition no_wait :: "winnt_timeout \<Rightarrow> bool" where
  "no_wait to \<longleftrightarrow> QuadPart to = 0"

section \<open>Arithmetic on signed 64-bit values\<close>

lemma sint_range64: "- (2 ^ 63) \<le> sint (x :: i64)" "sint (x :: i64) < 2 ^ 63"
  using sint_greater_eq[of x] sint_less[of x] by simp_all

lemma signed_take_64: "- (2 ^ 63) \<le> k \<Longrightarrow> k < 2 ^ 63 \<Longrightarrow> signed_take_bit 63 (k :: int) = k"
  by (rule signed_take_bit_int_eq_self) simp_all

lemma sint_add64 [word_facts]:
  "- (2 ^ 63) \<le> sint x + sint y \<Longrightarrow> sint x + sint y < 2 ^ 63 \<Longrightarrow>
    sint (x + y :: i64) = sint x + sint y"
  by (simp add: sint_word_ariths signed_take_64)

lemma sint_mult64 [word_facts]:
  "- (2 ^ 63) \<le> sint x * sint y \<Longrightarrow> sint x * sint y < 2 ^ 63 \<Longrightarrow>
    sint (x * y :: i64) = sint x * sint y"
  by (simp add: sint_word_ariths signed_take_64)

lemma uint_sint_mod: "uint (x :: i64) = sint x mod 2 ^ 64"
  unfolding uint_sint by (simp add: take_bit_eq_mod)

lemma uint_eq_sint [word_facts]: "0 \<le> sint (x :: i64) \<Longrightarrow> uint x = sint x"
  using sint_range64[of x] unfolding uint_sint_mod by simp

lemma sint_eq_0_iff64 [word_facts]: "sint (x :: i64) = 0 \<longleftrightarrow> x = 0"
  by (metis signed_0 signed_word_eqI)


lemma signed_drop_bit_63 [word_facts]:
  "signed_drop_bit 63 (q :: i64) = (if sint q < 0 then - 1 else 0)"
proof (rule bit_word_eqI)
  fix n assume "n < LENGTH(64)"
  then show "bit (signed_drop_bit 63 q) n \<longleftrightarrow> bit (if sint q < 0 then - 1 else 0 :: i64) n"
    using bit_last_iff[of q] by (cases "n = 0") (auto simp: bit_signed_drop_bit_iff bit_simps not_less)
qed

lemmas signed_order = word_sless_alt word_sle_eq

section \<open>Initialisation\<close>

lemma init_absolute:
  assumes "0 < sint ms" and "sint ms \<le> 910692730085477"
  shows "sint (QuadPart (initialize_winnt_timeout_v3 (Some ms) now))
       = (11644473600000 + sint ms) * 10000"
proof -
  have a: "sint (11644473600000 + ms) = 11644473600000 + sint ms"
    using assms by (subst sint_add64) simp_all
  have "sint ((11644473600000 + ms) * 10000) = (11644473600000 + sint ms) * 10000"
    using assms by (subst sint_mult64) (simp_all add: a)
  then show ?thesis
    using assms by (simp add: initialize_winnt_timeout_v3_def signed_order)
qed

lemma init_relative:
  assumes "sint ms < 0" and "- 922337203685477 \<le> sint ms"
  shows "sint (QuadPart (initialize_winnt_timeout_v3 (Some ms) now)) = sint ms * 10000"
    and "since (initialize_winnt_timeout_v3 (Some ms) now) = now"
proof -
  have "sint (ms * 10000) = sint ms * 10000"
    using assms by (subst sint_mult64) simp_all
  then show "sint (QuadPart (initialize_winnt_timeout_v3 (Some ms) now)) = sint ms * 10000"
    and "since (initialize_winnt_timeout_v3 (Some ms) now) = now"
    using assms by (simp_all add: initialize_winnt_timeout_v3_def signed_order)
qed

lemma init_infinite:
  "initialize_winnt_timeout_v3 None now = timeout_infinite"
  "910692730085477 < sint ms \<Longrightarrow> initialize_winnt_timeout_v3 (Some ms) now = timeout_infinite"
  "sint ms < - 922337203685477 \<Longrightarrow> initialize_winnt_timeout_v3 (Some ms) now = timeout_infinite"
  by (simp_all add: initialize_winnt_timeout_v3_def signed_order)

lemma infinite_waits: "\<not> no_wait timeout_infinite"
  by (simp add: no_wait_def timeout_infinite_def INT64_MAX_def)

lemma init_no_wait_iff:
  "no_wait (initialize_winnt_timeout_v3 t now) \<longleftrightarrow> t = Some 0"
proof (cases t)
  case None
  then show ?thesis by (simp add: init_infinite infinite_waits)
next
  case (Some ms)
  consider "sint ms < - 922337203685477" | "- 922337203685477 \<le> sint ms" "sint ms < 0"
    | "ms = 0" | "0 < sint ms" "sint ms \<le> 910692730085477" | "910692730085477 < sint ms"
    by (metis linorder_cases linorder_not_less sint_eq_0_iff64)
  then show ?thesis
  proof cases
    case 2
    then show ?thesis
      using init_relative(1)[of ms now] sint_eq_0_iff64[of "QuadPart (initialize_winnt_timeout_v3 t now)"]
      by (auto simp: no_wait_def Some)
  next
    case 4
    then show ?thesis
      using init_absolute[of ms now] sint_eq_0_iff64[of "QuadPart (initialize_winnt_timeout_v3 t now)"]
      by (auto simp: no_wait_def Some)
  next
    case 3
    then show ?thesis by (simp add: Some no_wait_def initialize_winnt_timeout_v3_def)
  qed (auto simp: Some init_infinite infinite_waits)
qed

lemma begin_no_wait_iff [simp]: "no_wait (begin_timeout t now) \<longleftrightarrow> t = Some 0"
  by (simp add: begin_timeout_def init_no_wait_iff) (simp add: no_wait_def timeout_zero_def)

section \<open>Adjustment\<close>

lemma adjust_absolute: "0 \<le> sint (QuadPart to) \<Longrightarrow> adjust_winnt_timeout_v3 to now = to"
  by (simp add: adjust_winnt_timeout_v3_def signed_order)

lemma adjust_relative:
  assumes "sint (QuadPart to) < 0" and "0 \<le> sint (now - since to)"
  shows "sint (QuadPart (adjust_winnt_timeout_v3 to now))
       = min 0 (sint (QuadPart to) + sint (now - since to))"
    and "since (adjust_winnt_timeout_v3 to now) = now"
proof -
  have "sint (QuadPart to + (now - since to)) = sint (QuadPart to) + sint (now - since to)"
    using assms sint_range64[of "QuadPart to"] sint_range64[of "now - since to"]
    by (subst sint_add64) simp_all
  then show "sint (QuadPart (adjust_winnt_timeout_v3 to now))
       = min 0 (sint (QuadPart to) + sint (now - since to))"
    using assms(1) by (simp add: adjust_winnt_timeout_v3_def signed_order word_facts Let_def)
  show "since (adjust_winnt_timeout_v3 to now) = now"
    using assms(1) by (simp add: adjust_winnt_timeout_v3_def signed_order Let_def)
qed

section \<open>Properties\<close>

text \<open>C40. What a timeout argument becomes: a positive number of milliseconds since 1970 is the
  same moment in the system's calendar, a negative one the same duration, both without
  overflow, values out of range and a null pointer never expire, and only an explicit
  zero makes the call not wait.\<close>

theorem timeout_initialised:
  "sint (QuadPart (begin_timeout (Some ms) now)) =
     (if 0 < sint ms then
        (if sint ms \<le> 910692730085477 then (11644473600000 + sint ms) * 10000 else 2 ^ 63 - 1)
      else if - 922337203685477 \<le> sint ms then sint ms * 10000 else 2 ^ 63 - 1)
 \<and> QuadPart (begin_timeout None now) = INT64_MAX
 \<and> (no_wait (begin_timeout t now) \<longleftrightarrow> t = Some 0)"
proof (intro conjI)
  show "sint (QuadPart (begin_timeout (Some ms) now)) =
     (if 0 < sint ms then
        (if sint ms \<le> 910692730085477 then (11644473600000 + sint ms) * 10000 else 2 ^ 63 - 1)
      else if - 922337203685477 \<le> sint ms then sint ms * 10000 else 2 ^ 63 - 1)"
  proof (cases "ms = 0")
    case True
    then show ?thesis by (simp add: begin_timeout_def timeout_zero_def)
  next
    case False
    then have z: "sint ms \<noteq> 0" by (simp add: sint_eq_0_iff64)
    have inf: "sint (QuadPart timeout_infinite) = 2 ^ 63 - 1"
      by (simp add: timeout_infinite_def INT64_MAX_def)
    show ?thesis
      using False z init_absolute[of ms now] init_relative(1)[of ms now]
        init_infinite(2,3)[of ms now] inf
      by (simp add: begin_timeout_def)
  qed
  show "QuadPart (begin_timeout None now) = INT64_MAX"
    by (simp add: begin_timeout_def init_infinite timeout_infinite_def)
  show "no_wait (begin_timeout t now) \<longleftrightarrow> t = Some 0" by simp
qed

lemma elapsed:
  fixes a b :: u64
  assumes "uint a \<le> uint b" "uint b < 2 ^ 63"
  shows "sint (b - a) = uint b - uint a"
proof -
  have "uint (b - a) = uint b - uint a" using assms(1) by (simp add: uint_sub_lem)
  moreover have "sint (b - a) = signed_take_bit 63 (uint (b - a))" by (simp add: sint_uint)
  moreover have "signed_take_bit 63 (uint b - uint a) = uint b - uint a"
    by (rule signed_take_64) (use assms uint_ge_0[of a] in linarith)+
  ultimately show ?thesis by simp
qed

text \<open>Repeated waits do not stretch a relative timeout: after any number of wake-ups, each
  followed by \<open>__MCF_adjust_winnt_timeout_v3\<close> at a later reading of the clock, the remaining
  time is the original one less all that has elapsed since the call began, and stops at zero.\<close>

theorem timeout_not_stretched:
  assumes "sint (QuadPart to) < 0"
    and "sorted (map uint (since to # nows))" and "\<forall>t \<in> set nows. uint t < 2 ^ 63"
  shows "sint (QuadPart (foldl adjust_winnt_timeout_v3 to nows))
       = min 0 (sint (QuadPart to) + (uint (last (since to # nows)) - uint (since to)))"
  using assms
proof (induction nows arbitrary: to)
  case (Cons t nows)
  let ?to = "adjust_winnt_timeout_v3 to t"
  have e: "sint (t - since to) = uint t - uint (since to)"
    using Cons.prems by (intro elapsed) auto
  have q: "sint (QuadPart ?to) = min 0 (sint (QuadPart to) + (uint t - uint (since to)))"
    and s: "since ?to = t"
    using Cons.prems adjust_relative[of to t] e by auto
  have mono: "uint t \<le> uint (last (t # nows))"
    using Cons.prems(2) by (cases "nows = []") auto
  show ?case
  proof (cases "sint (QuadPart ?to) < 0")
    case True
    then have "sint (QuadPart (foldl adjust_winnt_timeout_v3 ?to nows))
       = min 0 (sint (QuadPart ?to) + (uint (last (since ?to # nows)) - uint (since ?to)))"
      using Cons.prems by (intro Cons.IH) (auto simp: s)
    then show ?thesis using True q s mono by (auto simp: min_def split: if_splits)
  next
    case False
    have "foldl adjust_winnt_timeout_v3 ?to nows = ?to"
      using False by (induction nows) (simp_all add: adjust_absolute)
    then show ?thesis using False q mono by (auto simp: min_def split: if_splits)
  qed
qed (auto simp: min_def)

lemma timeout_not_stretched_witness:
  "sint (QuadPart (foldl adjust_winnt_timeout_v3 \<lparr>QuadPart = - 1000, since = 50\<rparr> [60, 200, 900]))
   = min 0 (- 1000 + (900 - 50))"
  using timeout_not_stretched[of "\<lparr>QuadPart = - 1000, since = 50\<rparr>" "[60, 200, 900]"] by simp

end
