(* ===== verification/Keyed_Event.thy ===== *)
theory Keyed_Event
  imports Winnt_Timeout
begin

text \<open>
  The two thread programs that every synchronisation object of \<open>mcfgthread/src\<close> is
  written in, and the system of threads that run them on one object.

  A waiting function (\<open>_MCF_mutex_lock\<close>, \<open>_MCF_once_wait\<close>, \<open>do_lock_common\<close>,
  \<open>_MCF_sem_wait\<close>, \<open>_MCF_event_await_change\<close>, \<open>do_unlock_and_wait\<close>) is a
  compare-and-swap loop that returns or registers a sleeper, a call of
  \<open>NtWaitForKeyedEvent\<close>, and the loop that takes the registration back when the call
  timed out. A signalling function is a compare-and-swap loop (or one exchange) that
  takes sleepers off the counter, followed by \<open>__MCF_batch_release_common\<close>. What
  differs from object to object, the new word each branch builds, is the record
  \<open>wait_ops\<close> or \<open>sig_ops\<close>; \<open>wait_step\<close> and \<open>signal_step\<close> run it one atomic access at a
  time.

  Atomic accesses interleave in any order and are sequentially consistent; a weak
  compare-and-swap may fail for no reason (\<open>Weak\<close>). What the kernel does with keyed
  events is the parameter \<open>K\<close> of the system; \<open>keyed_event_contract\<close> states what the
  documentation promises: a waiter and a releaser leave their calls together.
\<close>

section \<open>What a thread meets\<close>

text \<open>
  \<open>Step\<close> is an access to memory, \<open>Weak\<close> a spurious failure of a compare-and-swap;
  \<open>Wake\<close> and \<open>Expire\<close> are the statuses \<open>STATUS_WAIT_0\<close> and \<open>STATUS_TIMEOUT\<close> of
  \<open>NtWaitForKeyedEvent\<close>; \<open>Rel\<close> is a successful \<open>NtReleaseKeyedEvent\<close> and \<open>RelFail s\<close> one
  that timed out, \<open>s\<close> being what \<open>RtlDllShutdownInProgress\<close> answers then; \<open>Clock\<close> is a
  reading of the interrupt time and \<open>Sys\<close> what \<open>__MCF_check_wait_safety\<close> asks for.
\<close>

datatype env =
    Step
  | Weak
  | Wake
  | Expire
  | Rel
  | RelFail bool
  | Clock u64
  | Sys bool u64

type_synonym ('w, 'f, 'p) outcome = "(('w \<times> 'f) \<times> 'p) option"

text \<open>\<open>_MCF_atomic_cmpxchg_weak_pptr\<close>: \<open>again\<close> receives the value found in memory.\<close>

fun cas :: "env \<Rightarrow> 'w \<times> 'f \<Rightarrow> 'w \<Rightarrow> 'w \<Rightarrow> 'p \<Rightarrow> ('w \<Rightarrow> 'p) \<Rightarrow> ('w, 'f, 'p) outcome" where
  "cas e (w, f) old new ok again =
     (case e of
        Step \<Rightarrow> if w = old then Some ((new, f), ok) else Some ((w, f), again w)
      | Weak \<Rightarrow> Some ((w, f), again w)
      | _ \<Rightarrow> None)"

text \<open>The inline fast path of a header: what it does with the word it loads.\<close>

datatype 'w fact =
    FSlow
  | FGive int
  | FSwap 'w int
  | FFault

section \<open>Waiting\<close>

datatype ('w, 'x) wact =
    Give int
  | SwapGive 'w int
  | SwapSleep 'w
  | SwapExt 'w 'x

text \<open>
  The position of a thread in a waiting function. \<open>WExt\<close> is a phase of one object
  only: the spinning of the mutex, the unlock callback of the condition variable.
\<close>

datatype ('w, 'x) wpc =
    WFast "i64 option"
  | WFTry "i64 option" 'w
  | WInit "i64 option"
  | WLoad winnt_timeout
  | WTry winnt_timeout 'w
  | WExt winnt_timeout 'x
  | WCheck winnt_timeout
  | WSleep winnt_timeout
  | WLLoad winnt_timeout
  | WLeave winnt_timeout 'w
  | WResleep winnt_timeout
  | WAdjust winnt_timeout
  | WRet int
  | WAbort

record ('w, 'f, 'x) wait_ops =
  w_fast :: "'w \<Rightarrow> 'w fact"
  w_try :: "bool \<Rightarrow> 'w \<Rightarrow> ('w, 'x) wact"
  w_ext :: "env \<Rightarrow> 'w \<times> 'f \<Rightarrow> winnt_timeout \<Rightarrow> 'x \<Rightarrow> ('w, 'f, ('w, 'x) wpc) outcome"
  w_leave :: "'w \<Rightarrow> ('w \<times> int) option"
  w_retry :: bool

text \<open>
  A wait without end is an absolute time that is never reached (\<open>INT64_MAX\<close>), so it
  does not expire. After a wake-up the objects that retry adjust the timeout and go
  back to the loop; the others return 0.
\<close>

definition woken :: "('w, 'f, 'x) wait_ops \<Rightarrow> winnt_timeout \<Rightarrow> ('w, 'x) wpc" where
  "woken ops nt = (if w_retry ops then WAdjust nt else WRet 0)"

fun wait_step :: "('w, 'f, 'x) wait_ops \<Rightarrow> env \<Rightarrow> 'w \<times> 'f \<Rightarrow> ('w, 'x) wpc \<Rightarrow>
    ('w, 'f, ('w, 'x) wpc) outcome" where
  "wait_step ops e m (WFast t) = (if e = Step then Some (m, WFTry t (fst m)) else None)"
| "wait_step ops e m (WFTry t old) =
     (case w_fast ops old of
        FSlow \<Rightarrow> if e = Step then Some (m, WInit t) else None
      | FGive r \<Rightarrow> if e = Step then Some (m, WRet r) else None
      | FSwap new r \<Rightarrow> cas e m old new (WRet r) (\<lambda>_. WInit t)
      | FFault \<Rightarrow> None)"
| "wait_step ops e m (WInit t) =
     (case e of Clock now \<Rightarrow> Some (m, WLoad (begin_timeout t now)) | _ \<Rightarrow> None)"
| "wait_step ops e m (WLoad nt) = (if e = Step then Some (m, WTry nt (fst m)) else None)"
| "wait_step ops e m (WTry nt old) =
     (case w_try ops (no_wait nt) old of
        Give r \<Rightarrow> if e = Step then Some (m, WRet r) else None
      | SwapGive new r \<Rightarrow> cas e m old new (WRet r) (WTry nt)
      | SwapSleep new \<Rightarrow> cas e m old new (WCheck nt) (WTry nt)
      | SwapExt new x \<Rightarrow> cas e m old new (WExt nt x) (WTry nt))"
| "wait_step ops e m (WExt nt x) = w_ext ops e m nt x"
| "wait_step ops e m (WCheck nt) =
     (case e of
        Sys shutdown filetime \<Rightarrow>
          Some (m, if check_wait_safety shutdown filetime nt then WSleep nt else WAbort)
      | _ \<Rightarrow> None)"
| "wait_step ops e m (WSleep nt) =
     (case e of
        Wake \<Rightarrow> Some (m, woken ops nt)
      | Expire \<Rightarrow> if QuadPart nt = INT64_MAX then None else Some (m, WLLoad nt)
      | _ \<Rightarrow> None)"
| "wait_step ops e m (WLLoad nt) = (if e = Step then Some (m, WLeave nt (fst m)) else None)"
| "wait_step ops e m (WLeave nt old) =
     (case w_leave ops old of
        None \<Rightarrow> if e = Step then Some (m, WResleep nt) else None
      | Some (new, r) \<Rightarrow> cas e m old new (WRet r) (WLeave nt))"
| "wait_step ops e m (WResleep nt) =
     (case e of
        Wake \<Rightarrow> Some (m, woken ops nt)
      | Expire \<Rightarrow> Some (m, WLLoad nt)
      | _ \<Rightarrow> None)"
| "wait_step ops e m (WAdjust nt) =
     (case e of Clock now \<Rightarrow> Some (m, WLoad (adjust_winnt_timeout_v3 nt now)) | _ \<Rightarrow> None)"
| "wait_step ops e m (WRet r) = None"
| "wait_step ops e m WAbort = None"

section \<open>Signalling\<close>

datatype entry =
    Go
  | Refuse int
  | Broken

datatype 'w sact =
    SGive int
  | SSwap 'w nat int
  | SBroken

text \<open>
  \<open>s_entry\<close> is what the function checks before its first atomic access, \<open>s_try\<close> its
  compare-and-swap loop, \<open>s_xchg\<close> the exchange that stands for the loop in
  \<open>_MCF_once_release\<close>, and \<open>s_post\<close> what it does to other memory between the access and
  the wake-ups. A failed \<open>__MCF_ASSERT\<close> leads to \<open>SFault\<close>.
\<close>

record ('w, 'f) sig_ops =
  s_fast :: "'w \<Rightarrow> 'w fact"
  s_entry :: "'w \<Rightarrow> entry"
  s_try :: "'w \<Rightarrow> 'w sact"
  s_xchg :: "('w \<times> ('w \<Rightarrow> nat) \<times> int) option"
  s_post :: "'w \<Rightarrow> 'f \<Rightarrow> 'f"

datatype 'w spc =
    SFast
  | SFTry 'w
  | SEntry
  | SLoad
  | STry 'w
  | SPost 'w nat int
  | SRel nat int
  | SRet int
  | SFault

text \<open>\<open>__MCF_batch_release_common\<close> with \<open>n\<close> wake-ups left.\<close>

definition batch_release_step :: "env \<Rightarrow> nat \<Rightarrow> int \<Rightarrow> 'w spc option" where
  "batch_release_step e n r =
     (if n = 0 then (if e = Step then Some (SRet r) else None)
      else (case e of
              Rel \<Rightarrow> Some (SRel (n - 1) r)
            | RelFail shutdown \<Rightarrow> Some (if shutdown then SRet r else SRel n r)
            | _ \<Rightarrow> None))"

fun signal_step :: "('w, 'f) sig_ops \<Rightarrow> env \<Rightarrow> 'w \<times> 'f \<Rightarrow> 'w spc \<Rightarrow> ('w, 'f, 'w spc) outcome" where
  "signal_step ops e m SFast = (if e = Step then Some (m, SFTry (fst m)) else None)"
| "signal_step ops e m (SFTry old) =
     (case s_fast ops old of
        FSlow \<Rightarrow> if e = Step then Some (m, SEntry) else None
      | FGive r \<Rightarrow> if e = Step then Some (m, SRet r) else None
      | FSwap new r \<Rightarrow> cas e m old new (SRet r) (\<lambda>_. SEntry)
      | FFault \<Rightarrow> if e = Step then Some (m, SFault) else None)"
| "signal_step ops e m SEntry =
     (if e = Step then
        Some (m, case s_entry ops (fst m) of Go \<Rightarrow> SLoad | Refuse r \<Rightarrow> SRet r | Broken \<Rightarrow> SFault)
      else None)"
| "signal_step ops e m SLoad =
     (if e = Step then
        (case s_xchg ops of
           None \<Rightarrow> Some (m, STry (fst m))
         | Some (new, num, r) \<Rightarrow> Some ((new, snd m), SPost (fst m) (num (fst m)) r))
      else None)"
| "signal_step ops e m (STry old) =
     (case s_try ops old of
        SGive r \<Rightarrow> if e = Step then Some (m, SRet r) else None
      | SSwap new n r \<Rightarrow> cas e m old new (SPost old n r) STry
      | SBroken \<Rightarrow> if e = Step then Some (m, SFault) else None)"
| "signal_step ops e m (SPost old n r) =
     (if e = Step then Some ((fst m, s_post ops old (snd m)), SRel n r) else None)"
| "signal_step ops e m (SRel n r) = map_option (Pair m) (batch_release_step e n r)"
| "signal_step ops e m (SRet r) = None"
| "signal_step ops e m SFault = None"

section \<open>Threads and their clients\<close>

text \<open>
  A thread is outside the object's functions (with a client state \<open>'c\<close>, what it holds),
  or inside one. An object comes with the calls a correct client makes and what the
  results mean for it.
\<close>

datatype ('w, 'x, 'c, 'a, 'b) thread =
    Idle 'c
  | Waits 'c 'a "('w, 'x) wpc"
  | Signals 'c 'b "'w spc"

record ('w, 'f, 'x, 'c, 'a, 'b) object =
  o_wait :: "'a \<Rightarrow> ('w, 'f, 'x) wait_ops"
  o_sig :: "'b \<Rightarrow> ('w, 'f) sig_ops"
  o_may_wait :: "'c \<Rightarrow> 'a \<Rightarrow> bool"
  o_waited :: "'c \<Rightarrow> 'a \<Rightarrow> int \<Rightarrow> 'c"
  o_may_signal :: "'c \<Rightarrow> 'b \<Rightarrow> bool"
  o_signalled :: "'c \<Rightarrow> 'b \<Rightarrow> int \<Rightarrow> 'c"

text \<open>\<open>CallWait\<close> and \<open>CallSignal\<close> enter through the fast path when their flag is set.\<close>

datatype ('a, 'b) input =
    Act env
  | CallWait bool 'a "i64 option"
  | CallSignal bool 'b
  | Leave

fun thread_step :: "('w, 'f, 'x, 'c, 'a, 'b) object \<Rightarrow> ('a, 'b) input \<Rightarrow> 'w \<times> 'f \<Rightarrow>
    ('w, 'x, 'c, 'a, 'b) thread \<Rightarrow> ('w, 'f, ('w, 'x, 'c, 'a, 'b) thread) outcome" where
  "thread_step ob (CallWait fast a t) m (Idle c) =
     (if o_may_wait ob c a then Some (m, Waits c a (if fast then WFast t else WInit t)) else None)"
| "thread_step ob (CallSignal fast b) m (Idle c) =
     (if o_may_signal ob c b then Some (m, Signals c b (if fast then SFast else SEntry)) else None)"
| "thread_step ob (Act e) m (Waits c a pc) =
     map_option (apsnd (Waits c a)) (wait_step (o_wait ob a) e m pc)"
| "thread_step ob (Act e) m (Signals c b pc) =
     map_option (apsnd (Signals c b)) (signal_step (o_sig ob b) e m pc)"
| "thread_step ob Leave m (Waits c a (WRet r)) = Some (m, Idle (o_waited ob c a r))"
| "thread_step ob Leave m (Signals c b (SRet r)) = Some (m, Idle (o_signalled ob c b r))"
| "thread_step ob _ m _ = None"

section \<open>The system\<close>

record ('m, 't) sys =
  mem :: 'm
  thr :: "'t list"

text \<open>
  What the kernel may do: let a waiter and a releaser go together, let a waiter go
  alone, let a releaser go alone, or report a shutdown to a releaser.
\<close>

datatype ke_event = Pair_up | Stray_wake | Lost_release | Shutdown

definition keyed_event_contract :: "(ke_event \<Rightarrow> bool) \<Rightarrow> bool" where
  "keyed_event_contract K \<longleftrightarrow> \<not> K Stray_wake \<and> \<not> K Lost_release \<and> \<not> K Shutdown"

fun by_kernel :: "('a, 'b) input \<Rightarrow> bool" where
  "by_kernel (Act Wake) = True"
| "by_kernel (Act Rel) = True"
| "by_kernel (Act (RelFail s)) = s"
| "by_kernel _ = False"

datatype 'i move =
    Local nat 'i
  | Pair nat nat
  | Kernel nat env

fun kernel_permits :: "(ke_event \<Rightarrow> bool) \<Rightarrow> env \<Rightarrow> bool" where
  "kernel_permits K Wake = K Stray_wake"
| "kernel_permits K Rel = K Lost_release"
| "kernel_permits K (RelFail s) = (s \<and> K Shutdown)"
| "kernel_permits K _ = False"

definition at_thread :: "('m \<Rightarrow> 't \<Rightarrow> ('m \<times> 't) option) \<Rightarrow> nat \<Rightarrow> ('m, 't) sys \<Rightarrow> ('m, 't) sys option" where
  "at_thread step i s =
     (if i < length (thr s) then
        map_option (\<lambda>(m', t'). \<lparr>mem = m', thr = (thr s)[i := t']\<rparr>) (step (mem s) (thr s ! i))
      else None)"

fun sys_move :: "(ke_event \<Rightarrow> bool) \<Rightarrow> (('a, 'b) input \<Rightarrow> 'm \<Rightarrow> 't \<Rightarrow> ('m \<times> 't) option) \<Rightarrow>
    ('a, 'b) input move \<Rightarrow> ('m, 't) sys \<Rightarrow> ('m, 't) sys option" where
  "sys_move K step (Local i inp) s = (if by_kernel inp then None else at_thread (step inp) i s)"
| "sys_move K step (Pair i j) s =
     (if K Pair_up \<and> i \<noteq> j then
        Option.bind (at_thread (step (Act Wake)) i s) (at_thread (step (Act Rel)) j)
      else None)"
| "sys_move K step (Kernel i e) s = (if kernel_permits K e then at_thread (step (Act e)) i s else None)"

inductive reach :: "(ke_event \<Rightarrow> bool) \<Rightarrow> (('a, 'b) input \<Rightarrow> 'm \<Rightarrow> 't \<Rightarrow> ('m \<times> 't) option) \<Rightarrow>
    ('m, 't) sys \<Rightarrow> ('m, 't) sys \<Rightarrow> bool" for K step s0 where
  reach_refl: "reach K step s0 s0"
| reach_move: "reach K step s0 s \<Longrightarrow> sys_move K step mv s = Some s' \<Longrightarrow> reach K step s0 s'"

fun moves :: "(ke_event \<Rightarrow> bool) \<Rightarrow> (('a, 'b) input \<Rightarrow> 'm \<Rightarrow> 't \<Rightarrow> ('m \<times> 't) option) \<Rightarrow>
    ('a, 'b) input move list \<Rightarrow> ('m, 't) sys \<Rightarrow> ('m, 't) sys option" where
  "moves K step [] s = Some s"
| "moves K step (mv # mvs) s = Option.bind (sys_move K step mv s) (moves K step mvs)"

lemma moves_reach_from: "reach K step s0 s \<Longrightarrow> moves K step mvs s = Some s' \<Longrightarrow> reach K step s0 s'"
  by (induction mvs arbitrary: s) (auto simp: Option.bind_eq_Some_conv intro: reach_move)

lemma moves_reach: "moves K step mvs s0 = Some s \<Longrightarrow> reach K step s0 s"
  by (rule moves_reach_from[OF reach_refl])

lemma moves_witness:
  assumes "case moves K step mvs s0 of None \<Rightarrow> False | Some s \<Rightarrow> H s"
    and "\<And>s. reach K step s0 s \<Longrightarrow> H s \<Longrightarrow> C s"
  shows "case moves K step mvs s0 of None \<Rightarrow> False | Some s \<Rightarrow> C s"
  using assms by (auto split: option.splits intro: moves_reach)

text \<open>A kernel that keeps the contract, and one that may do anything.\<close>

definition documented_kernel :: "ke_event \<Rightarrow> bool" where
  "documented_kernel e \<longleftrightarrow> e = Pair_up"

definition any_kernel :: "ke_event \<Rightarrow> bool" where
  "any_kernel e = True"

lemma documented_kernel_contract: "keyed_event_contract documented_kernel"
  by (simp add: keyed_event_contract_def documented_kernel_def)

text \<open>The steps of one thread in a row.\<close>

definition steps :: "nat \<Rightarrow> ('a, 'b) input list \<Rightarrow> ('a, 'b) input move list" where
  "steps i = map (Local i)"

section \<open>One call, with the other threads as interference\<close>

text \<open>
  A call seen from the thread that makes it: before each of its steps the other threads
  may have changed the memory in any way, and each step is given what it meets. The result is the
  returned value, the memory at that moment and the rest of the schedule; \<open>None\<close> is a
  schedule that the program does not follow, or a failed assertion.
\<close>

type_synonym 'm schedule = "(env \<times> ('m \<Rightarrow> 'm)) list"

fun w_returned :: "('w, 'x) wpc \<Rightarrow> int option" where
  "w_returned (WRet r) = Some r"
| "w_returned _ = None"

fun s_returned :: "'w spc \<Rightarrow> int option" where
  "s_returned (SRet r) = Some r"
| "s_returned _ = None"

fun run_call :: "(env \<Rightarrow> 'm \<Rightarrow> 'p \<Rightarrow> ('m \<times> 'p) option) \<Rightarrow> ('p \<Rightarrow> int option) \<Rightarrow> 'm schedule \<Rightarrow>
    'm \<Rightarrow> 'p \<Rightarrow> (int \<times> 'm \<times> 'm schedule) option" where
  "run_call step ret [] m pc = map_option (\<lambda>r. (r, m, [])) (ret pc)"
| "run_call step ret ((e, i) # sch) m pc =
     (case ret pc of
        Some r \<Rightarrow> Some (r, m, (e, i) # sch)
      | None \<Rightarrow>
          (case step e (i m) pc of
             None \<Rightarrow> None
           | Some (m', pc') \<Rightarrow> run_call step ret sch m' pc'))"

abbreviation run_wait :: "('w, 'f, 'x) wait_ops \<Rightarrow> ('w \<times> 'f) schedule \<Rightarrow> 'w \<times> 'f \<Rightarrow> ('w, 'x) wpc \<Rightarrow>
    (int \<times> ('w \<times> 'f) \<times> ('w \<times> 'f) schedule) option" where
  "run_wait ops \<equiv> run_call (wait_step ops) w_returned"

abbreviation run_signal :: "('w, 'f) sig_ops \<Rightarrow> ('w \<times> 'f) schedule \<Rightarrow> 'w \<times> 'f \<Rightarrow> 'w spc \<Rightarrow>
    (int \<times> ('w \<times> 'f) \<times> ('w \<times> 'f) schedule) option" where
  "run_signal ops \<equiv> run_call (signal_step ops) s_returned"

definition result :: "(int \<times> ('w \<times> 'f) \<times> 's) option \<Rightarrow> (int \<times> 'w) option" where
  "result = map_option (\<lambda>(r, m, _). (r, fst m))"

lemma result_Some [simp]: "result (Some (r, m, s)) = Some (r, fst m)" "result None = None"
  by (simp_all add: result_def)

lemma result_witness:
  assumes "case call of None \<Rightarrow> False | Some _ \<Rightarrow> True"
    and "\<And>r m s. call = Some (r, m, s) \<Longrightarrow> P r m"
  shows "case call of None \<Rightarrow> False | Some (r, m, s) \<Rightarrow> P r m"
  using assms by (auto split: option.splits)

text \<open>What every step of a call keeps holds where it returns.\<close>

lemma run_call_rest: "run_call step ret sch m pc = Some (r, m', sch') \<Longrightarrow> set sch' \<subseteq> set sch"
proof (induction sch arbitrary: m pc)
  case (Cons ei sch)
  then show ?case by (cases ei) (fastforce split: option.splits)
qed (auto split: option.splits)

lemma run_call_invariant:
  assumes "run_call step ret sch m pc = Some (r, m', sch')" and "I m pc"
    and step: "\<And>e i m pc m' pc'. (e, i) \<in> set sch \<Longrightarrow> I m pc \<Longrightarrow> ret pc = None \<Longrightarrow>
      step e (i m) pc = Some (m', pc') \<Longrightarrow> I m' pc'"
  shows "\<exists>pc'. ret pc' = Some r \<and> I m' pc'"
  using assms
proof (induction sch arbitrary: m pc)
  case (Cons ei sch)
  obtain e i where ei: "ei = (e, i)" by force
  show ?case
  proof (cases "ret pc")
    case None
    with Cons.prems(1) ei obtain m1 pc1 where st: "step e (i m) pc = Some (m1, pc1)"
      and run: "run_call step ret sch m1 pc1 = Some (r, m', sch')"
      by (auto split: option.splits)
    have "(e, i) \<in> set (ei # sch)" by (simp add: ei)
    then have "I m1 pc1" using Cons.prems(2) None st by (rule Cons.prems(3))
    with run show ?thesis
    proof (rule Cons.IH)
      show "I m' pc'" if "(e, i) \<in> set sch" "I m pc" "ret pc = None" "step e (i m) pc = Some (m', pc')"
        for e i m pc m' pc'
      proof -
        have "(e, i) \<in> set (ei # sch)" using that(1) by simp
        then show ?thesis using that(2-4) by (rule Cons.prems(3))
      qed
    qed
  qed (use Cons.prems(1,2) ei in auto)
qed auto

lemma w_returned_iff: "w_returned pc = Some r \<longleftrightarrow> pc = WRet r"
  by (cases pc) auto

lemma s_returned_iff: "s_returned pc = Some r \<longleftrightarrow> pc = SRet r"
  by (cases pc) auto

text \<open>A call without a timeout never takes the branches of an expired wait.\<close>

fun unexpired :: "('w, 'x) wpc \<Rightarrow> bool" where
  "unexpired (WFast t) = (t = None)"
| "unexpired (WFTry t old) = (t = None)"
| "unexpired (WInit t) = (t = None)"
| "unexpired (WLoad nt) = (nt = timeout_infinite)"
| "unexpired (WTry nt old) = (nt = timeout_infinite)"
| "unexpired (WExt nt x) = (nt = timeout_infinite)"
| "unexpired (WCheck nt) = (nt = timeout_infinite)"
| "unexpired (WSleep nt) = (nt = timeout_infinite)"
| "unexpired (WAdjust nt) = (nt = timeout_infinite)"
| "unexpired (WRet r) = True"
| "unexpired WAbort = True"
| "unexpired _ = False"

lemma adjust_infinite [simp]: "adjust_winnt_timeout_v3 timeout_infinite now = timeout_infinite"
  by (rule adjust_absolute) (simp add: timeout_infinite_def INT64_MAX_def)

lemma begin_infinite [simp]: "begin_timeout None now = timeout_infinite"
  by (simp add: begin_timeout_def init_infinite)

lemma cas_SomeD:
  "cas e m old new ok again = Some (m', p) \<Longrightarrow>
    (m' = (new, snd m) \<and> p = ok) \<or> (m' = m \<and> p = again (fst m))"
  by (cases m) (auto split: env.splits if_splits)

lemma wait_step_forever:
  assumes step: "wait_step ops e m pc = Some (m', pc')" and u: "unexpired pc"
    and fast: "\<And>w r m. w_fast ops w = FGive r \<Longrightarrow> Q r m"
      "\<And>w w' r f. w_fast ops w = FSwap w' r \<Longrightarrow> Q r (w', f)"
    and attempt: "\<And>w r m. w_try ops False w = Give r \<Longrightarrow> Q r m"
      "\<And>w w' r f. w_try ops False w = SwapGive w' r \<Longrightarrow> Q r (w', f)"
    and ext: "\<And>e m x m' pc'. w_ext ops e m timeout_infinite x = Some (m', pc') \<Longrightarrow>
      unexpired pc' \<and> (\<forall>r. pc' = WRet r \<longrightarrow> Q r m')"
    and woken: "\<And>m. \<not> w_retry ops \<Longrightarrow> Q 0 m"
  shows "unexpired pc' \<and> (\<forall>r. pc' = WRet r \<longrightarrow> Q r m')"
proof (cases pc)
  case (WFTry t old)
  with step u fast show ?thesis
    by (cases m') (auto split: fact.splits if_splits dest!: cas_SomeD)
next
  case (WTry nt old)
  with step u attempt infinite_waits show ?thesis
    by (cases m') (auto split: wact.splits if_splits dest!: cas_SomeD)
next
  case (WExt nt x)
  with step u ext show ?thesis by (cases m') auto
next
  case (WSleep nt)
  with step u woken show ?thesis
    by (cases m') (auto simp: woken_def timeout_infinite_def split: env.splits if_splits)
qed (use step u in \<open>auto split: env.splits if_splits\<close>)

lemma run_wait_forever:
  fixes ops :: "('w, 'f, 'x) wait_ops"
  assumes run: "run_wait ops sch m pc = Some (r, m', sch')" and "unexpired pc" "w_returned pc = None"
    and fast: "\<And>w r m. w_fast ops w = FGive r \<Longrightarrow> Q r m"
      "\<And>w w' r f. w_fast ops w = FSwap w' r \<Longrightarrow> Q r (w', f)"
    and attempt: "\<And>w r m. w_try ops False w = Give r \<Longrightarrow> Q r m"
      "\<And>w w' r f. w_try ops False w = SwapGive w' r \<Longrightarrow> Q r (w', f)"
    and ext: "\<And>e m x m' pc'. w_ext ops e m timeout_infinite x = Some (m', pc') \<Longrightarrow>
      unexpired pc' \<and> (\<forall>r. pc' = WRet r \<longrightarrow> Q r m')"
    and woken: "\<And>m. \<not> w_retry ops \<Longrightarrow> Q 0 m"
  shows "Q r m'"
proof -
  define I where "I = (\<lambda>m (pc :: ('w, 'x) wpc). unexpired pc \<and> (\<forall>r. w_returned pc = Some r \<longrightarrow> Q r m))"
  have "I m pc" using assms(2,3) by (simp add: I_def)
  then have "\<exists>pc'. w_returned pc' = Some r \<and> I m' pc'"
  proof (rule run_call_invariant[OF run])
    show "I m' pc'" if "I m pc" "wait_step ops e (i m) pc = Some (m', pc')" for e i m pc m' pc'
      using wait_step_forever[where Q = Q, OF that(2) _ fast attempt ext woken] that(1)
      by (auto simp: I_def w_returned_iff)
  qed
  then show ?thesis by (auto simp: I_def)
qed

text \<open>A schedule without interference.\<close>

definition alone :: "env list \<Rightarrow> 'm schedule" where
  "alone = map (\<lambda>e. (e, \<lambda>m. m))"

lemma alone_simps [simp]: "alone [] = []" "alone (e # es) = (e, \<lambda>m. m) # alone es"
  by (simp_all add: alone_def)

text \<open>\<open>__MCF_batch_release_common\<close> makes exactly as many wake-ups as it is asked for.\<close>

lemma run_releases:
  "run_signal ops (alone (replicate n Rel @ [Step])) m (SRel n r) = Some (r, m, [])"
proof (induction n)
  case 0
  then show ?case by (simp add: batch_release_step_def)
next
  case (Suc n)
  then show ?case by (simp add: batch_release_step_def)
qed

end
