(* ===== verification/Keyed_Event_Laws.thy ===== *)
theory Keyed_Event_Laws
  imports Keyed_Event
begin

text \<open>
  What the systems of \<open>Keyed_Event\<close> keep, proved once for every object. The locale
  \<open>books\<close> is the interface: quantities \<open>book k\<close> read off the shared word, what each client
  state holds of them (\<open>hold k\<close>), the weight \<open>ww k\<close> of a registered sleeper and \<open>ow k\<close> of
  a wake-up that is owed, whether the book relies on the kernel's contract (\<open>strict k\<close>) or
  on nothing, and the laws that each branch of the object's functions obeys.
  Its lemmas show that the word always equals the sum of what the threads hold, that
  the word invariant \<open>good\<close> is kept and that no assertion fails. The locale \<open>baton\<close> extends
  it by the laws that make an unlocked object with sleepers always have a thread that
  is about to wake one of them or to take the lock itself.
\<close>

section \<open>Weights\<close>

fun waiting :: "('x \<Rightarrow> int) \<Rightarrow> ('w, 'x) wpc \<Rightarrow> int" where
  "waiting xw (WExt nt x) = xw x"
| "waiting xw (WCheck nt) = 1"
| "waiting xw (WSleep nt) = 1"
| "waiting xw (WLLoad nt) = 1"
| "waiting xw (WLeave nt old) = 1"
| "waiting xw (WResleep nt) = 1"
| "waiting xw WAbort = 1"
| "waiting xw _ = 0"

fun owed :: "'w spc \<Rightarrow> int" where
  "owed (SPost old n r) = int n"
| "owed (SRel n r) = int n"
| "owed _ = 0"

text \<open>The client state in which a call in progress counts.\<close>

fun wait_client :: "('c \<Rightarrow> int \<Rightarrow> 'c) \<Rightarrow> 'c \<Rightarrow> ('w, 'x) wpc \<Rightarrow> 'c" where
  "wait_client after c (WRet r) = after c r"
| "wait_client after c _ = c"

fun signal_client :: "('c \<Rightarrow> int \<Rightarrow> 'c) \<Rightarrow> 'c \<Rightarrow> 'w spc \<Rightarrow> 'c" where
  "signal_client after c (SRet r) = after c r"
| "signal_client after c (SPost old n r) = after c r"
| "signal_client after c (SRel n r) = after c r"
| "signal_client after c _ = c"

fun client :: "('w, 'f, 'x, 'c, 'a, 'b) object \<Rightarrow> ('w, 'x, 'c, 'a, 'b) thread \<Rightarrow> 'c" where
  "client ob (Idle c) = c"
| "client ob (Waits c a pc) = wait_client (\<lambda>c. o_waited ob c a) c pc"
| "client ob (Signals c b pc) = signal_client (\<lambda>c. o_signalled ob c b) c pc"

fun asleep :: "('x \<Rightarrow> int) \<Rightarrow> ('w, 'x, 'c, 'a, 'b) thread \<Rightarrow> int" where
  "asleep xw (Waits c a pc) = waiting xw pc"
| "asleep xw _ = 0"

fun owes :: "('w, 'x, 'c, 'a, 'b) thread \<Rightarrow> int" where
  "owes (Signals c b pc) = owed pc"
| "owes _ = 0"

lemma owed_nonneg [simp]: "0 \<le> owed pc"
  by (cases pc) auto

lemma owes_nonneg [simp]: "0 \<le> owes t"
  by (cases t) auto

fun faulted :: "('w, 'x, 'c, 'a, 'b) thread \<Rightarrow> bool" where
  "faulted (Signals c b SFault) = True"
| "faulted _ = False"

definition total :: "('t \<Rightarrow> int) \<Rightarrow> ('m, 't) sys \<Rightarrow> int" where
  "total f s = sum_list (map f (thr s))"

lemma cas_iff:
  "cas e m old new ok again = Some (m', p) \<longleftrightarrow>
     e = Step \<and> fst m = old \<and> m' = (new, snd m) \<and> p = ok
   \<or> (e = Step \<and> fst m \<noteq> old \<or> e = Weak) \<and> m' = m \<and> p = again (fst m)"
  by (cases m) (auto split: env.splits)

lemma total_at_thread:
  assumes "at_thread st i s = Some s'"
  shows "\<exists>m' t'. i < length (thr s) \<and> st (mem s) (thr s ! i) = Some (m', t')
      \<and> s' = \<lparr>mem = m', thr = (thr s)[i := t']\<rparr>
      \<and> total f s' = total f s - f (thr s ! i) + f t'"
  using assms by (auto simp: at_thread_def total_def sum_list_map_update split: if_splits)

lemma total_member_le:
  assumes "t \<in> set (thr s)" "\<And>t. 0 \<le> f t"
  shows "f t \<le> total f s"
proof -
  obtain i where "i < length (thr s)" "thr s ! i = t" using assms(1) by (auto simp: in_set_conv_nth)
  moreover have "f (xs ! i) \<le> sum_list (map f xs)" if "i < length xs" for xs i
    using that
  proof (induction xs arbitrary: i)
    case (Cons x xs)
    have "0 \<le> sum_list (map f xs)" using assms(2) by (intro sum_list_nonneg) auto
    with Cons show ?case using assms(2)[of x] by (cases i) (auto simp: add_increasing)
  qed simp
  ultimately show ?thesis by (auto simp: total_def)
qed

lemma at_thread_length: "at_thread st i s = Some s' \<Longrightarrow> length (thr s') = length (thr s)"
  by (auto simp: at_thread_def split: if_splits)

lemma reach_length: "reach K step s0 s \<Longrightarrow> length (thr s) = length (thr s0)"
proof (induction rule: reach.induct)
  case (reach_move s mv s')
  then show ?case
    by (cases mv) (auto simp: Option.bind_eq_Some_conv dest!: at_thread_length split: if_splits)
qed simp

lemma sum_list_le_others:
  fixes f :: "'t \<Rightarrow> int"
  assumes "\<And>x. x \<in> set xs \<Longrightarrow> f x \<le> 1"
  shows "i < length xs \<Longrightarrow> sum_list (map f xs) \<le> f (xs ! i) + int (length xs) - 1"
  using assms
proof (induction xs arbitrary: i)
  case (Cons x xs)
  have le: "sum_list (map f ys) \<le> int (length ys)" if "set ys \<subseteq> set xs" for ys
    using that Cons.prems(2)
  proof (induction ys)
    case (Cons y ys)
    then have "f y \<le> 1" "sum_list (map f ys) \<le> int (length ys)" by auto
    then show ?case by simp
  qed simp
  show ?case
  proof (cases i)
    case 0
    then show ?thesis using le[of xs] by simp
  next
    case (Suc j)
    then have "sum_list (map f xs) \<le> f (xs ! j) + int (length xs) - 1" "f x \<le> 1"
      using Cons.prems Cons.IH[of j] by auto
    then show ?thesis using Suc by simp
  qed
qed simp

lemma sum_list_ge_one:
  fixes f :: "'t \<Rightarrow> int"
  assumes "\<And>x. x \<in> set xs \<Longrightarrow> 0 \<le> f x"
  shows "i < length xs \<Longrightarrow> f (xs ! i) \<le> sum_list (map f xs)"
  using assms
proof (induction xs arbitrary: i)
  case (Cons x xs)
  have "0 \<le> sum_list (map f xs)" using Cons.prems(2) by (intro sum_list_nonneg) auto
  then show ?case using Cons.prems Cons.IH[of "i - 1"] by (cases i) (auto simp: add_increasing)
qed simp

lemma sum_list_ge_two:
  fixes f :: "'t \<Rightarrow> int"
  assumes "\<And>x. x \<in> set xs \<Longrightarrow> 0 \<le> f x"
  shows "i < length xs \<Longrightarrow> j < length xs \<Longrightarrow> i \<noteq> j \<Longrightarrow> f (xs ! i) + f (xs ! j) \<le> sum_list (map f xs)"
  using assms
proof (induction xs arbitrary: i j)
  case (Cons x xs)
  have nn: "\<And>y. y \<in> set xs \<Longrightarrow> 0 \<le> f y" "0 \<le> f x" using Cons.prems by auto
  then show ?case
    using Cons.prems(1-3) Cons.IH[of "i - 1" "j - 1"] sum_list_ge_one[of xs f "i - 1"]
      sum_list_ge_one[of xs f "j - 1"]
    by (cases i; cases j) (auto simp: add_increasing)
qed simp

section \<open>The books of an object\<close>

locale books =
  fixes ob :: "('w, 'f, 'x, 'c, 'a, 'b) object"
    and book :: "'k \<Rightarrow> 'w \<Rightarrow> int"
    and hold :: "'k \<Rightarrow> 'c \<Rightarrow> int"
    and ww :: "'k \<Rightarrow> int"
    and ow :: "'k \<Rightarrow> int"
    and xw :: "'x \<Rightarrow> int"
    and owned :: "'k \<Rightarrow> bool"
    and strict :: "'k \<Rightarrow> bool"
    and good :: "'w \<Rightarrow> bool"
    and N :: nat
    and Z :: 'k
  assumes sleepers: "ow Z = 1" "ww Z = 1" "hold Z c = 0"
    and ow_cases: "ow k = 0 \<or> ow k = 1"
    and ow_strict: "ow k = 1 \<Longrightarrow> strict k"
    and owned_hold: "owned k \<Longrightarrow> 0 \<le> hold k c \<and> ww k = 0 \<and> ow k = 0 \<and> \<not> strict k"
    and xw_cases: "xw x = 0 \<or> xw x = 1"
    and fast_give: "o_may_wait ob c a \<Longrightarrow> w_fast (o_wait ob a) w = FGive r \<Longrightarrow>
          hold k (o_waited ob c a r) = hold k c"
    and fast_swap: "o_may_wait ob c a \<Longrightarrow> good w \<Longrightarrow> (\<forall>j. owned j \<longrightarrow> hold j c \<le> book j w) \<Longrightarrow>
          w_fast (o_wait ob a) w = FSwap w' r \<Longrightarrow>
          good w' \<and> book k w' - book k w = hold k (o_waited ob c a r) - hold k c"
    and try_give: "o_may_wait ob c a \<Longrightarrow> w_try (o_wait ob a) nw w = Give r \<Longrightarrow>
          hold k (o_waited ob c a r) = hold k c"
    and try_swap: "o_may_wait ob c a \<Longrightarrow> good w \<Longrightarrow> (\<forall>j. owned j \<longrightarrow> hold j c \<le> book j w) \<Longrightarrow>
          w_try (o_wait ob a) nw w = SwapGive w' r \<Longrightarrow>
          good w' \<and> book k w' - book k w = hold k (o_waited ob c a r) - hold k c"
    and try_sleep: "o_may_wait ob c a \<Longrightarrow> good w \<Longrightarrow> (\<forall>j. owned j \<longrightarrow> hold j c \<le> book j w) \<Longrightarrow>
          w_try (o_wait ob a) nw w = SwapSleep w' \<Longrightarrow>
          good w' \<and> ((strict k \<longrightarrow> book Z w < int N) \<longrightarrow> book k w' = book k w + ww k)"
    and try_ext: "o_may_wait ob c a \<Longrightarrow> good w \<Longrightarrow> (\<forall>j. owned j \<longrightarrow> hold j c \<le> book j w) \<Longrightarrow>
          w_try (o_wait ob a) nw w = SwapExt w' x \<Longrightarrow>
          good w' \<and> ((strict k \<longrightarrow> book Z w < int N) \<longrightarrow> book k w' = book k w + ww k * xw x)"
    and ext_step: "o_may_wait ob c a \<Longrightarrow> good (fst m) \<Longrightarrow>
          (\<forall>j. owned j \<longrightarrow> hold j c \<le> book j (fst m)) \<Longrightarrow>
          w_ext (o_wait ob a) e m nt x = Some (m', pc) \<Longrightarrow>
          good (fst m') \<and>
          ((strict k \<longrightarrow> book Z (fst m) - xw x < int N) \<longrightarrow> book k (fst m') - book k (fst m)
            = hold k (wait_client (\<lambda>c. o_waited ob c a) c pc) - hold k c
              + ww k * (waiting xw pc - xw x))"
    and ext_env: "w_ext (o_wait ob a) e m nt x = Some y \<Longrightarrow> e \<noteq> Wake \<and> e \<noteq> Rel"
    and leave_swap: "o_may_wait ob c a \<Longrightarrow> good w \<Longrightarrow> w_leave (o_wait ob a) w = Some (w', r) \<Longrightarrow>
          good w' \<and> book k w' - book k w = hold k (o_waited ob c a r) - hold k c - ww k"
    and retried: "w_retry (o_wait ob a) \<Longrightarrow> ww k = ow k"
    and returned: "o_may_wait ob c a \<Longrightarrow> \<not> w_retry (o_wait ob a) \<Longrightarrow>
          hold k (o_waited ob c a 0) = hold k c + ww k - ow k"
    and sfast_give: "o_may_signal ob c b \<Longrightarrow> s_fast (o_sig ob b) w = FGive r \<Longrightarrow>
          hold k (o_signalled ob c b r) = hold k c"
    and sfast_swap: "o_may_signal ob c b \<Longrightarrow> good w \<Longrightarrow> (\<forall>j. owned j \<longrightarrow> hold j c \<le> book j w) \<Longrightarrow>
          s_fast (o_sig ob b) w = FSwap w' r \<Longrightarrow>
          good w' \<and> book k w' - book k w = hold k (o_signalled ob c b r) - hold k c"
    and sfast_fault: "o_may_signal ob c b \<Longrightarrow> good w \<Longrightarrow> (\<forall>j. owned j \<longrightarrow> hold j c \<le> book j w) \<Longrightarrow>
          s_fast (o_sig ob b) w \<noteq> FFault"
    and sentry_refuse: "o_may_signal ob c b \<Longrightarrow> s_entry (o_sig ob b) w = Refuse r \<Longrightarrow>
          hold k (o_signalled ob c b r) = hold k c"
    and sentry_broken: "o_may_signal ob c b \<Longrightarrow> good w \<Longrightarrow> (\<forall>j. owned j \<longrightarrow> hold j c \<le> book j w) \<Longrightarrow>
          s_entry (o_sig ob b) w \<noteq> Broken"
    and stry_give: "o_may_signal ob c b \<Longrightarrow> s_entry (o_sig ob b) w0 = Go \<Longrightarrow> s_try (o_sig ob b) w = SGive r \<Longrightarrow>
          hold k (o_signalled ob c b r) = hold k c"
    and stry_swap: "o_may_signal ob c b \<Longrightarrow> s_entry (o_sig ob b) w0 = Go \<Longrightarrow> good w \<Longrightarrow> (\<forall>j. owned j \<longrightarrow> hold j c \<le> book j w) \<Longrightarrow>
          s_try (o_sig ob b) w = SSwap w' n r \<Longrightarrow> good w' \<and>
          book k w' - book k w = hold k (o_signalled ob c b r) - hold k c - ow k * int n"
    and stry_broken: "o_may_signal ob c b \<Longrightarrow> s_entry (o_sig ob b) w0 = Go \<Longrightarrow> good w \<Longrightarrow> (\<forall>j. owned j \<longrightarrow> hold j c \<le> book j w) \<Longrightarrow>
          s_xchg (o_sig ob b) = None \<Longrightarrow> s_try (o_sig ob b) w \<noteq> SBroken"
    and sxchg: "o_may_signal ob c b \<Longrightarrow> good w \<Longrightarrow> (\<forall>j. owned j \<longrightarrow> hold j c \<le> book j w) \<Longrightarrow>
          s_xchg (o_sig ob b) = Some (w', num, r) \<Longrightarrow> good w' \<and>
          book k w' - book k w = hold k (o_signalled ob c b r) - hold k c - ow k * int (num w)"
begin

definition share :: "'k \<Rightarrow> ('w, 'x, 'c, 'a, 'b) thread \<Rightarrow> int" where
  "share k t = hold k (client ob t) + ww k * asleep xw t - ow k * owes t"

definition known :: "'w \<Rightarrow> 'c \<Rightarrow> bool" where
  "known w c \<longleftrightarrow> (\<forall>k. owned k \<longrightarrow> hold k c \<le> book k w)"

fun sound :: "('w, 'x, 'c, 'a, 'b) thread \<Rightarrow> bool" where
  "sound (Idle c) = True"
| "sound (Waits c a pc) = o_may_wait ob c a"
| "sound (Signals c b pc) = (o_may_signal ob c b \<and>
     (case pc of
        SFTry old \<Rightarrow> good old \<and> known old c
      | SLoad \<Rightarrow> (\<exists>w0. s_entry (o_sig ob b) w0 = Go)
      | STry old \<Rightarrow> good old \<and> known old c \<and> s_xchg (o_sig ob b) = None
                  \<and> (\<exists>w0. s_entry (o_sig ob b) w0 = Go)
      | SFault \<Rightarrow> False
      | _ \<Rightarrow> True))"

fun slack :: "'k \<Rightarrow> ('a, 'b) input \<Rightarrow> int" where
  "slack k (Act Wake) = - ow k"
| "slack k (Act Rel) = ow k"
| "slack k _ = 0"

lemma ww_woken:
  assumes "o_may_wait ob c a"
  shows "hold k (wait_client (\<lambda>c. o_waited ob c a) c (woken (o_wait ob a) nt))
       = hold k c + ww k - ow k"
    and "waiting xw (woken (o_wait ob a) nt) = 0"
  using assms retried[of a k] returned[of c a k] by (auto simp: woken_def)

lemma wait_balance:
  assumes step: "wait_step (o_wait ob a) e m pc = Some (m', pc')"
    and may: "o_may_wait ob c a" and good: "good (fst m)"
    and known: "known (fst m) c"
  shows "(strict k \<Longrightarrow> book Z (fst m) - waiting xw pc < int N) \<Longrightarrow> book k (fst m') - book k (fst m)
       = hold k (wait_client (\<lambda>c. o_waited ob c a) c pc') - hold k c
         + ww k * (waiting xw pc' - waiting xw pc) - slack k (Act e)"
    and "good (fst m')"
proof -
  note kn = known[unfolded known_def]
  have "good (fst m') \<and> ((strict k \<longrightarrow> book Z (fst m) - waiting xw pc < int N) \<longrightarrow> book k (fst m') - book k (fst m)
       = hold k (wait_client (\<lambda>c. o_waited ob c a) c pc') - hold k c
         + ww k * (waiting xw pc' - waiting xw pc) - slack k (Act e))"
  proof (cases pc)
    case (WFast t)
    with step good show ?thesis by (auto split: if_splits)
  next
    case (WFTry t old)
    with step good fast_give[OF may] fast_swap[OF may good kn] show ?thesis
      by (fastforce simp: cas_iff split: fact.splits if_splits)
  next
    case (WInit t)
    with step good show ?thesis by (auto split: env.splits)
  next
    case (WLoad nt)
    with step good show ?thesis by (auto split: if_splits)
  next
    case (WTry nt old)
    with step good try_give[OF may] try_swap[OF may good kn] try_sleep[OF may good kn]
      try_ext[OF may good kn]
    show ?thesis
      by (fastforce simp: cas_iff split: wact.splits if_splits)
  next
    case (WExt nt x)
    with step ext_step[OF may good kn, of e nt x m' pc' k] ext_env[of a e m nt x] show ?thesis
      by (cases e) auto
  next
    case (WCheck nt)
    with step good show ?thesis by (auto split: env.splits if_splits)
  next
    case (WSleep nt)
    with step good ww_woken[OF may] show ?thesis
      using ow_cases[of k] by (auto split: env.splits if_splits)
  next
    case (WLLoad nt)
    with step good show ?thesis by (auto split: if_splits)
  next
    case (WLeave nt old)
    with step good leave_swap[OF may good] show ?thesis
      by (fastforce simp: cas_iff split: option.splits if_splits)
  next
    case (WResleep nt)
    with step good ww_woken[OF may] show ?thesis
      using ow_cases[of k] by (auto split: env.splits if_splits)
  next
    case (WAdjust nt)
    with step good show ?thesis by (auto split: env.splits)
  qed (use step in auto)
  then show "(strict k \<Longrightarrow> book Z (fst m) - waiting xw pc < int N) \<Longrightarrow> book k (fst m') - book k (fst m)
       = hold k (wait_client (\<lambda>c. o_waited ob c a) c pc') - hold k c
         + ww k * (waiting xw pc' - waiting xw pc) - slack k (Act e)"
    and "good (fst m')" by auto
qed

lemma signal_balance:
  assumes step: "signal_step (o_sig ob b) e m pc = Some (m', pc')"
    and snd: "sound (Signals c b pc)" and good: "good (fst m)"
    and known: "known (fst m) c"
  shows "ow k = 0 \<or> e \<noteq> RelFail True \<Longrightarrow> book k (fst m') - book k (fst m)
       = hold k (signal_client (\<lambda>c. o_signalled ob c b) c pc')
         - hold k (signal_client (\<lambda>c. o_signalled ob c b) c pc)
         - ow k * (owed pc' - owed pc) - slack k (Act e)"
    and "good (fst m')" and "sound (Signals c b pc')"
proof -
  note kn = known[unfolded known_def]
  have may: "o_may_signal ob c b" using snd by simp
  have "good (fst m') \<and> sound (Signals c b pc') \<and>
    (ow k = 0 \<or> e \<noteq> RelFail True \<longrightarrow> book k (fst m') - book k (fst m)
       = hold k (signal_client (\<lambda>c. o_signalled ob c b) c pc')
         - hold k (signal_client (\<lambda>c. o_signalled ob c b) c pc)
         - ow k * (owed pc' - owed pc) - slack k (Act e))"
  proof (cases pc)
    case SFast
    with step good may known show ?thesis by (auto split: if_splits)
  next
    case (SFTry old)
    with snd have "good old" "\<forall>j. owned j \<longrightarrow> hold j c \<le> book j old" by (auto simp: known_def)
    from SFTry step good sfast_give[OF may] sfast_swap[OF may good kn] sfast_fault[OF may this] may known
    show ?thesis
      by (fastforce simp: cas_iff split: fact.splits if_splits)
  next
    case SEntry
    with step good may known sentry_refuse[OF may] sentry_broken[OF may good kn] show ?thesis
      by (auto split: if_splits entry.splits intro: exI[of _ "fst m"])
  next
    case SLoad
    with step snd good may known sxchg[OF may good kn] show ?thesis
      by (fastforce split: if_splits option.splits)
  next
    case (STry old)
    with snd have old: "good old" "\<forall>j. owned j \<longrightarrow> hold j c \<le> book j old"
      and x: "s_xchg (o_sig ob b) = None" by (auto simp: known_def)
    obtain w0 where go: "s_entry (o_sig ob b) w0 = Go" using snd STry by auto
    show ?thesis
    proof (cases "s_try (o_sig ob b) old")
      case (SGive r)
      with STry step good may stry_give[OF may go SGive] show ?thesis by (auto split: if_splits)
    next
      case (SSwap w n r)
      then show ?thesis
        using STry step good may known x go stry_swap[OF may go good kn, of w n r k]
        by (auto simp: cas_iff)
    next
      case SBroken
      then show ?thesis using stry_broken[OF may go old x] by simp
    qed
  next
    case (SPost old n r)
    with step good may show ?thesis by (auto split: if_splits)
  next
    case (SRel n r)
    with step good may show ?thesis
      by (cases e) (auto simp: batch_release_step_def algebra_simps of_nat_diff split: if_splits)
  qed (use step in auto)
  then show "ow k = 0 \<or> e \<noteq> RelFail True \<Longrightarrow> book k (fst m') - book k (fst m)
       = hold k (signal_client (\<lambda>c. o_signalled ob c b) c pc')
         - hold k (signal_client (\<lambda>c. o_signalled ob c b) c pc)
         - ow k * (owed pc' - owed pc) - slack k (Act e)"
    and "good (fst m')" and "sound (Signals c b pc')" by auto
qed

lemma thread_balance:
  assumes step: "thread_step ob inp m t = Some (m', t')"
    and snd: "sound t" and good: "good (fst m)"
    and known: "\<And>k. owned k \<Longrightarrow> share k t \<le> book k (fst m)"
  shows "(strict k \<Longrightarrow> book Z (fst m) - asleep xw t < int N) \<Longrightarrow>
      ow k = 0 \<or> inp \<noteq> Act (RelFail True) \<Longrightarrow> book k (fst m') - book k (fst m) = share k t' - share k t - slack k inp"
    and "good (fst m')" and "sound t'"
proof -
  have "((strict k \<longrightarrow> book Z (fst m) - asleep xw t < int N) \<longrightarrow>
      ow k = 0 \<or> inp \<noteq> Act (RelFail True) \<longrightarrow> book k (fst m') - book k (fst m) = share k t' - share k t - slack k inp)
      \<and> good (fst m') \<and> sound t'"
  proof (cases t)
    case (Idle c)
    with step good show ?thesis
      by (cases inp) (auto simp: share_def split: if_splits)
  next
    case (Waits c a pc)
    show ?thesis
    proof (cases inp)
      case (Act e)
      with step Waits obtain pc' where st: "wait_step (o_wait ob a) e m pc = Some (m', pc')"
        and t': "t' = Waits c a pc'" by auto
      have nr: "wait_client (\<lambda>c. o_waited ob c a) c pc = c"
        using st by (cases pc) auto
      have kn: "known (fst m) c"
        unfolding known_def
      proof (intro allI impI)
        fix j assume "owned j"
        then show "hold j c \<le> book j (fst m)"
          using known[of j] owned_hold[of j] by (simp add: share_def Waits nr)
      qed
      show ?thesis
        using wait_balance(1)[OF st _ good kn, of k] wait_balance(2)[OF st _ good kn] snd
        by (auto simp: share_def Waits Act t' nr algebra_simps)
    next
      case Leave
      with step Waits good snd show ?thesis by (cases pc) (auto simp: share_def)
    qed (use step Waits in auto)
  next
    case (Signals c b pc)
    show ?thesis
    proof (cases inp)
      case (Act e)
      with step Signals obtain pc' where st: "signal_step (o_sig ob b) e m pc = Some (m', pc')"
        and t': "t' = Signals c b pc'" by auto
      show ?thesis
      proof (cases "signal_client (\<lambda>c. o_signalled ob c b) c pc = c")
        case True
        have kn: "known (fst m) c"
          unfolding known_def
        proof (intro allI impI)
          fix j assume "owned j"
          then show "hold j c \<le> book j (fst m)"
            using known[of j] owned_hold[of j] by (simp add: share_def Signals True)
        qed
        show ?thesis
          using signal_balance(1)[OF st _ good kn, of k] signal_balance(2-)[OF st _ good kn] snd
          by (auto simp: share_def Signals Act t' True algebra_simps simp del: sound.simps)
      next
        case False
        then consider old n r where "pc = SPost old n r" | n r where "pc = SRel n r"
          using st by (cases pc) auto
        then show ?thesis
          using st snd good
          by cases (cases e; auto simp: share_def Signals Act t' batch_release_step_def of_nat_diff
              algebra_simps split: if_splits)+
      qed
    next
      case Leave
      with step Signals good snd show ?thesis by (cases pc) (auto simp: share_def)
    qed (use step Signals in auto)
  qed
  then show "(strict k \<Longrightarrow> book Z (fst m) - asleep xw t < int N) \<Longrightarrow>
      ow k = 0 \<or> inp \<noteq> Act (RelFail True) \<Longrightarrow> book k (fst m') - book k (fst m) = share k t' - share k t - slack k inp"
    and "good (fst m')" and "sound t'" by auto
qed

definition consistent :: "'k \<Rightarrow> ('w \<times> 'f, ('w, 'x, 'c, 'a, 'b) thread) sys \<Rightarrow> bool" where
  "consistent k s \<longleftrightarrow> book k (fst (mem s)) = total (share k) s"

definition inv :: "(ke_event \<Rightarrow> bool) \<Rightarrow> ('w \<times> 'f, ('w, 'x, 'c, 'a, 'b) thread) sys \<Rightarrow> bool" where
  "inv K s \<longleftrightarrow> good (fst (mem s)) \<and> (\<forall>t \<in> set (thr s). sound t) \<and> length (thr s) \<le> N
     \<and> (\<forall>k. \<not> strict k \<or> keyed_event_contract K \<longrightarrow> consistent k s)"

lemma waiting_le_1: "waiting xw pc \<le> 1 \<and> 0 \<le> waiting xw pc"
proof (cases pc)
  case (WExt nt x)
  then show ?thesis using xw_cases[of x] by auto
qed auto

lemma asleep_le_1: "asleep xw t \<le> 1 \<and> 0 \<le> asleep xw t"
  using waiting_le_1 by (cases t) auto

lemma share_ow: "share Z t = asleep xw t - owes t"
  by (simp add: share_def sleepers)

lemma share_owned: "owned k \<Longrightarrow> share k t = hold k (client ob t)"
  using owned_hold[of k] by (auto simp: share_def)

lemma owned_le:
  assumes "owned k" "consistent k s" "i < length (thr s)"
  shows "share k (thr s ! i) \<le> book k (fst (mem s))"
  using assms owned_hold[of k] sum_list_ge_one[of "thr s" "share k" i]
  by (auto simp: consistent_def total_def share_owned)

lemma ow_room:
  assumes "consistent Z s" "i < length (thr s)" "length (thr s) \<le> N"
  shows "book Z (fst (mem s)) - asleep xw (thr s ! i) < int N"
proof -
  have "share Z t \<le> 1" for t
    using asleep_le_1[of t] owes_nonneg[of t] unfolding share_ow by linarith
  then have "book Z (fst (mem s)) \<le> share Z (thr s ! i) + int (length (thr s)) - 1"
    using sum_list_le_others[of "thr s" "share Z" i] assms by (simp add: consistent_def total_def)
  moreover have "share Z (thr s ! i) \<le> asleep xw (thr s ! i)"
    by (simp add: share_ow)
  ultimately show ?thesis using assms(3) by linarith
qed

lemma inv_at_thread:
  assumes "inv K s" "at_thread (thread_step ob inp) i s = Some s'"
  shows "good (fst (mem s'))" "\<forall>t \<in> set (thr s'). sound t" "length (thr s') \<le> N"
    and "\<not> strict k \<or> keyed_event_contract K \<Longrightarrow> ow k = 0 \<or> inp \<noteq> Act (RelFail True) \<Longrightarrow>
      book k (fst (mem s')) = total (share k) s' - slack k inp"
proof -
  obtain m' t' where i: "i < length (thr s)" and st: "thread_step ob inp (mem s) (thr s ! i) = Some (m', t')"
    and s': "s' = \<lparr>mem = m', thr = (thr s)[i := t']\<rparr>"
    using total_at_thread[OF assms(2)] by blast
  have tot: "total f s' = total f s - f (thr s ! i) + f t'" for f
    using total_at_thread[OF assms(2), of f] st by auto
  have snd: "sound (thr s ! i)" using assms(1) i by (simp add: inv_def)
  have good: "good (fst (mem s))" using assms(1) by (simp add: inv_def)
  have kn: "share j (thr s ! i) \<le> book j (fst (mem s))" if "owned j" for j
    using that owned_le[OF that _ i] owned_hold[OF that] assms(1) by (auto simp: inv_def)
  note bal = thread_balance[OF st snd good kn]
  show "good (fst (mem s'))" using bal(2) by (simp add: s')
  show "\<forall>t \<in> set (thr s'). sound t"
    using bal(3) assms(1) set_update_subset_insert[of "thr s" i t'] by (auto simp: s' inv_def)
  show "length (thr s') \<le> N" using assms(1) by (simp add: s' inv_def)
  show "book k (fst (mem s')) = total (share k) s' - slack k inp"
    if ok: "\<not> strict k \<or> keyed_event_contract K" "ow k = 0 \<or> inp \<noteq> Act (RelFail True)"
  proof -
    have c: "consistent k s" using assms(1) ok(1) by (auto simp: inv_def)
    have "book k (fst m') - book k (fst (mem s)) = share k t' - share k (thr s ! i) - slack k inp"
    proof (rule bal(1)[OF _ _ ok(2)])
      show "book Z (fst (mem s)) - asleep xw (thr s ! i) < int N" if "strict k"
        using ow_room[OF _ i] assms(1) that ok(1) by (auto simp: inv_def)
    qed
    then show ?thesis using c tot[of "share k"] by (simp add: consistent_def s')
  qed
qed

lemma kernel_step:
  assumes "thread_step ob (Act e) m t = Some (m', t')" "e = Wake \<or> e = Rel" "sound t"
  shows "m' = m" "share k t' = share k t + slack k (Act e)" "sound t'"
proof -
  have "m' = m \<and> share k t' = share k t + slack k (Act e) \<and> sound t'"
  proof (cases t)
    case (Waits c a pc)
    with assms obtain pc' where st: "wait_step (o_wait ob a) e m pc = Some (m', pc')"
      and t': "t' = Waits c a pc'" by auto
    consider nt where "pc = WSleep nt" | nt where "pc = WResleep nt"
      using st assms(2) ext_env[of a e m] by (cases pc) (auto simp: cas_iff split: fact.splits wact.splits option.splits)
    then show ?thesis
      using st assms(2,3) ww_woken[of c a] ow_cases[of k]
      by cases (auto simp: share_def Waits t')
  next
    case (Signals c b pc)
    with assms obtain pc' where st: "signal_step (o_sig ob b) e m pc = Some (m', pc')"
      and t': "t' = Signals c b pc'" by auto
    then show ?thesis
      using assms(2,3)
      by (cases pc) (auto simp: share_def Signals cas_iff batch_release_step_def of_nat_diff algebra_simps
          split: fact.splits sact.splits option.splits if_splits)
  qed (use assms in auto)
  then show "m' = m" "share k t' = share k t + slack k (Act e)" "sound t'" by auto
qed

lemma inv_move:
  assumes "inv K s" "sys_move K (thread_step ob) mv s = Some s'"
  shows "inv K s'"
proof (cases mv)
  case (Local i inp)
  with assms have at: "at_thread (thread_step ob inp) i s = Some s'" and nk: "\<not> by_kernel inp"
    by (auto split: if_splits)
  have "slack k inp = 0" "inp \<noteq> Act (RelFail True)" for k
    using nk by (cases "(k, inp)" rule: slack.cases; auto)+
  then show ?thesis
    using inv_at_thread[OF assms(1) at] by (auto simp: inv_def consistent_def)
next
  case (Kernel i e)
  with assms have at: "at_thread (thread_step ob (Act e)) i s = Some s'" and kp: "kernel_permits K e"
    by (auto split: if_splits)
  have nc: "\<not> keyed_event_contract K" using kp by (cases e) (auto simp: keyed_event_contract_def)
  have "slack k (Act e) = 0" "ow k = 0" if "\<not> strict k" for k
    using that ow_cases[of k] ow_strict[of k] by (cases e; auto)+
  then show ?thesis
    using inv_at_thread[OF assms(1) at] nc by (auto simp: inv_def consistent_def)
next
  case (Pair i j)
  with assms obtain s1 where ij: "i \<noteq> j"
    and a1: "at_thread (thread_step ob (Act Wake)) i s = Some s1"
    and a2: "at_thread (thread_step ob (Act Rel)) j s1 = Some s'"
    by (auto simp: Option.bind_eq_Some_conv split: if_splits)
  obtain m1 t1 where i: "i < length (thr s)" and st1: "thread_step ob (Act Wake) (mem s) (thr s ! i) = Some (m1, t1)"
    and s1: "s1 = \<lparr>mem = m1, thr = (thr s)[i := t1]\<rparr>"
    using total_at_thread[OF a1] by blast
  obtain m2 t2 where j: "j < length (thr s1)" and st2: "thread_step ob (Act Rel) (mem s1) (thr s1 ! j) = Some (m2, t2)"
    and s2: "s' = \<lparr>mem = m2, thr = (thr s1)[j := t2]\<rparr>"
    using total_at_thread[OF a2] by blast
  have nth: "thr s1 ! j = thr s ! j" using ij by (simp add: s1)
  have snd: "sound (thr s ! i)" "sound (thr s ! j)" using assms(1) i j by (auto simp: inv_def s1)
  note k1 = kernel_step[OF st1 _ snd(1), simplified] and k2 = kernel_step[OF st2 _ snd(2)[folded nth], simplified]
  have tot: "total (share k) s' = total (share k) s" for k
    using total_at_thread[OF a1, of "share k"] total_at_thread[OF a2, of "share k"] st1 st2 k1(2) k2(2) nth
    by auto
  have "mem s' = mem s" using k1(1) k2(1) by (simp add: s1 s2)
  moreover have "\<forall>t \<in> set (thr s'). sound t"
    using k1(3) k2(3) assms(1) set_update_subset_insert[of "thr s" i t1]
      set_update_subset_insert[of "thr s1" j t2]
    by (auto simp: s1 s2 inv_def)
  ultimately show ?thesis
    using assms(1) tot by (simp add: inv_def consistent_def s1 s2)
qed

lemma inv_reach: "reach K (thread_step ob) s0 s \<Longrightarrow> inv K s0 \<Longrightarrow> inv K s"
  by (induction rule: reach.induct) (auto intro: inv_move)

text \<open>Where a system starts: nobody is in a call and the word agrees with the clients.\<close>

definition start :: "('w \<times> 'f, ('w, 'x, 'c, 'a, 'b) thread) sys \<Rightarrow> bool" where
  "start s \<longleftrightarrow> good (fst (mem s)) \<and> length (thr s) \<le> N \<and> (\<forall>t \<in> set (thr s). \<exists>c. t = Idle c)
     \<and> (\<forall>k. consistent k s)"

lemma start_inv: "start s \<Longrightarrow> inv K s"
  by (auto simp: start_def inv_def)

lemma reach_inv: "reach K (thread_step ob) s0 s \<Longrightarrow> start s0 \<Longrightarrow> inv K s"
  by (rule inv_reach) (auto intro: start_inv)

lemma not_faulted:
  assumes "inv K s" "t \<in> set (thr s)"
  shows "\<not> faulted t"
  using assms by (cases t rule: faulted.cases) (auto simp: inv_def)

lemma accounts:
  assumes "inv K s" "\<not> strict k \<or> keyed_event_contract K"
  shows "book k (fst (mem s)) = total (share k) s"
  using assms by (auto simp: inv_def consistent_def)

lemma sleepers_accounts:
  assumes "inv K s" "keyed_event_contract K"
  shows "book Z (fst (mem s)) = total (asleep xw) s - total owes s"
proof -
  have "total (share Z) s = total (asleep xw) s - total owes s"
    unfolding total_def share_ow by (simp add: sum_list_subtractf)
  then show ?thesis using accounts[OF assms(1), of Z] assms(2) by simp
qed

lemma someone_owes:
  assumes inv: "inv K s" "keyed_event_contract K" and "book Z (fst (mem s)) \<le> 0"
    and t: "t \<in> set (thr s)" "asleep xw t = 1"
  shows "\<exists>t' \<in> set (thr s). 0 < owes t'"
proof (rule ccontr)
  assume "\<not> ?thesis"
  then have "\<forall>t' \<in> set (thr s). owes t' = 0" by (metis owes_nonneg order_le_less)
  then have "total owes s = 0" by (simp add: total_def cong: map_cong)
  moreover have "1 \<le> total (asleep xw) s"
    using total_member_le[OF t(1), of "asleep xw", OF asleep_le_1[THEN conjunct2]] t(2) by simp
  ultimately show False using sleepers_accounts[OF inv] assms(3) by linarith
qed

lemma owned_accounts:
  assumes "inv K s" "owned k"
  shows "book k (fst (mem s)) = total (\<lambda>t. hold k (client ob t)) s"
proof -
  have "share k = (\<lambda>t. hold k (client ob t))" using assms(2) by (simp add: share_owned fun_eq_iff)
  then show ?thesis using accounts[OF assms(1), of k] owned_hold[OF assms(2)] by simp
qed

lemma exclusive:
  assumes "inv K s" "owned k" "book k (fst (mem s)) \<le> 1" "i < length (thr s)" "j < length (thr s)"
    and "0 < hold k (client ob (thr s ! i))" "0 < hold k (client ob (thr s ! j))"
  shows "i = j"
proof (rule ccontr)
  assume "i \<noteq> j"
  then have "share k (thr s ! i) + share k (thr s ! j) \<le> book k (fst (mem s))"
    using sum_list_ge_two[of "thr s" "share k" i j] assms owned_hold[OF assms(2)]
    by (auto simp: inv_def consistent_def total_def share_owned)
  then show False using assms by (simp add: share_owned)
qed

end

section \<open>No thread sleeps on an unlocked object\<close>

text \<open>
  \<open>bat\<close>: the thread is about to wake a sleeper, or it is awake in the loop and has not
  yet seen the object locked.
\<close>

fun awake_on :: "('w \<Rightarrow> bool) \<Rightarrow> ('w, 'x) wpc \<Rightarrow> bool" where
  "awake_on free (WAdjust nt) = True"
| "awake_on free (WLoad nt) = True"
| "awake_on free (WTry nt old) = free old"
| "awake_on free _ = False"

fun bat :: "('w \<Rightarrow> bool) \<Rightarrow> ('w, 'x, 'c, 'a, 'b) thread \<Rightarrow> bool" where
  "bat free (Idle c) = False"
| "bat free (Waits c a pc) = awake_on free pc"
| "bat free (Signals c b pc) = (0 < owed pc)"

lemma owes_bat: "0 < owes t \<Longrightarrow> bat free t"
  by (cases t) auto

locale baton = books ob book hold ww ow xw owned strict good N Z
  for ob :: "('w, 'f, 'x, 'c, 'a, 'b) object"
    and book :: "'k \<Rightarrow> 'w \<Rightarrow> int"
    and hold ww ow xw owned strict good N Z +
  fixes free :: "'w \<Rightarrow> bool"
  assumes retries: "w_retry (o_wait ob a)"
    and fast_need: "good w \<Longrightarrow> w_fast (o_wait ob a) w = FSwap w' r \<Longrightarrow> free w' \<Longrightarrow> 0 < book Z w' \<Longrightarrow>
          free w \<and> 0 < book Z w"
    and try_free: "free w \<Longrightarrow> w_try (o_wait ob a) nw w \<noteq> Give r"
    and try_need: "good w \<Longrightarrow> w_try (o_wait ob a) nw w = SwapGive w' r \<Longrightarrow> free w' \<Longrightarrow> book Z w' \<le> 0"
    and sleep_locked: "good w \<Longrightarrow> w_try (o_wait ob a) nw w = SwapSleep w' \<Longrightarrow> \<not> free w'"
    and ext_locked: "good w \<Longrightarrow> w_try (o_wait ob a) nw w = SwapExt w' x \<Longrightarrow> \<not> free w'"
    and ext_need: "good (fst m) \<Longrightarrow> w_ext (o_wait ob a) e m nt x = Some (m', pc) \<Longrightarrow>
          free (fst m') \<Longrightarrow> 0 < book Z (fst m') \<Longrightarrow> free (fst m) \<and> 0 < book Z (fst m)"
    and leave_need: "good w \<Longrightarrow> w_leave (o_wait ob a) w = Some (w', r) \<Longrightarrow> free w' \<Longrightarrow>
          0 < book Z w' \<Longrightarrow> free w \<and> 0 < book Z w"
    and sfast_need: "good w \<Longrightarrow> s_fast (o_sig ob b) w = FSwap w' r \<Longrightarrow> free w' \<Longrightarrow>
          0 < book Z w' \<Longrightarrow> free w \<and> 0 < book Z w"
    and stry_need: "good w \<Longrightarrow> s_try (o_sig ob b) w = SSwap w' n r \<Longrightarrow> free w' \<Longrightarrow>
          0 < book Z w' \<Longrightarrow> 0 < n \<or> free w \<and> 0 < book Z w"
    and sxchg_need: "good w \<Longrightarrow> s_xchg (o_sig ob b) = Some (w', num, r) \<Longrightarrow> free w' \<Longrightarrow>
          0 < book Z w' \<Longrightarrow> 0 < num w \<or> free w \<and> 0 < book Z w"
begin

definition need :: "'w \<Rightarrow> bool" where
  "need w \<longleftrightarrow> free w \<and> 0 < book Z w"

lemma wait_baton:
  assumes step: "wait_step (o_wait ob a) e m pc = Some (m', pc')" and good: "good (fst m)"
    and need: "need (fst m')"
  shows "awake_on free pc' \<or> need (fst m) \<and> \<not> awake_on free pc"
proof (cases pc)
  case (WFTry t old)
  with step need good fast_need[of "fst m" a "fst m'"] show ?thesis
    by (auto simp: cas_iff need_def split: fact.splits if_splits)
next
  case (WTry nt old)
  with step need try_free[of old a "no_wait nt"] try_need[OF good, of a "no_wait nt" "fst m'"]
    sleep_locked[OF good, of a "no_wait nt" "fst m'"] ext_locked[OF good, of a "no_wait nt" "fst m'"]
  show ?thesis
    by (fastforce simp: cas_iff need_def split: wact.splits if_splits)
next
  case (WExt nt x)
  with step need good ext_need[OF good, of a e nt x m' pc'] show ?thesis by (auto simp: need_def)
next
  case (WLeave nt old)
  with step need good leave_need[of "fst m" a "fst m'"] show ?thesis
    by (auto simp: cas_iff need_def split: option.splits if_splits)
qed (use step need retries[of a] in \<open>auto simp: woken_def need_def split: env.splits if_splits\<close>)

lemma signal_baton:
  assumes step: "signal_step (o_sig ob b) e m pc = Some (m', pc')" and good: "good (fst m)"
    and need: "need (fst m')" and "e \<noteq> Rel" "e \<noteq> RelFail True"
  shows "0 < owed pc' \<or> need (fst m) \<and> \<not> 0 < owed pc"
proof (cases pc)
  case (SFTry old)
  with step need good sfast_need[of "fst m" b "fst m'"] show ?thesis
    by (auto simp: cas_iff need_def split: fact.splits if_splits)
next
  case SLoad
  with step need sxchg_need[OF good, of b "fst m'"] show ?thesis
    by (fastforce simp: need_def split: option.splits if_splits)
next
  case (STry old)
  with step need stry_need[OF good, of b "fst m'"] show ?thesis
    by (fastforce simp: cas_iff need_def split: sact.splits if_splits)
next
  case (SRel n r)
  with step need assms(4-) show ?thesis
    by (auto simp: batch_release_step_def split: if_splits env.splits)
qed (use step need in \<open>auto simp: need_def split: if_splits\<close>)

lemma thread_baton:
  assumes "thread_step ob inp m t = Some (m', t')" "good (fst m)" "need (fst m')"
    and "inp \<noteq> Act Rel" "inp \<noteq> Act (RelFail True)"
  shows "bat free t' \<or> need (fst m) \<and> \<not> bat free t"
proof (cases t)
  case (Idle c)
  with assms show ?thesis by (cases inp) (auto split: if_splits)
next
  case (Waits c a pc)
  show ?thesis
  proof (cases inp)
    case (Act e)
    with assms Waits obtain pc' where st: "wait_step (o_wait ob a) e m pc = Some (m', pc')"
      and t': "t' = Waits c a pc'" by auto
    show ?thesis using wait_baton[OF st assms(2,3)] by (simp add: Waits t')
  next
    case Leave
    with assms Waits show ?thesis by (cases pc) auto
  qed (use assms Waits in auto)
next
  case (Signals c b pc)
  show ?thesis
  proof (cases inp)
    case (Act e)
    with assms Signals obtain pc' where st: "signal_step (o_sig ob b) e m pc = Some (m', pc')"
      and t': "t' = Signals c b pc'" by auto
    show ?thesis using signal_baton[OF st assms(2,3)] assms(4,5) by (simp add: Signals t' Act)
  next
    case Leave
    with assms Signals show ?thesis by (cases pc) auto
  qed (use assms Signals in auto)
qed

definition carried :: "('w \<times> 'f, ('w, 'x, 'c, 'a, 'b) thread) sys \<Rightarrow> bool" where
  "carried s \<longleftrightarrow> (need (fst (mem s)) \<longrightarrow> (\<exists>t \<in> set (thr s). bat free t))"

lemma wake_bat:
  assumes "thread_step ob (Act Wake) m t = Some (m', t')"
  shows "bat free t'"
proof (cases t)
  case (Waits c a pc)
  with assms obtain pc' where st: "wait_step (o_wait ob a) Wake m pc = Some (m', pc')"
    and t': "t' = Waits c a pc'" by auto
  then show ?thesis
    using retries[of a] ext_env[of a Wake m]
    by (cases pc; cases m'; fastforce simp: woken_def cas_iff split: fact.splits wact.splits option.splits)
next
  case (Signals c b pc)
  with assms obtain pc' where "signal_step (o_sig ob b) Wake m pc = Some (m', pc')" by auto
  then show ?thesis
    by (cases pc) (auto simp: cas_iff batch_release_step_def
        split: fact.splits sact.splits option.splits if_splits)
qed (use assms in auto)

lemma carried_move:
  assumes inv: "inv K s" and c: "carried s" and K: "keyed_event_contract K"
    and mv: "sys_move K (thread_step ob) mv s = Some s'"
  shows "carried s'"
proof (cases mv)
  case (Local i inp)
  with mv have at: "at_thread (thread_step ob inp) i s = Some s'" and nk: "\<not> by_kernel inp"
    by (auto split: if_splits)
  obtain m' t' where i: "i < length (thr s)" and st: "thread_step ob inp (mem s) (thr s ! i) = Some (m', t')"
    and s': "s' = \<lparr>mem = m', thr = (thr s)[i := t']\<rparr>"
    using total_at_thread[OF at] by blast
  have inp: "inp \<noteq> Act Rel" "inp \<noteq> Act (RelFail True)" using nk by auto
  show ?thesis
    unfolding carried_def
  proof
    assume n: "need (fst (mem s'))"
    have "good (fst (mem s))" using inv by (simp add: inv_def)
    then consider "bat free t'" | "need (fst (mem s))" "\<not> bat free (thr s ! i)"
      using thread_baton[OF st _ _ inp] n by (auto simp: s')
    then show "\<exists>t \<in> set (thr s'). bat free t"
    proof cases
      case 1
      then show ?thesis using i by (auto simp: s' set_update_memI)
    next
      case 2
      then obtain j where j: "j < length (thr s)" "bat free (thr s ! j)"
        using c by (auto simp: carried_def in_set_conv_nth)
      then have "thr s' ! j = thr s ! j" using 2(2) by (cases "i = j") (auto simp: s')
      then show ?thesis using j by (metis length_list_update nth_mem s' sys.select_convs(2))
    qed
  qed
next
  case (Kernel i e)
  with mv K have False by (cases e) (auto simp: keyed_event_contract_def split: if_splits)
  then show ?thesis ..
next
  case (Pair i j)
  with mv obtain s1 where ij: "i \<noteq> j"
    and a1: "at_thread (thread_step ob (Act Wake)) i s = Some s1"
    and a2: "at_thread (thread_step ob (Act Rel)) j s1 = Some s'"
    by (auto simp: Option.bind_eq_Some_conv split: if_splits)
  obtain m1 t1 where i: "i < length (thr s)" and st1: "thread_step ob (Act Wake) (mem s) (thr s ! i) = Some (m1, t1)"
    and s1: "s1 = \<lparr>mem = m1, thr = (thr s)[i := t1]\<rparr>"
    using total_at_thread[OF a1] by blast
  obtain m2 t2 where s2: "s' = \<lparr>mem = m2, thr = (thr s1)[j := t2]\<rparr>"
    using total_at_thread[OF a2] by blast
  have "thr s' ! i = t1" "i < length (thr s')" using i ij by (auto simp: s1 s2)
  then have "\<exists>t \<in> set (thr s'). bat free t" using wake_bat[OF st1] by (metis nth_mem)
  then show ?thesis by (simp add: carried_def)
qed

lemma carried_reach:
  "reach K (thread_step ob) s0 s \<Longrightarrow> start s0 \<Longrightarrow> keyed_event_contract K \<Longrightarrow> carried s"
proof (induction rule: reach.induct)
  case reach_refl
  have "share Z t = 0" if "t \<in> set (thr s0)" for t
    using that reach_refl by (auto simp: start_def share_ow)
  then have "map (share Z) (thr s0) = map (\<lambda>_. 0) (thr s0)" by simp
  then have "total (share Z) s0 = 0" unfolding total_def by (simp only: sum_list_0)
  then show ?case
    using reach_refl by (auto simp: carried_def need_def start_def consistent_def)
qed (metis carried_move reach_inv)

lemma someone_awake:
  assumes "reach K (thread_step ob) s0 s" "start s0" "keyed_event_contract K"
    and "free (fst (mem s)) \<or> book Z (fst (mem s)) \<le> 0" "t \<in> set (thr s)" "asleep xw t = 1"
  shows "\<exists>t' \<in> set (thr s). bat free t'"
proof (cases "need (fst (mem s))")
  case True
  then show ?thesis using carried_reach[OF assms(1-3)] by (simp add: carried_def)
next
  case False
  then have "book Z (fst (mem s)) \<le> 0" using assms(4) by (auto simp: need_def)
  then obtain t' where "t' \<in> set (thr s)" "0 < owes t'"
    using someone_owes[OF reach_inv[OF assms(1,2)] assms(3) _ assms(5,6)] by blast
  then have "bat free t'" by (simp add: owes_bat)
  then show ?thesis using \<open>t' \<in> set (thr s)\<close> by blast
qed

end

end
