(* ===== verification/Mcf_Mutex.thy ===== *)
theory Mcf_Mutex
  imports Keyed_Event_Laws
begin

text \<open>
  The mutex: \<open>mcfgthread/mutex.h\<close> and \<open>mcfgthread/src/mutex.c\<close>. The word holds the lock
  bit, a mask of the four spinning slots, a saturating counter of spinning failures and
  the number of sleepers. A locking thread that finds the mutex locked takes a spinning
  slot if one is left and spinning has not failed too often; it then polls one byte of
  the global \<open>mutex_spin_field\<close>, which an unlocking thread sets. The inline fast paths
  work on the raw word (\<open>mutex_bits\<close>).

  Shown: mutual exclusion, whatever the kernel does; no assertion fails; the sleeping
  count accounts for every sleeper; no thread is left asleep on an unlocked mutex; the
  fast paths do what the slow ones do; indices into the spin field are in range; the
  failure counter saturates.
\<close>

section \<open>The word\<close>

record MCF_mutex =
  mtx_locked :: "1 word"
  mtx_sp_mask :: "4 word"
  mtx_sp_nfail :: "4 word"
  mtx_nsleep :: "55 word"

definition MCF_mutex_init :: MCF_mutex where
  "MCF_mutex_init = \<lparr>mtx_locked = 0, mtx_sp_mask = 0, mtx_sp_nfail = 0, mtx_nsleep = 0\<rparr>"

definition mutex_bits :: "MCF_mutex \<Rightarrow> uptr" where
  "mutex_bits w = ucast (mtx_locked w) OR push_bit 1 (ucast (mtx_sp_mask w))
     OR push_bit 5 (ucast (mtx_sp_nfail w)) OR push_bit 9 (ucast (mtx_nsleep w))"

definition mutex_of_bits :: "uptr \<Rightarrow> MCF_mutex" where
  "mutex_of_bits b = \<lparr>mtx_locked = ucast b, mtx_sp_mask = ucast (drop_bit 1 b),
     mtx_sp_nfail = ucast (drop_bit 5 b), mtx_nsleep = ucast (drop_bit 9 b)\<rparr>"

definition MCF_MUTEX_SP_NFAIL_THRESHOLD :: u32 where
  "MCF_MUTEX_SP_NFAIL_THRESHOLD = 10"

section \<open>Fast paths\<close>

definition MCF_mutex_lock :: "MCF_mutex \<Rightarrow> MCF_mutex fact" where
  "MCF_mutex_lock w =
     (let old_bits = mutex_bits w in
      if old_bits AND 1 = 0 then
        FSwap (mutex_of_bits (old_bits + 1
          - ucast (((drop_bit 4 (ucast old_bits :: u32) AND 0x1E) + 0x1E) AND 0x20))) 0
      else FSlow)"

definition MCF_mutex_unlock :: "MCF_mutex \<Rightarrow> MCF_mutex fact" where
  "MCF_mutex_unlock w =
     (let old_bits = mutex_bits w in
      if old_bits AND 1 = 0 then FFault
      else if old_bits AND (- 1 - 0x1E1) = 0 then FSwap (mutex_of_bits (old_bits - 1)) 0
      else FSlow)"

section \<open>Spinning\<close>

text \<open>\<open>__MCF_bit_scan_forward_32\<close>: \<open>None\<close> when no bit is set.\<close>

definition bit_scan_forward_32 :: "u32 \<Rightarrow> nat option" where
  "bit_scan_forward_32 value = find (bit value) [0..<32]"

definition mutex_spin_field_size :: nat where
  "mutex_spin_field_size = 2048"

text \<open>The index into \<open>mutex_spin_field\<close>; \<open>None\<close> is a failed assertion.\<close>

definition do_spin_byte_ptr :: "uptr \<Rightarrow> u32 \<Rightarrow> nat option" where
  "do_spin_byte_ptr mtx sp_mask =
     (let table_size = 2048 :: u32;
          table_size_reciprocal = 0x200000 :: u32;
          base = unat (ucast (mtx div 8 * 0x9E3779B9) div table_size_reciprocal :: u32)
      in if base < unat table_size then
           (case bit_scan_forward_32 sp_mask of
              None \<Rightarrow> None
            | Some index \<Rightarrow>
                if index < 4 then
                  Some ((base + index * (unat table_size div 4)) mod unat table_size)
                else None)
         else None)"

definition do_adjust_sp_nfail :: "u32 \<Rightarrow> u32 \<Rightarrow> u32" where
  "do_adjust_sp_nfail old add = (let temp = old + add in temp - drop_bit 4 temp)"

definition sp_nfail_after :: "4 word \<Rightarrow> u32 \<Rightarrow> 4 word" where
  "sp_nfail_after old add = ucast (do_adjust_sp_nfail (ucast old) add AND 0x0F)"

text \<open>The lowest clear bit of the mask, as a mask.\<close>

definition spare_slot :: "4 word \<Rightarrow> u32" where
  "spare_slot old = (0xFFFFFFFF XOR ucast old) AND (ucast old + 1)"

definition with_slot :: "4 word \<Rightarrow> u32 \<Rightarrow> 4 word" where
  "with_slot old sp_mask = ucast ((ucast old OR sp_mask) AND 0x0F)"

definition without_slot :: "4 word \<Rightarrow> u32 \<Rightarrow> 4 word" where
  "without_slot old sp_mask = ucast ((ucast old AND (0xFFFFFFFF XOR sp_mask)) AND 0x0F)"

text \<open>
  The spinning part of \<open>_MCF_mutex_lock_slow\<close>, with the budget and the slot mask:
  \<open>Sp_head\<close> is the head of the \<open>while\<close> loop, \<open>Sp_turn\<close> waits for the performance counter,
  \<open>Sp_xchg\<close> polls the byte, \<open>Sp_load\<close> and \<open>Sp_try\<close> are the inner loop, \<open>Sp_quit\<close> the loop
  that gives the slot back.
\<close>

datatype spin =
    Sp_head u32 u32
  | Sp_turn u32 u32 i64 i64
  | Sp_xchg u32 u32
  | Sp_load u32 u32
  | Sp_try u32 u32 MCF_mutex
  | Sp_quit u32 MCF_mutex

type_synonym mutex_pc = "(MCF_mutex, spin) wpc"
type_synonym spin_field = "u8 list"

section \<open>Locking\<close>

text \<open>The branch that takes the lock, with the new spinning mask.\<close>

definition mutex_taken :: "MCF_mutex \<Rightarrow> 4 word \<Rightarrow> MCF_mutex" where
  "mutex_taken old slots = \<lparr>mtx_locked = 1, mtx_sp_mask = slots,
     mtx_sp_nfail = sp_nfail_after (mtx_sp_nfail old) (- 1), mtx_nsleep = mtx_nsleep old\<rparr>"

definition mutex_asleep :: "MCF_mutex \<Rightarrow> 4 word \<Rightarrow> MCF_mutex" where
  "mutex_asleep old slots = \<lparr>mtx_locked = 1, mtx_sp_mask = slots,
     mtx_sp_nfail = sp_nfail_after (mtx_sp_nfail old) 1, mtx_nsleep = mtx_nsleep old + 1\<rparr>"

definition mutex_slotted :: "MCF_mutex \<Rightarrow> MCF_mutex" where
  "mutex_slotted old = \<lparr>mtx_locked = 1,
     mtx_sp_mask = with_slot (mtx_sp_mask old) (spare_slot (mtx_sp_mask old)),
     mtx_sp_nfail = mtx_sp_nfail old, mtx_nsleep = mtx_nsleep old\<rparr>"

definition mutex_try :: "bool \<Rightarrow> MCF_mutex \<Rightarrow> (MCF_mutex, spin) wact" where
  "mutex_try zero_timeout old =
     (if mtx_locked old = 0 then SwapGive (mutex_taken old (mtx_sp_mask old)) 0
      else if zero_timeout then Give (- 1)
      else if mtx_sp_mask old \<noteq> 0xF \<and> ucast (mtx_sp_nfail old) < MCF_MUTEX_SP_NFAIL_THRESHOLD then
        SwapExt (mutex_slotted old)
          (Sp_head ((MCF_MUTEX_SP_NFAIL_THRESHOLD - ucast (mtx_sp_nfail old)) * 16)
                   (spare_slot (mtx_sp_mask old)))
      else SwapSleep (mutex_asleep old (mtx_sp_mask old)))"

fun spin_step :: "uptr \<Rightarrow> u32 \<Rightarrow> env \<Rightarrow> MCF_mutex \<times> spin_field \<Rightarrow> winnt_timeout \<Rightarrow> spin \<Rightarrow>
    (MCF_mutex, spin_field, mutex_pc) outcome" where
  "spin_step mtx quantum e m nt (Sp_head sp_budget sp_mask) =
     (if sp_budget \<noteq> 0 \<and> sp_mask \<noteq> 0 then
        (case e of
           Clock t0 \<Rightarrow> Some (m, WExt nt (Sp_turn (sp_budget - 1) sp_mask t0 (t0 + ucast quantum)))
         | _ \<Rightarrow> None)
      else if e = Step then Some (m, WExt nt (Sp_quit sp_mask (fst m)))
      else None)"
| "spin_step mtx quantum e m nt (Sp_turn sp_budget sp_mask t0 t1) =
     (if t0 <s t1 then
        (case e of Clock t \<Rightarrow> Some (m, WExt nt (Sp_turn sp_budget sp_mask t t1)) | _ \<Rightarrow> None)
      else if e = Step then Some (m, WExt nt (Sp_xchg sp_budget sp_mask))
      else None)"
| "spin_step mtx quantum e m nt (Sp_xchg sp_budget sp_mask) =
     (case do_spin_byte_ptr mtx sp_mask of
        None \<Rightarrow> None
      | Some i \<Rightarrow>
          if e = Step then
            Some ((fst m, (snd m)[i := 0]),
                  WExt nt (if snd m ! i = 0 then Sp_head sp_budget sp_mask
                           else Sp_load sp_budget sp_mask))
          else None)"
| "spin_step mtx quantum e m nt (Sp_load sp_budget sp_mask) =
     (if e = Step then Some (m, WExt nt (Sp_try sp_budget sp_mask (fst m))) else None)"
| "spin_step mtx quantum e m nt (Sp_try sp_budget sp_mask old) =
     (if mtx_locked old = 0 then
        cas e m old (mutex_taken old (mtx_sp_mask old)) (WRet 0)
          (\<lambda>w. WExt nt (Sp_try sp_budget sp_mask w))
      else if mtx_sp_mask old \<noteq> 0xF then
        cas e m old (mutex_slotted old) (WExt nt (Sp_head sp_budget (spare_slot (mtx_sp_mask old))))
          (\<lambda>w. WExt nt (Sp_try sp_budget (spare_slot (mtx_sp_mask old)) w))
      else if e = Step then Some (m, WExt nt (Sp_head sp_budget 0))
      else None)"
| "spin_step mtx quantum e m nt (Sp_quit sp_mask old) =
     (if mtx_locked old = 0 then
        cas e m old (mutex_taken old (without_slot (mtx_sp_mask old) sp_mask)) (WRet 0)
          (\<lambda>w. WExt nt (Sp_quit sp_mask w))
      else
        cas e m old (mutex_asleep old (without_slot (mtx_sp_mask old) sp_mask)) (WCheck nt)
          (\<lambda>w. WExt nt (Sp_quit sp_mask w)))"

definition mutex_leave :: "MCF_mutex \<Rightarrow> (MCF_mutex \<times> int) option" where
  "mutex_leave old =
     (if mtx_nsleep old = 0 then None
      else Some (old\<lparr>mtx_nsleep := mtx_nsleep old - 1\<rparr>, - 1))"

definition MCF_mutex_lock_slow :: "uptr \<Rightarrow> u32 \<Rightarrow> (MCF_mutex, spin_field, spin) wait_ops" where
  "MCF_mutex_lock_slow mtx quantum =
     \<lparr>w_fast = MCF_mutex_lock, w_try = mutex_try, w_ext = spin_step mtx quantum,
      w_leave = mutex_leave, w_retry = True\<rparr>"

section \<open>Unlocking\<close>

definition mutex_unlock_try :: "MCF_mutex \<Rightarrow> MCF_mutex sact" where
  "mutex_unlock_try old =
     (if mtx_locked old \<noteq> 1 then SBroken
      else
        (let wake_one = of_bool (mtx_nsleep old \<noteq> 0) in
         SSwap \<lparr>mtx_locked = 0, mtx_sp_mask = mtx_sp_mask old AND (mtx_sp_mask old - 1),
                mtx_sp_nfail = mtx_sp_nfail old, mtx_nsleep = mtx_nsleep old - wake_one\<rparr>
           (unat wake_one) 0))"

definition mutex_notify_spinner :: "uptr \<Rightarrow> MCF_mutex \<Rightarrow> spin_field \<Rightarrow> spin_field" where
  "mutex_notify_spinner mtx old field =
     (if mtx_sp_mask old \<noteq> 0 then
        (case do_spin_byte_ptr mtx (ucast (mtx_sp_mask old)) of
           None \<Rightarrow> field
         | Some i \<Rightarrow> field[i := 1])
      else field)"

definition MCF_mutex_unlock_slow :: "uptr \<Rightarrow> (MCF_mutex, spin_field) sig_ops" where
  "MCF_mutex_unlock_slow mtx =
     \<lparr>s_fast = MCF_mutex_unlock, s_entry = (\<lambda>_. Go), s_try = mutex_unlock_try,
      s_xchg = None, s_post = mutex_notify_spinner mtx\<rparr>"

text \<open>A client locks when it does not hold the mutex and unlocks when it does.\<close>

definition mutex_object :: "uptr \<Rightarrow> u32 \<Rightarrow> (MCF_mutex, spin_field, spin, bool, unit, unit) object" where
  "mutex_object mtx quantum =
     \<lparr>o_wait = (\<lambda>_. MCF_mutex_lock_slow mtx quantum), o_sig = (\<lambda>_. MCF_mutex_unlock_slow mtx),
      o_may_wait = (\<lambda>holds _. \<not> holds), o_waited = (\<lambda>holds _ r. r = 0),
      o_may_signal = (\<lambda>holds _. holds), o_signalled = (\<lambda>_ _ _. False)\<rparr>"

section \<open>Books\<close>

datatype mutex_ledger = Mutex_holder | Mutex_sleepers

definition mutex_book :: "mutex_ledger \<Rightarrow> MCF_mutex \<Rightarrow> int" where
  "mutex_book k w = (case k of
      Mutex_holder \<Rightarrow> uint (mtx_locked w)
    | Mutex_sleepers \<Rightarrow> uint (mtx_nsleep w))"

definition mutex_hold :: "mutex_ledger \<Rightarrow> bool \<Rightarrow> int" where
  "mutex_hold k holds = (case k of Mutex_holder \<Rightarrow> of_bool holds | Mutex_sleepers \<Rightarrow> 0)"

definition mutex_free :: "MCF_mutex \<Rightarrow> bool" where
  "mutex_free w \<longleftrightarrow> mtx_locked w = 0"

abbreviation mutex_weight :: "mutex_ledger \<Rightarrow> int" where
  "mutex_weight k \<equiv> of_bool (k = Mutex_sleepers)"

definition mutex_max_threads :: nat where
  "mutex_max_threads = 2 ^ 55 - 1"

lemma all_mutex_ledger [simp]: "(\<forall>k. P k) \<longleftrightarrow> P Mutex_holder \<and> P Mutex_sleepers"
  by (metis mutex_ledger.exhaust)

lemma one_bit_set: "bit (x :: 1 word) n \<longleftrightarrow> n = 0 \<and> x \<noteq> 0"
  using one_bit_cases[of x] by (cases n) auto

lemma bit_mutex_bits:
  "bit (mutex_bits w) i \<longleftrightarrow> i = 0 \<and> mtx_locked w \<noteq> 0 \<or> 1 \<le> i \<and> i < 5 \<and> bit (mtx_sp_mask w) (i - 1)
     \<or> 5 \<le> i \<and> i < 9 \<and> bit (mtx_sp_nfail w) (i - 5) \<or> 9 \<le> i \<and> i < 64 \<and> bit (mtx_nsleep w) (i - 9)"
  using bit_imp_le_length[of "mtx_sp_mask w" "i - 1"] bit_imp_le_length[of "mtx_sp_nfail w" "i - 5"]
    bit_imp_le_length[of "mtx_nsleep w" "i - 9"]
  by (auto simp: mutex_bits_def bit_simps one_bit_set simp del: push_bit_Suc)

lemma mutex_bits_sum:
  "mutex_bits w = ucast (mtx_locked w) + 2 * ucast (mtx_sp_mask w) + 32 * ucast (mtx_sp_nfail w)
     + 512 * ucast (mtx_nsleep w)"
proof -
  let ?l = "ucast (mtx_locked w) :: uptr" and ?m = "push_bit 1 (ucast (mtx_sp_mask w)) :: uptr"
    and ?n = "push_bit 5 (ucast (mtx_sp_nfail w)) :: uptr" and ?s = "push_bit 9 (ucast (mtx_nsleep w)) :: uptr"
  have "?l + ?m = ?l OR ?m"
    by (rule disjunctive_add) (auto simp: bit_simps one_bit_set simp del: push_bit_Suc)
  moreover have "(?l OR ?m) + ?n = (?l OR ?m) OR ?n"
    by (rule disjunctive_add)
      (auto simp: bit_simps one_bit_set simp del: push_bit_Suc dest: bit_imp_le_length)
  moreover have "((?l OR ?m) OR ?n) + ?s = ((?l OR ?m) OR ?n) OR ?s"
    by (rule disjunctive_add)
      (auto simp: bit_simps one_bit_set simp del: push_bit_Suc dest: bit_imp_le_length)
  ultimately have "?l + ?m + ?n + ?s = mutex_bits w" by (simp add: mutex_bits_def ac_simps)
  then show ?thesis by (simp add: push_bit_eq_mult mult.commute)
qed

lemma mutex_of_bits_inverse: "mutex_of_bits (mutex_bits w) = w"
proof -
  have "ucast (mutex_bits w) = mtx_locked w"
    by (rule bit_word_eqI) (simp add: bit_simps bit_mutex_bits one_bit_set[of "mtx_locked w"])
  moreover have "ucast (drop_bit 1 (mutex_bits w)) = mtx_sp_mask w"
    by (rule bit_word_eqI) (auto simp: bit_simps bit_mutex_bits simp del: drop_bit_Suc)
  moreover have "ucast (drop_bit 5 (mutex_bits w)) = mtx_sp_nfail w"
    by (rule bit_word_eqI) (auto simp: bit_simps bit_mutex_bits)
  moreover have "ucast (drop_bit 9 (mutex_bits w)) = mtx_nsleep w"
    by (rule bit_word_eqI) (auto simp: bit_simps bit_mutex_bits)
  ultimately show ?thesis by (simp add: mutex_of_bits_def del: drop_bit_Suc)
qed

lemma word4_cases:
  "(x :: 4 word) \<in> {0, 1, 2, 3, 4, 5, 6, 7, 8, 9, 10, 11, 12, 13, 14, 15}"
proof -
  have "unat x < 16" using unat_less_bound[of x] by simp
  then have "unat x \<in> set [0..<16]" by simp
  then have "x \<in> word_of_nat ` set [0..<16]" by (intro image_eqI[of _ _ "unat x"]) simp_all
  then show ?thesis by (simp add: upt_rec)
qed

lemma sp_nfail_after_0: "sp_nfail_after 0 (- 1) = 0"
  by code_simp

lemma sp_nfail_after_saturates:
  "sp_nfail_after n (- 1) = (if n = 0 then 0 else n - 1)"
  "sp_nfail_after n 1 = (if n = 15 then 15 else n + 1)"
  using word4_cases[of n] sp_nfail_after_0
  by (auto simp: sp_nfail_after_def do_adjust_sp_nfail_def Let_def)

lemma lock_bit [simp]: "mutex_bits w AND 1 = 0 \<longleftrightarrow> mtx_locked w = 0"
  using and_one_bit[of "mutex_bits w"] by (auto simp: bit_mutex_bits)

lemma fast_nfail:
  "(drop_bit 4 (ucast (mutex_bits w) :: u32) AND 0x1E) + 0x1E AND 0x20
   = (if mtx_sp_nfail w = 0 then 0 else 0x20)"
proof -
  have m: "(0x1E :: u32) = push_bit 1 (mask 4)" by (simp add: mask_eq_exp_minus_1)
  have "drop_bit 4 (ucast (mutex_bits w) :: u32) AND 0x1E = push_bit 1 (ucast (mtx_sp_nfail w))"
    unfolding m
    by (rule bit_word_eqI)
      (auto simp: bit_simps bit_mutex_bits simp del: push_bit_Suc dest: bit_imp_le_length)
  then show ?thesis
    using word4_cases[of "mtx_sp_nfail w"] by auto
qed

lemma mutex_lock_fast:
  "MCF_mutex_lock w = (if mtx_locked w = 0 then FSwap (mutex_taken w (mtx_sp_mask w)) 0 else FSlow)"
proof (cases "mtx_locked w = 0")
  case True
  let ?w' = "mutex_taken w (mtx_sp_mask w)"
  have "mutex_bits w + 1 - ucast (if mtx_sp_nfail w = 0 then 0 else 0x20 :: u32) = mutex_bits ?w'"
    using True word4_cases[of "mtx_sp_nfail w"]
    by (auto simp: mutex_bits_sum mutex_taken_def sp_nfail_after_saturates)
  then show ?thesis
    using True by (simp add: MCF_mutex_lock_def fast_nfail mutex_of_bits_inverse Let_def)
qed (simp add: MCF_mutex_lock_def Let_def)

lemma and_not_eq_0: "x AND NOT y = 0 \<longleftrightarrow> (\<forall>i < LENGTH('a). bit x i \<longrightarrow> bit (y :: 'a::len word) i)"
  by (simp add: bit_eq_iff bit_simps)

lemma unlock_mask:
  "mutex_bits w AND - 482 = 0 \<longleftrightarrow> mtx_sp_mask w = 0 \<and> mtx_nsleep w = 0"
proof -
  have m: "(- 482 :: uptr) = NOT (1 OR push_bit 5 (mask 4))"
    by code_simp
  have "mutex_bits w AND - 482 = 0 \<longleftrightarrow>
      (\<forall>i < 64. bit (mutex_bits w) i \<longrightarrow> i = 0 \<or> 5 \<le> i \<and> i < 9)"
    unfolding m and_not_eq_0 by (simp add: bit_simps) auto
  also have "\<dots> \<longleftrightarrow> (\<forall>i < 4. \<not> bit (mtx_sp_mask w) i) \<and> (\<forall>i < 55. \<not> bit (mtx_nsleep w) i)"
    (is "?l \<longleftrightarrow> ?r")
  proof
    assume l: ?l
    have "\<not> bit (mtx_sp_mask w) i" if "i < 4" for i
      using l[rule_format, of "i + 1"] that by (auto simp: bit_mutex_bits)
    moreover have "\<not> bit (mtx_nsleep w) i" if "i < 55" for i
      using l[rule_format, of "i + 9"] that by (auto simp: bit_mutex_bits)
    ultimately show ?r by blast
  next
    assume r: ?r
    show ?l
    proof (intro allI impI)
      fix i :: nat assume "i < 64" "bit (mutex_bits w) i"
      then show "i = 0 \<or> 5 \<le> i \<and> i < 9"
        using r[THEN conjunct1, rule_format, of "i - 1"] r[THEN conjunct2, rule_format, of "i - 9"]
        by (cases "i = 0"; cases "i < 5"; cases "i < 9") (auto simp: bit_mutex_bits less_diff_conv2)
    qed
  qed
  also have "\<dots> \<longleftrightarrow> mtx_sp_mask w = 0 \<and> mtx_nsleep w = 0"
    by (auto intro!: bit_word_eqI)
  finally show ?thesis .
qed

lemma mutex_unlock_fast:
  "MCF_mutex_unlock w =
     (if mtx_locked w = 0 then FFault
      else if mtx_sp_mask w = 0 \<and> mtx_nsleep w = 0 then FSwap (w\<lparr>mtx_locked := 0\<rparr>) 0
      else FSlow)"
proof (cases "mtx_locked w = 0")
  case False
  then have l: "mtx_locked w = 1" using one_bit_cases by auto
  have "mutex_bits w - 1 = mutex_bits (w\<lparr>mtx_locked := 0\<rparr>)"
    by (simp add: mutex_bits_sum l)
  then show ?thesis
    using l by (simp add: MCF_mutex_unlock_def unlock_mask mutex_of_bits_inverse Let_def)
qed (simp add: MCF_mutex_unlock_def)

text \<open>The inline fast paths, which compute on the raw word, agree with the slow paths.
  \<open>_MCF_mutex_lock\<close> builds the same word as the branch of \<open>_MCF_mutex_lock_slow\<close> for an
  unlocked mutex (lock bit set, failure counter decremented with saturation).
  \<open>_MCF_mutex_unlock\<close> does what \<open>_MCF_mutex_unlock_slow\<close> does when nobody spins or sleeps,
  takes that path in no other case, and both stop at their assertion on an unlocked mutex.\<close>

theorem mutex_fast_paths:
  "MCF_mutex_lock w = (case mutex_try zero_timeout w of SwapGive w' r \<Rightarrow> FSwap w' r | _ \<Rightarrow> FSlow)
 \<and> MCF_mutex_unlock w =
     (case mutex_unlock_try w of
        SBroken \<Rightarrow> FFault
      | SGive r \<Rightarrow> FGive r
      | SSwap w' n r \<Rightarrow> if mtx_sp_mask w = 0 \<and> n = 0 then FSwap w' r else FSlow)"
  using one_bit_cases[of "mtx_locked w"]
  by (auto simp: mutex_lock_fast mutex_unlock_fast mutex_try_def mutex_unlock_try_def Let_def)

section \<open>The laws\<close>

lemmas mutex_defs = mutex_object_def MCF_mutex_lock_slow_def MCF_mutex_unlock_slow_def
  mutex_try_def mutex_leave_def mutex_unlock_try_def mutex_taken_def mutex_asleep_def
  mutex_slotted_def mutex_lock_fast mutex_unlock_fast

lemmas mutex_book_defs = mutex_book_def mutex_hold_def mutex_free_def mutex_max_threads_def

lemma spin_step_env: "spin_step mtx quantum e m nt x = Some y \<Longrightarrow> e \<noteq> Wake \<and> e \<noteq> Rel"
  by (cases x; cases e; cases y) (auto split: option.splits if_splits simp: cas_iff)

lemma spin_step_books:
  assumes "spin_step mtx quantum e m nt x = Some (m', pc)"
    and room: "k = Mutex_sleepers \<Longrightarrow> mutex_book k (fst m) < int mutex_max_threads"
  shows "mutex_book k (fst m') - mutex_book k (fst m)
       = mutex_hold k (wait_client (\<lambda>_ r. r = 0) False pc) + mutex_weight k * waiting (\<lambda>_. 0) pc"
  using assms
  by (cases x; cases k)
    (auto simp: mutex_defs mutex_book_defs cas_iff word_facts split: option.splits if_splits env.splits)

lemma spin_step_locked:
  "spin_step mtx quantum e m nt x = Some (m', pc) \<Longrightarrow> mutex_free (fst m') \<Longrightarrow> fst m' = fst m"
  by (cases x) (auto simp: mutex_defs mutex_book_defs cas_iff split: option.splits if_splits env.splits)

interpretation mutex: baton "mutex_object mtx quantum" mutex_book mutex_hold mutex_weight mutex_weight
  "\<lambda>_. 0" "\<lambda>k. k = Mutex_holder" "\<lambda>k. k = Mutex_sleepers" "\<lambda>_. True" mutex_max_threads Mutex_sleepers mutex_free
  for mtx quantum
proof (unfold_locales, goal_cases)
  case (13 c a m e nt x m' pc k)
  then show ?case
    using spin_step_books[of mtx quantum e m nt x m' pc k]
    by (simp add: mutex_defs mutex_hold_def split: mutex_ledger.splits)
qed (auto simp: mutex_defs mutex_book_defs word_facts Let_def spin_step_env
      split: if_splits mutex_ledger.splits dest: spin_step_locked)

section \<open>Threads that share one mutex\<close>

type_synonym mutex_thread = "(MCF_mutex, spin, bool, unit, unit) thread"

definition mutex_begin :: "nat \<Rightarrow> spin_field \<Rightarrow> (MCF_mutex \<times> spin_field, mutex_thread) sys" where
  "mutex_begin n field = \<lparr>mem = (MCF_mutex_init, field), thr = replicate n (Idle False)\<rparr>"

definition holds_mutex :: "mutex_thread \<Rightarrow> bool" where
  "holds_mutex t = client (mutex_object 0 0) t"

lemma holds_mutex_client: "client (mutex_object mtx quantum) t = holds_mutex t"
proof -
  have w: "wait_client (\<lambda>_ r. r = (0 :: int)) c pc = wait_client (\<lambda>_ r. r = 0) c pc" for c pc
    by simp
  show ?thesis by (cases t) (auto simp: holds_mutex_def mutex_object_def)
qed

lemma mutex_begin_start:
  assumes "n < 2 ^ 55"
  shows "mutex.start mtx quantum (mutex_begin n field)"
  unfolding mutex.start_def mutex.consistent_def
  using assms
  by (auto simp: mutex.share_def mutex_begin_def mutex_book_defs MCF_mutex_init_def total_def
      sum_list_replicate)

lemma mutex_inv:
  "reach K (thread_step (mutex_object mtx quantum)) (mutex_begin n field) s \<Longrightarrow> n < 2 ^ 55 \<Longrightarrow>
    mutex.inv mtx quantum K s"
  by (rule mutex.reach_inv[OF _ mutex_begin_start])

text \<open>
  Thread 0 locks through the fast path, threads 1 to 4 take the four spinning slots and
  thread 5, for which none is left, goes to sleep.
\<close>

definition mutex_contended :: "(unit, unit) input move list" where
  "mutex_contended =
     steps 0 [CallWait True () None, Act Step, Act Step, Leave] @
     concat (map (\<lambda>i. steps i [CallWait False () None, Act (Clock 0), Act Step, Act Step]) [1, 2, 3, 4, 5]) @
     [Local 5 (Act (Sys False 0))]"

lemma mutex_one_holder:
  assumes "reach K (thread_step (mutex_object mtx quantum)) (mutex_begin n field) s"
    and "n < 2 ^ 55" and "i < n" and "j < n" and "holds_mutex (thr s ! i)" "holds_mutex (thr s ! j)"
  shows "i = j"
proof -
  have len: "length (thr s) = n" using reach_length[OF assms(1)] by (simp add: mutex_begin_def)
  have "uint (mtx_locked (fst (mem s))) \<le> 1" by (simp add: word_facts)
  then show ?thesis
    using mutex.exclusive[OF mutex_inv[OF assms(1,2)], of Mutex_holder i j] assms(3-6) len
    by (simp add: mutex_book_defs holds_mutex_client)
qed

text \<open>C1. Mutual exclusion: whatever the scheduler, spurious compare-and-swap failures,
  the spin field and the kernel's keyed events do, at most one thread is between a
  \<open>_MCF_mutex_lock\<close> that returned 0 and its \<open>_MCF_mutex_unlock\<close>; and while one is, the lock
  bit is set.\<close>

theorem mutex_mutual_exclusion:
  assumes "reach K (thread_step (mutex_object mtx quantum)) (mutex_begin n field) s"
    and "n < 2 ^ 55" and "i < n" and "j < n" and "i \<noteq> j" and "holds_mutex (thr s ! i)"
  shows "\<not> holds_mutex (thr s ! j) \<and> mtx_locked (fst (mem s)) = 1"
proof -
  note inv = mutex_inv[OF assms(1,2)]
  have len: "length (thr s) = n" using reach_length[OF assms(1)] by (simp add: mutex_begin_def)
  note one = mutex_one_holder[OF assms(1-4,6)]
  have "mutex_hold Mutex_holder (holds_mutex (thr s ! i)) \<le> mutex_book Mutex_holder (fst (mem s))"
    using mutex.owned_accounts[OF inv, of Mutex_holder] assms(3) len
      total_member_le[of "thr s ! i" s "\<lambda>t. mutex_hold Mutex_holder (holds_mutex t)"]
    by (simp add: holds_mutex_client mutex_hold_def)
  then have "mtx_locked (fst (mem s)) \<noteq> 0"
    using assms(6) by (auto simp: mutex_book_defs)
  with one show ?thesis using assms(5) one_bit_cases by auto
qed

lemma mutex_mutual_exclusion_witness:
  "case moves any_kernel (thread_step (mutex_object 0x7FF612345678 3))
       mutex_contended (mutex_begin 6 (replicate 2048 0)) of
     None \<Rightarrow> False
   | Some s \<Rightarrow> \<not> holds_mutex (thr s ! 1) \<and> mtx_locked (fst (mem s)) = 1"
  by (rule moves_witness[where H = "\<lambda>s. holds_mutex (thr s ! 0)"], code_simp)
    (rule mutex_mutual_exclusion[where n = 6 and i = 0 and j = 1], simp_all)

text \<open>C2. No thread is left asleep on an unlocked mutex: if the mutex is unlocked and a
  thread is registered as a sleeper, then some thread owes a wake-up or is awake and about
  to try to lock. No assertion of \<open>_MCF_mutex_unlock\<close> fails, and the sleeping count of the
  word is always the number of registered sleepers less the wake-ups that are owed.\<close>

theorem mutex_no_sleeper_left:
  assumes "reach K (thread_step (mutex_object mtx quantum)) (mutex_begin n field) s"
    and "n < 2 ^ 55" and "keyed_event_contract K"
  shows "(mtx_locked (fst (mem s)) = 0 \<longrightarrow> (\<exists>t \<in> set (thr s). asleep (\<lambda>_. 0) t = 1) \<longrightarrow>
            (\<exists>t \<in> set (thr s). bat mutex_free t))
       \<and> (\<forall>t \<in> set (thr s). \<not> faulted t)
       \<and> uint (mtx_nsleep (fst (mem s))) = total (asleep (\<lambda>_. 0)) s - total owes s"
proof (intro conjI impI)
  note inv = mutex_inv[OF assms(1,2)]
  show "\<exists>t \<in> set (thr s). bat mutex_free t"
    if "mtx_locked (fst (mem s)) = 0" "\<exists>t \<in> set (thr s). asleep (\<lambda>_. 0) t = 1"
    using that mutex.someone_awake[OF assms(1) mutex_begin_start[OF assms(2)] assms(3)]
    by (auto simp: mutex_free_def)
  show "\<forall>t \<in> set (thr s). \<not> faulted t" using mutex.not_faulted[OF inv] by blast
  show "uint (mtx_nsleep (fst (mem s))) = total (asleep (\<lambda>_. 0)) s - total owes s"
    using mutex.sleepers_accounts[OF inv assms(3)] by (simp add: mutex_book_defs)
qed

lemma mutex_no_sleeper_left_witness:
  "case moves documented_kernel (thread_step (mutex_object 0x7FF612345678 1))
       (mutex_contended @ [Local 0 (CallSignal True ())] @ steps 0 (replicate 5 (Act Step)))
       (mutex_begin 6 (replicate 2048 0)) of
     None \<Rightarrow> False
   | Some s \<Rightarrow> \<exists>t \<in> set (thr s). bat mutex_free t"
  by (rule moves_witness[where H = "\<lambda>s. mtx_locked (fst (mem s)) = 0 \<and>
      (\<exists>t \<in> set (thr s). asleep (\<lambda>_. 0) t = 1)"], code_simp)
    (use mutex_no_sleeper_left[where n = 6 and K = documented_kernel] documented_kernel_contract in force)

section \<open>One call\<close>

lemma mutex_ext_forever:
  "w_ext (MCF_mutex_lock_slow mtx quantum) e m timeout_infinite x = Some (m', pc') \<Longrightarrow>
    unexpired pc' \<and> (\<forall>r. pc' = WRet r \<longrightarrow> r = 0 \<and> mtx_locked (fst m') = 1)"
  by (cases x) (auto simp: mutex_defs cas_iff split: option.splits if_splits env.splits)

lemma mutex_forever_step:
  assumes "wait_step (MCF_mutex_lock_slow mtx quantum) e m pc = Some (m', pc')" "unexpired pc" "w_returned pc = None"
  shows "unexpired pc' \<and> (\<forall>r. pc' = WRet r \<longrightarrow> r = 0 \<and> mtx_locked (fst m') = 1)"
proof (rule wait_step_forever[OF assms(1,2), where Q = "\<lambda>r m. r = 0 \<and> mtx_locked (fst m) = 1"])
  show "unexpired pc' \<and> (\<forall>r. pc' = WRet r \<longrightarrow> r = 0 \<and> mtx_locked (fst m') = 1)"
    if "w_ext (MCF_mutex_lock_slow mtx quantum) e m timeout_infinite x = Some (m', pc')" for e m x m' pc'
    using that by (rule mutex_ext_forever)
qed (auto simp: mutex_defs split: if_splits)

text \<open>\<open>_MCF_mutex_lock\<close> without a timeout returns 0 only, and at that moment the lock bit
  is set, under any interference of other threads; with a zero timeout, undisturbed, it
  takes an unlocked mutex and returns -1 on a locked one, never waiting or spinning.\<close>

lemma mutex_lock_results:
  "(run_wait (MCF_mutex_lock_slow mtx quantum) sch m (WFast None) = Some (r, m', sch') \<longrightarrow>
      r = 0 \<and> mtx_locked (fst m') = 1)
 \<and> result (run_wait (MCF_mutex_lock_slow mtx quantum) (alone [Step, Step, Clock now, Step, Step])
      (w, field) (WFast (Some 0)))
   = Some (if mtx_locked w = 0 then (0, mutex_taken w (mtx_sp_mask w)) else (- 1, w))"
proof
  show "run_wait (MCF_mutex_lock_slow mtx quantum) sch m (WFast None) = Some (r, m', sch') \<longrightarrow>
      r = 0 \<and> mtx_locked (fst m') = 1"
  proof
    assume run: "run_wait (MCF_mutex_lock_slow mtx quantum) sch m (WFast None) = Some (r, m', sch')"
    show "r = 0 \<and> mtx_locked (fst m') = 1"
    proof (rule run_wait_forever[OF run, where Q = "\<lambda>r m. r = 0 \<and> mtx_locked (fst m) = 1"])
      show "unexpired pc' \<and> (\<forall>r. pc' = WRet r \<longrightarrow> r = 0 \<and> mtx_locked (fst m') = 1)"
        if "w_ext (MCF_mutex_lock_slow mtx quantum) e m timeout_infinite x = Some (m', pc')" for e m x m' pc'
        using that by (rule mutex_ext_forever)
    qed (auto simp: mutex_defs split: if_splits)
  qed
  show "result (run_wait (MCF_mutex_lock_slow mtx quantum) (alone [Step, Step, Clock now, Step, Step])
      (w, field) (WFast (Some 0)))
   = Some (if mtx_locked w = 0 then (0, mutex_taken w (mtx_sp_mask w)) else (- 1, w))"
    by (simp add: MCF_mutex_lock_slow_def mutex_lock_fast mutex_try_def)
qed

lemma mutex_lock_results_witness:
  "case run_wait (MCF_mutex_lock_slow 0x1000 1) (alone [Step, Step]) (MCF_mutex_init, []) (WFast None) of
     None \<Rightarrow> False
   | Some (r, m', _) \<Rightarrow> r = 0 \<and> mtx_locked (fst m') = 1"
  by (rule result_witness, code_simp) (rule mutex_lock_results[THEN conjunct1, rule_format])

definition slot_of :: "4 word \<Rightarrow> nat" where
  "slot_of slots = length (takeWhile (\<lambda>k. \<not> bit slots k) [0..<4])"

lemma word4_all: "(\<forall>n \<in> set [0..<16]. P (word_of_nat n)) \<Longrightarrow> P (x :: 4 word)"
proof -
  assume a: "\<forall>n \<in> set [0..<16]. P (word_of_nat n)"
  have "unat x < 16" using unat_less_bound[of x] by simp
  then have "unat x \<in> set [0..<16]" by simp
  then have "P (word_of_nat (unat x))" using a by blast
  then show "P x" by simp
qed

lemma bit_scan_slot:
  "slots \<noteq> 0 \<longrightarrow> bit_scan_forward_32 (ucast slots) = Some (slot_of slots) \<and> slot_of slots < 4
     \<and> bit slots (slot_of slots)"
  by (rule word4_all) code_simp

lemma spare_slot_lowest:
  "slots \<noteq> 0xF \<longrightarrow> spare_slot slots = 2 ^ slot_of (NOT slots) \<and> \<not> bit slots (slot_of (NOT slots))
     \<and> slot_of (NOT slots) < 4 \<and> with_slot slots (spare_slot slots) = set_bit (slot_of (NOT slots)) slots"
  by (rule word4_all) code_simp

lemma spin_base_bound: "unat (x div 0x200000 :: u32) < 2048"
proof -
  have "unat x < 2 ^ 32" using unat_less_bound[of x] by simp
  then show ?thesis by (simp add: unat_div)
qed

text \<open>C9. The spinning slots. A mutex with a free slot yields exactly one, the lowest, and
  allocating it sets that bit only. For every address and every set of allocated slots the
  assertions of \<open>do_spin_byte_ptr\<close> hold, the index lies inside \<open>mutex_spin_field\<close>, and two
  different slots of a mutex are polled at different bytes. The failure counter moves by
  one and stays between 0 and 15.\<close>

theorem mutex_spin_slots:
  "(slots \<noteq> 0xF \<longrightarrow> (\<exists>k < 4. spare_slot slots = 2 ^ k \<and> \<not> bit slots k
       \<and> with_slot slots (spare_slot slots) = set_bit k slots))
 \<and> (slots \<noteq> 0 \<longrightarrow> (\<exists>i < 2048. do_spin_byte_ptr mtx (ucast slots) = Some i))
 \<and> (a < 4 \<longrightarrow> b < 4 \<longrightarrow> a \<noteq> b \<longrightarrow> do_spin_byte_ptr mtx (2 ^ a) \<noteq> do_spin_byte_ptr mtx (2 ^ b))
 \<and> unat (sp_nfail_after n (- 1)) = unat n - 1 \<and> unat (sp_nfail_after n 1) = min 15 (unat n + 1)"
proof (intro conjI impI)
  show "\<exists>k < 4. spare_slot slots = 2 ^ k \<and> \<not> bit slots k \<and> with_slot slots (spare_slot slots) = set_bit k slots"
    if "slots \<noteq> 0xF"
    using that spare_slot_lowest[of slots] by blast
  let ?base = "unat (ucast (mtx div 8 * 0x9E3779B9) div 0x200000 :: u32)"
  have base: "?base < 2048" by (rule spin_base_bound)
  show "\<exists>i < 2048. do_spin_byte_ptr mtx (ucast slots) = Some i" if "slots \<noteq> 0"
    using that bit_scan_slot[of slots] base by (simp add: do_spin_byte_ptr_def Let_def)
  have scan: "bit_scan_forward_32 (2 ^ k) = Some k" if "k < 4" for k
  proof -
    have "\<forall>k \<in> set [0..<4]. bit_scan_forward_32 (2 ^ k) = Some k" by code_simp
    then show ?thesis using that by simp
  qed
  have ptr: "do_spin_byte_ptr mtx (2 ^ k) = Some ((?base + k * 512) mod 2048)" if "k < 4" for k
    using that base scan[OF that] by (simp add: do_spin_byte_ptr_def Let_def)
  show "do_spin_byte_ptr mtx (2 ^ a) \<noteq> do_spin_byte_ptr mtx (2 ^ b)" if "a < 4" "b < 4" "a \<noteq> b"
  proof -
    have "(?base + a * 512) mod 2048 \<noteq> (?base + b * 512) mod 2048"
    proof -
      have "(?base + x) mod 2048 = (if ?base + x < 2048 then ?base + x else ?base + x - 2048)"
        if "x < 2048" for x
        using base that by (simp add: mod_if)
      from this[of "a * 512"] this[of "b * 512"] show ?thesis
        using that base by (simp split: if_splits)
    qed
    then show ?thesis using that by (simp add: ptr)
  qed
  show "unat (sp_nfail_after n (- 1)) = unat n - 1" "unat (sp_nfail_after n 1) = min 15 (unat n + 1)"
    using word4_cases[of n] by (auto simp: sp_nfail_after_saturates)
qed

lemma mutex_spin_slots_witness:
  "(\<exists>i < 2048. do_spin_byte_ptr 0x7FF612345678 (ucast (5 :: 4 word)) = Some i)
 \<and> do_spin_byte_ptr 0x7FF612345678 (2 ^ 0) \<noteq> do_spin_byte_ptr 0x7FF612345678 (2 ^ 2)"
  using mutex_spin_slots[where slots = 5 and mtx = "0x7FF612345678" and a = 0 and b = 2] by simp

end
