(* ===== verification/Mcf_Once.thy ===== *)
theory Mcf_Once
  imports Keyed_Event_Laws
begin

text \<open>
  Once-initialisation flags: \<open>mcfgthread/once.h\<close> and \<open>mcfgthread/src/once.c\<close>. The
  waiting function is \<open>_MCF_once_wait\<close>, the signalling functions are \<open>_MCF_once_abort\<close>
  and \<open>_MCF_once_release\<close>; a client is initialising after a wait that returned 1 until
  it calls one of the two.

  The books of the flag are the initialiser, the completed initialisations and the
  sleepers. They give: one thread initialises at a time, initialisation completes at
  most once and never starts again after that, no assertion fails, and no thread
  sleeps on a flag that is neither locked nor ready unless another one is awake for it.
\<close>

section \<open>The flag and its operations\<close>

record MCF_once =
  once_ready :: u8
  once_locked :: "1 word"
  once_nsleep :: "55 word"

definition MCF_once_init :: MCF_once where
  "MCF_once_init = \<lparr>once_ready = 0, once_locked = 0, once_nsleep = 0\<rparr>"

definition once_bits :: "MCF_once \<Rightarrow> uptr" where
  "once_bits w = ucast (once_ready w) OR push_bit 8 (ucast (once_locked w))
     OR push_bit 9 (ucast (once_nsleep w))"

definition MCF_once_wait :: "MCF_once \<Rightarrow> MCF_once fact" where
  "MCF_once_wait w = (if once_bits w AND 1 \<noteq> 0 then FGive 0 else FSlow)"

text \<open>The loop at \<open>try_lock_loop\<close>, for the word in \<open>old\<close>.\<close>

definition once_try :: "bool \<Rightarrow> MCF_once \<Rightarrow> (MCF_once, unit) wact" where
  "once_try zero_timeout old =
     (if once_ready old \<noteq> 0 then Give 0
      else if once_locked old = 0 then
        SwapGive \<lparr>once_ready = 0, once_locked = 1, once_nsleep = once_nsleep old\<rparr> 1
      else if zero_timeout then Give (- 1)
      else SwapSleep \<lparr>once_ready = 0, once_locked = 1, once_nsleep = once_nsleep old + 1\<rparr>)"

text \<open>The loop that takes a sleeping count back after a timeout.\<close>

definition once_leave :: "MCF_once \<Rightarrow> (MCF_once \<times> int) option" where
  "once_leave old =
     (if once_nsleep old = 0 then None
      else Some (old\<lparr>once_nsleep := once_nsleep old - 1\<rparr>, uint (once_ready old) - 1))"

definition MCF_once_wait_slow :: "(MCF_once, unit, unit) wait_ops" where
  "MCF_once_wait_slow =
     \<lparr>w_fast = MCF_once_wait, w_try = once_try, w_ext = (\<lambda>_ _ _ _. None),
      w_leave = once_leave, w_retry = True\<rparr>"

definition once_asserts :: "MCF_once \<Rightarrow> entry" where
  "once_asserts w = (if once_ready w = 0 \<and> once_locked w = 1 then Go else Broken)"

definition MCF_once_abort :: "(MCF_once, unit) sig_ops" where
  "MCF_once_abort =
     \<lparr>s_fast = (\<lambda>_. FSlow), s_entry = once_asserts,
      s_try = (\<lambda>old. let wake_one = of_bool (once_nsleep old \<noteq> 0) in
         SSwap \<lparr>once_ready = once_ready old, once_locked = 0,
                once_nsleep = once_nsleep old - wake_one\<rparr>
           (unat wake_one) 0),
      s_xchg = None, s_post = (\<lambda>_ f. f)\<rparr>"

definition MCF_once_release :: "(MCF_once, unit) sig_ops" where
  "MCF_once_release =
     \<lparr>s_fast = (\<lambda>_. FSlow), s_entry = once_asserts, s_try = (\<lambda>_. SBroken),
      s_xchg = Some (\<lparr>once_ready = 1, once_locked = 0, once_nsleep = 0\<rparr>,
                     \<lambda>old. unat (once_nsleep old), 0),
      s_post = (\<lambda>_ f. f)\<rparr>"

section \<open>Clients\<close>

record once_client =
  initialising :: bool
  completions :: nat

datatype once_signal = Abort | Release

definition once_object :: "(MCF_once, unit, unit, once_client, unit, once_signal) object" where
  "once_object =
     \<lparr>o_wait = (\<lambda>_. MCF_once_wait_slow),
      o_sig = (\<lambda>b. case b of Abort \<Rightarrow> MCF_once_abort | Release \<Rightarrow> MCF_once_release),
      o_may_wait = (\<lambda>c _. \<not> initialising c),
      o_waited = (\<lambda>c _ r. if r = 1 then c\<lparr>initialising := True\<rparr> else c),
      o_may_signal = (\<lambda>c _. initialising c),
      o_signalled = (\<lambda>c b _. case b of
          Abort \<Rightarrow> c\<lparr>initialising := False\<rparr>
        | Release \<Rightarrow> c\<lparr>initialising := False, completions := completions c + 1\<rparr>)\<rparr>"

section \<open>Books\<close>

datatype once_ledger = Initialiser | Completed | Once_sleepers

definition once_book :: "once_ledger \<Rightarrow> MCF_once \<Rightarrow> int" where
  "once_book k w = (case k of
      Initialiser \<Rightarrow> uint (once_locked w)
    | Completed \<Rightarrow> of_bool (once_ready w \<noteq> 0)
    | Once_sleepers \<Rightarrow> uint (once_nsleep w))"

definition once_hold :: "once_ledger \<Rightarrow> once_client \<Rightarrow> int" where
  "once_hold k c = (case k of
      Initialiser \<Rightarrow> of_bool (initialising c)
    | Completed \<Rightarrow> int (completions c)
    | Once_sleepers \<Rightarrow> 0)"

definition once_good :: "MCF_once \<Rightarrow> bool" where
  "once_good w \<longleftrightarrow> once_ready w = 0 \<or> once_ready w = 1 \<and> once_locked w = 0 \<and> once_nsleep w = 0"

definition once_free :: "MCF_once \<Rightarrow> bool" where
  "once_free w \<longleftrightarrow> once_ready w = 0 \<and> once_locked w = 0"

abbreviation once_weight :: "once_ledger \<Rightarrow> int" where
  "once_weight k \<equiv> of_bool (k = Once_sleepers)"

definition once_max_threads :: nat where
  "once_max_threads = 2 ^ 55 - 1"

lemmas once_ops_defs = once_object_def MCF_once_wait_slow_def MCF_once_abort_def
  MCF_once_release_def MCF_once_wait_def once_try_def once_leave_def once_asserts_def

lemmas once_book_defs = once_book_def once_hold_def once_good_def once_free_def
  once_max_threads_def

lemma all_once_ledger [simp]: "(\<forall>k. P k) \<longleftrightarrow> P Initialiser \<and> P Completed \<and> P Once_sleepers"
  by (metis once_ledger.exhaust)

interpretation once: baton once_object once_book once_hold once_weight once_weight "\<lambda>_. 0"
  "\<lambda>k. k \<noteq> Once_sleepers" "\<lambda>k. k = Once_sleepers" once_good once_max_threads Once_sleepers once_free
  by unfold_locales (auto simp: once_ops_defs once_book_defs word_facts Let_def
      split: if_splits once_ledger.splits once_signal.splits)

section \<open>Threads that share one flag\<close>

definition once_begin :: "nat \<Rightarrow>
    (MCF_once \<times> unit, (MCF_once, unit, once_client, unit, once_signal) thread) sys" where
  "once_begin n = \<lparr>mem = (MCF_once_init, ()),
     thr = replicate n (Idle \<lparr>initialising = False, completions = 0\<rparr>)\<rparr>"

lemma once_begin_start:
  assumes "n < 2 ^ 55"
  shows "once.start (once_begin n)"
  unfolding once.start_def once.consistent_def
  using assms
  by (auto simp: once.share_def once_begin_def once_book_defs
      MCF_once_init_def total_def sum_list_replicate split: once_ledger.splits)

lemma once_inv: "reach K (thread_step once_object) (once_begin n) s \<Longrightarrow> n < 2 ^ 55 \<Longrightarrow> once.inv K s"
  by (rule once.reach_inv[OF _ once_begin_start])

lemma once_inv_good: "once.inv K s \<Longrightarrow> once_good (fst (mem s))"
  by (simp add: once.inv_def)

text \<open>Thread 0 becomes the initialiser through the slow path; thread 1 registers as a sleeper.\<close>

definition once_contended :: "(unit, once_signal) input move list" where
  "once_contended =
     steps 0 [CallWait True () None, Act Step, Act Step, Act (Clock 0), Act Step, Act Step, Leave] @
     steps 1 [CallWait True () None, Act Step, Act Step, Act (Clock 0), Act Step, Act Step,
              Act (Sys False 0)]"

text \<open>C4. At most one thread at a time is initialising: whatever the scheduler, the weak
  compare-and-swaps and even the kernel's keyed events do, two threads are never both
  between a \<open>_MCF_once_wait\<close> that returned 1 and their abort or release.\<close>

theorem once_one_initialiser:
  assumes "reach K (thread_step once_object) (once_begin n) s" and "n < 2 ^ 55"
    and "i < n" and "j < n" and "i \<noteq> j"
    and "initialising (client once_object (thr s ! i))"
  shows "\<not> initialising (client once_object (thr s ! j))"
proof
  assume "initialising (client once_object (thr s ! j))"
  moreover have "uint (once_locked (fst (mem s))) \<le> 1" by (simp add: word_facts)
  moreover have "length (thr s) = n" using reach_length[OF assms(1)] by (simp add: once_begin_def)
  ultimately have "i = j"
    using once.exclusive[OF once_inv[OF assms(1,2)], of Initialiser i j] assms(3,4,6)
    by (simp add: once_book_defs)
  with assms(5) show False ..
qed

lemma once_one_initialiser_witness:
  "case moves any_kernel (thread_step once_object) once_contended (once_begin 2) of
     None \<Rightarrow> False
   | Some s \<Rightarrow> \<not> initialising (client once_object (thr s ! 1))"
  by (rule moves_witness[where H = "\<lambda>s. initialising (client once_object (thr s ! 0))"], code_simp)
    (rule once_one_initialiser[where n = 2 and i = 0 and j = 1], simp_all)

text \<open>C5. Initialisation completes at most once, the flag is ready exactly when it has, and
  from then on no thread is initialising.\<close>

theorem once_completes_once:
  assumes "reach K (thread_step once_object) (once_begin n) s" and "n < 2 ^ 55"
  shows "total (\<lambda>t. int (completions (client once_object t))) s
           = of_bool (once_ready (fst (mem s)) \<noteq> 0)
       \<and> (once_ready (fst (mem s)) \<noteq> 0 \<longrightarrow>
           (\<forall>t \<in> set (thr s). \<not> initialising (client once_object t)))"
proof
  note inv = once_inv[OF assms]
  show "total (\<lambda>t. int (completions (client once_object t))) s
      = of_bool (once_ready (fst (mem s)) \<noteq> 0)"
    using once.owned_accounts[OF inv, of Completed] by (simp add: once_book_defs)
  show "once_ready (fst (mem s)) \<noteq> 0 \<longrightarrow> (\<forall>t \<in> set (thr s). \<not> initialising (client once_object t))"
  proof (intro impI ballI)
    fix t assume r: "once_ready (fst (mem s)) \<noteq> 0" and t: "t \<in> set (thr s)"
    have "once_locked (fst (mem s)) = 0" using once_inv_good[OF inv] r by (auto simp: once_good_def)
    then have "total (\<lambda>t. once_hold Initialiser (client once_object t)) s = 0"
      using once.owned_accounts[OF inv, of Initialiser] by (simp add: once_book_def)
    then have "once_hold Initialiser (client once_object t) \<le> 0"
      using total_member_le[OF t, of "\<lambda>t. once_hold Initialiser (client once_object t)"]
      by (simp add: once_hold_def)
    then show "\<not> initialising (client once_object t)"
      by (cases "initialising (client once_object t)") (simp_all add: once_hold_def)
  qed
qed

lemma once_completes_once_witness:
  "case moves any_kernel (thread_step once_object)
       (once_contended @ [Local 0 (CallSignal True Release)] @ steps 0 (replicate 4 (Act Step)))
       (once_begin 2) of
     None \<Rightarrow> False
   | Some s \<Rightarrow> total (\<lambda>t. int (completions (client once_object t))) s = 1"
  by (rule moves_witness[where H = "\<lambda>s. once_ready (fst (mem s)) \<noteq> 0"], code_simp)
    (use once_completes_once[where n = 2] in auto)



section \<open>One call\<close>

text \<open>The functional behaviour of \<open>_MCF_once_wait\<close> with a zero timeout, undisturbed:
  0 on a ready flag, 1 and the lock on a fresh one, -1 on one that another thread has
  locked, and it never sleeps.\<close>

lemma once_try_wait:
  "result (run_wait MCF_once_wait_slow (alone [Step, Step, Clock now, Step, Step]) (w, ()) (WFast (Some 0)))
   = Some (if once_ready w \<noteq> 0 then (0, w)
           else if once_locked w = 0 then (1, w\<lparr>once_locked := 1\<rparr>)
           else (- 1, w))"
  by (simp add: MCF_once_wait_slow_def MCF_once_wait_def once_try_def word_facts once_bits_def bit_simps)

end
