(* ===== verification/Mcf_Shared_Mutex.thy ===== *)
theory Mcf_Shared_Mutex
  imports Keyed_Event_Laws
begin

text \<open>
  The shared mutex: \<open>mcfgthread/shared_mutex.h\<close> and \<open>mcfgthread/src/shared_mutex.c\<close>. The
  word holds the number of sharing threads (\<open>0x3FFF\<close> when it is locked exclusively) and
  the number of sleepers. The last reader and the writer wake every sleeper.

  Shown: readers and a writer exclude each other and there is at most one writer and
  at most 16382 readers, whatever the kernel does; no assertion fails; an unlocked shared
  mutex has no registered sleeper but those a wake-up is owed to; the fast paths on
  the raw word and the mask arithmetic of the unlock do what their comments say.
\<close>

section \<open>The word and its operations\<close>

record MCF_shared_mutex =
  smtx_nshare :: "14 word"
  smtx_nsleep :: "50 word"

definition MCF_shared_mutex_init :: MCF_shared_mutex where
  "MCF_shared_mutex_init = \<lparr>smtx_nshare = 0, smtx_nsleep = 0\<rparr>"

definition shared_mutex_bits :: "MCF_shared_mutex \<Rightarrow> uptr" where
  "shared_mutex_bits w = ucast (smtx_nshare w) + 0x4000 * ucast (smtx_nsleep w)"

definition shared_mutex_of_bits :: "uptr \<Rightarrow> MCF_shared_mutex" where
  "shared_mutex_of_bits b = \<lparr>smtx_nshare = ucast b, smtx_nsleep = ucast (drop_bit 14 b)\<rparr>"

abbreviation MCF_SHARED_MUTEX_MAX_SHARE :: "'a::len word" where
  "MCF_SHARED_MUTEX_MAX_SHARE \<equiv> 16382"

definition MCF_shared_mutex_lock_shared :: "MCF_shared_mutex \<Rightarrow> MCF_shared_mutex fact" where
  "MCF_shared_mutex_lock_shared w =
     (let old_bits = shared_mutex_bits w in
      if old_bits < MCF_SHARED_MUTEX_MAX_SHARE then FSwap (shared_mutex_of_bits (old_bits + 1)) 0
      else FSlow)"

definition MCF_shared_mutex_lock_exclusive :: "MCF_shared_mutex \<Rightarrow> MCF_shared_mutex fact" where
  "MCF_shared_mutex_lock_exclusive w =
     (let old_bits = shared_mutex_bits w in
      if old_bits AND 0x3FFF = 0 then FSwap (shared_mutex_of_bits (old_bits + 0x3FFF)) 0
      else FSlow)"

definition MCF_shared_mutex_unlock :: "MCF_shared_mutex \<Rightarrow> MCF_shared_mutex fact" where
  "MCF_shared_mutex_unlock w =
     (let old_bits = shared_mutex_bits w in
      if old_bits AND 0x3FFF = 0 then FFault
      else if old_bits \<le> 0x3FFF then
        FSwap (shared_mutex_of_bits
          ((old_bits - 1) AND ucast (drop_bit 14 ((ucast old_bits :: u32) - 0x3FFF)))) 0
      else FSlow)"

definition shared_try :: "bool \<Rightarrow> bool \<Rightarrow> MCF_shared_mutex \<Rightarrow> (MCF_shared_mutex, unit) wact" where
  "shared_try shared zero_timeout old =
     (if shared \<and> smtx_nshare old < MCF_SHARED_MUTEX_MAX_SHARE \<and> smtx_nsleep old = 0 then
        SwapGive (old\<lparr>smtx_nshare := smtx_nshare old + 1\<rparr>) 0
      else if \<not> shared \<and> smtx_nshare old = 0 then
        SwapGive (old\<lparr>smtx_nshare := 0x3FFF\<rparr>) 0
      else if zero_timeout then Give (- 1)
      else SwapSleep (old\<lparr>smtx_nsleep := smtx_nsleep old + 1\<rparr>))"

definition shared_leave :: "MCF_shared_mutex \<Rightarrow> (MCF_shared_mutex \<times> int) option" where
  "shared_leave old =
     (if smtx_nsleep old = 0 then None
      else Some (old\<lparr>smtx_nsleep := smtx_nsleep old - 1\<rparr>, - 1))"

definition do_lock_common :: "bool \<Rightarrow> (MCF_shared_mutex, unit, unit) wait_ops" where
  "do_lock_common shared =
     \<lparr>w_fast = (if shared then MCF_shared_mutex_lock_shared else MCF_shared_mutex_lock_exclusive),
      w_try = shared_try shared, w_ext = (\<lambda>_ _ _ _. None), w_leave = shared_leave, w_retry = True\<rparr>"

definition MCF_shared_mutex_lock_shared_slow :: "(MCF_shared_mutex, unit, unit) wait_ops" where
  "MCF_shared_mutex_lock_shared_slow = do_lock_common True"

definition MCF_shared_mutex_lock_exclusive_slow :: "(MCF_shared_mutex, unit, unit) wait_ops" where
  "MCF_shared_mutex_lock_exclusive_slow = do_lock_common False"

definition shared_unlock_try :: "MCF_shared_mutex \<Rightarrow> MCF_shared_mutex sact" where
  "shared_unlock_try old =
     (if smtx_nshare old = 0 then SBroken
      else
        (let new_nshare = ucast ((ucast (smtx_nshare old) - 1 :: u32)
               AND drop_bit 14 (ucast (smtx_nshare old) - 0x3FFF)) :: uptr;
             wake_num = ucast (smtx_nsleep old) AND drop_bit 14 (new_nshare - 1)
         in SSwap \<lparr>smtx_nshare = ucast (new_nshare AND 0x3FFF),
                   smtx_nsleep = ucast (ucast (smtx_nsleep old) - wake_num)\<rparr>
              (unat wake_num) 0))"

definition MCF_shared_mutex_unlock_slow :: "(MCF_shared_mutex, unit) sig_ops" where
  "MCF_shared_mutex_unlock_slow =
     \<lparr>s_fast = MCF_shared_mutex_unlock, s_entry = (\<lambda>_. Go), s_try = shared_unlock_try,
      s_xchg = None, s_post = (\<lambda>_ f. f)\<rparr>"

section \<open>Clients\<close>

datatype shared_client = Outside | Sharing | Exclusive

definition shared_object :: "(MCF_shared_mutex, unit, unit, shared_client, bool, unit) object" where
  "shared_object =
     \<lparr>o_wait = (\<lambda>shared. if shared then MCF_shared_mutex_lock_shared_slow
                        else MCF_shared_mutex_lock_exclusive_slow),
      o_sig = (\<lambda>_. MCF_shared_mutex_unlock_slow),
      o_may_wait = (\<lambda>c _. c = Outside),
      o_waited = (\<lambda>c shared r. if r \<noteq> 0 then c else if shared then Sharing else Exclusive),
      o_may_signal = (\<lambda>c _. c \<noteq> Outside), o_signalled = (\<lambda>_ _ _. Outside)\<rparr>"

section \<open>Words\<close>

lemma unat_shared_bits:
  "unat (shared_mutex_bits w) = unat (smtx_nshare w) + 16384 * unat (smtx_nsleep w)"
proof -
  have b: "unat (smtx_nshare w) < 16384" "unat (smtx_nsleep w) < 2 ^ 50"
    using unat_less_bound[of "smtx_nshare w"] unat_less_bound[of "smtx_nsleep w"] by simp_all
  have "unat (0x4000 * ucast (smtx_nsleep w) :: uptr) = 16384 * unat (smtx_nsleep w)"
    using b by (simp add: unat_word_ariths unsigned_ucast_eq take_bit_eq_mod)
  then show ?thesis
    using b by (simp add: shared_mutex_bits_def unat_word_ariths unsigned_ucast_eq take_bit_eq_mod)
qed

lemma shared_of_bits_unat:
  assumes "unat b = unat (smtx_nshare w) + 16384 * unat (smtx_nsleep w)"
  shows "shared_mutex_of_bits b = w"
proof -
  have b: "unat (smtx_nshare w) < 16384" "unat (smtx_nsleep w) < 2 ^ 50"
    using unat_less_bound[of "smtx_nshare w"] unat_less_bound[of "smtx_nsleep w"] by simp_all
  have "unat (ucast b :: 14 word) = unat (smtx_nshare w)"
    using b by (simp add: unsigned_ucast_eq take_bit_eq_mod assms)
  moreover have "unat (ucast (drop_bit 14 b) :: 50 word) = unat (smtx_nsleep w)"
    using b by (simp add: unsigned_ucast_eq take_bit_eq_mod assms drop_bit_eq_div unat_div)
  ultimately show ?thesis by (simp add: shared_mutex_of_bits_def word_unat_eq_iff)
qed

lemma shared_bits_low [simp]: "shared_mutex_bits w AND 0x3FFF = 0 \<longleftrightarrow> smtx_nshare w = 0"
proof -
  have m: "(0x3FFF :: uptr) = mask 14" by (simp add: mask_eq_exp_minus_1)
  have "unat (take_bit 14 (shared_mutex_bits w)) = unat (smtx_nshare w)"
    using unat_less_bound[of "smtx_nshare w"] unfolding unat_take unat_shared_bits by simp
  then show ?thesis unfolding m take_bit_eq_mask[symmetric] by (metis unat_eq_zero)
qed

lemma exclusive_mask:
  assumes "unat (x :: u32) \<le> 0x3FFF" "x \<noteq> 0"
  shows "drop_bit 14 (x - 0x3FFF) = (if x = 0x3FFF then 0 else mask 18)"
proof (cases "x = 0x3FFF")
  case False
  then have "unat x < 0x3FFF" using assms(1) by (simp add: word_unat_eq_iff)
  then have "unat (x - 0x3FFF) = 2 ^ 32 + unat x - 0x3FFF" by (simp add: unat_sub_if')
  then have "unat (drop_bit 14 (x - 0x3FFF)) = unat (mask 18 :: u32)"
    using \<open>unat x < 0x3FFF\<close> unfolding unat_drop by (simp add: mask_eq_exp_minus_1)
  with False show ?thesis by (simp add: word_unat_eq_iff)
qed simp

lemma nshare_pred:
  fixes x :: u32
  assumes "unat x \<le> 0x3FFF" "x \<noteq> 0"
  shows "(x - 1) AND drop_bit 14 (x - 0x3FFF) = (if x = 0x3FFF then 0 else x - 1)"
proof -
  have "unat (x - 1) < 2 ^ 18" using assms by (simp add: unat_minus_one)
  then show ?thesis using exclusive_mask[OF assms] by (simp add: and_mask_small)
qed

lemma wake_mask:
  fixes s :: "50 word" and n :: uptr
  assumes "unat n \<le> 0x3FFF"
  shows "ucast s AND drop_bit 14 (n - 1) = (if n = 0 then ucast s else 0 :: uptr)"
proof (cases "n = 0")
  case True
  have "drop_bit 14 (- 1 :: uptr) = mask 50" by (simp add: mask_eq_exp_minus_1)
  moreover have "unat (ucast s :: uptr) < 2 ^ 50"
    using unat_less_bound[of s] by (simp add: unsigned_ucast_eq take_bit_eq_mod)
  ultimately show ?thesis using True by (simp add: and_mask_small)
next
  case False
  then have "unat (n - 1) < 2 ^ 14" using assms by (simp add: unat_minus_one)
  then have "drop_bit 14 (n - 1) = 0" by (simp add: word_unat_eq_iff unat_drop)
  then show ?thesis using False by simp
qed

text \<open>The three mask computations, read as what their comments say.\<close>

lemma shared_unlock_cases:
  "shared_unlock_try w =
     (if smtx_nshare w = 0 then SBroken
      else if smtx_nshare w = 1 \<or> smtx_nshare w = 0x3FFF then
        SSwap \<lparr>smtx_nshare = 0, smtx_nsleep = 0\<rparr> (unat (smtx_nsleep w)) 0
      else SSwap (w\<lparr>smtx_nshare := smtx_nshare w - 1\<rparr>) 0 0)"
proof (cases "smtx_nshare w = 0")
  case False
  let ?x = "ucast (smtx_nshare w) :: u32"
  have x: "unat ?x = unat (smtx_nshare w)" by (simp add: unat_ucast_up)
  have xs: "unat ?x \<le> 0x3FFF" "?x \<noteq> 0" "?x = 0x3FFF \<longleftrightarrow> smtx_nshare w = 0x3FFF" "?x = 1 \<longleftrightarrow> smtx_nshare w = 1"
    using unat_less_bound[of "smtx_nshare w"] False x by (auto simp: word_unat_eq_iff)
  define n :: uptr where "n = ucast ((?x - 1) AND drop_bit 14 (?x - 0x3FFF))"
  have n: "unat n = (if ?x = 0x3FFF then 0 else unat ?x - 1)"
    using xs(1,2) unfolding n_def nshare_pred[OF xs(1,2)] by (simp add: unat_ucast_up unat_minus_one)
  then have n': "unat n \<le> 0x3FFF" "n = 0 \<longleftrightarrow> ?x = 0x3FFF \<or> ?x = 1"
    using xs(1,2) by (auto simp: word_unat_eq_iff)
  have "(ucast (n AND 0x3FFF) :: 14 word) = (if n = 0 then 0 else smtx_nshare w - 1)"
  proof -
    have m: "(0x3FFF :: uptr) = mask 14" by (simp add: mask_eq_exp_minus_1)
    have "n AND 0x3FFF = n" using n'(1) unfolding m by (intro and_mask_small) simp
    then have "unat (ucast (n AND 0x3FFF) :: 14 word) = unat n"
      using n'(1) by (simp add: unsigned_ucast_eq take_bit_eq_mod)
    then show ?thesis using n n'(2) x False by (auto simp: word_unat_eq_iff unat_minus_one)
  qed
  moreover have "(ucast (ucast (smtx_nsleep w) :: uptr) :: 50 word) = smtx_nsleep w"
    by (rule bit_word_eqI) (simp add: bit_simps)
  ultimately show ?thesis
    using False n' xs
    by (simp add: shared_unlock_try_def Let_def n_def[symmetric] wake_mask unat_ucast_up)
qed (simp add: shared_unlock_try_def)

lemma shared_lock_shared_fast:
  "MCF_shared_mutex_lock_shared w =
     (if smtx_nshare w < MCF_SHARED_MUTEX_MAX_SHARE \<and> smtx_nsleep w = 0
      then FSwap (w\<lparr>smtx_nshare := smtx_nshare w + 1\<rparr>) 0 else FSlow)"
proof -
  have "shared_mutex_bits w < 16382 \<longleftrightarrow> smtx_nshare w < 16382 \<and> smtx_nsleep w = 0"
    unfolding word_less_nat_alt unat_shared_bits
    by (cases "unat (smtx_nsleep w)") (auto simp: unat_eq_zero)
  moreover have "shared_mutex_of_bits (shared_mutex_bits w + 1) = w\<lparr>smtx_nshare := smtx_nshare w + 1\<rparr>"
    if "smtx_nshare w < 16382" "smtx_nsleep w = 0"
    using that
    by (intro shared_of_bits_unat) (simp add: unat_word_ariths unat_shared_bits word_less_nat_alt)
  ultimately show ?thesis by (simp add: MCF_shared_mutex_lock_shared_def Let_def)
qed

lemma shared_lock_exclusive_fast:
  "MCF_shared_mutex_lock_exclusive w =
     (if smtx_nshare w = 0 then FSwap (w\<lparr>smtx_nshare := 0x3FFF\<rparr>) 0 else FSlow)"
proof -
  have "shared_mutex_of_bits (shared_mutex_bits w + 0x3FFF) = w\<lparr>smtx_nshare := 0x3FFF\<rparr>"
    if "smtx_nshare w = 0"
    using that unat_less_bound[of "smtx_nsleep w"]
    by (intro shared_of_bits_unat) (simp add: unat_word_ariths unat_shared_bits)
  then show ?thesis by (simp add: MCF_shared_mutex_lock_exclusive_def Let_def)
qed

lemma shared_unlock_fast:
  "MCF_shared_mutex_unlock w =
     (if smtx_nshare w = 0 then FFault
      else if smtx_nsleep w = 0 then
        FSwap (w\<lparr>smtx_nshare := if smtx_nshare w = 0x3FFF then 0 else smtx_nshare w - 1\<rparr>) 0
      else FSlow)"
proof (cases "smtx_nshare w = 0")
  case False
  have le: "shared_mutex_bits w \<le> 0x3FFF \<longleftrightarrow> smtx_nsleep w = 0"
    using unat_less_bound[of "smtx_nshare w"]
    unfolding word_le_nat_alt unat_shared_bits
    by (cases "unat (smtx_nsleep w)") (auto simp: unat_eq_zero)
  {
    assume z: "smtx_nsleep w = 0"
    let ?b = "shared_mutex_bits w"
    let ?x = "ucast ?b :: u32"
    have b: "unat ?b = unat (smtx_nshare w)" by (simp add: unat_shared_bits z)
    have lt: "unat (smtx_nshare w) < 16384" using unat_less_bound[of "smtx_nshare w"] by simp
    have x: "unat ?x = unat (smtx_nshare w)"
      using lt b by (simp add: unsigned_ucast_eq take_bit_eq_mod)
    have xs: "unat ?x \<le> 0x3FFF" "?x \<noteq> 0" "?x = 0x3FFF \<longleftrightarrow> smtx_nshare w = 0x3FFF"
      using lt False x by (auto simp: word_unat_eq_iff)
    have "unat (?b - 1) < 2 ^ 18" using b lt False by (simp add: unat_minus_one word_unat_eq_iff)
    then have "(?b - 1) AND ucast (drop_bit 14 (?x - 0x3FFF))
        = (if smtx_nshare w = 0x3FFF then 0 else ?b - 1)"
      unfolding exclusive_mask[OF xs(1,2)] xs(3) by (simp add: ucast_mask_eq and_mask_small)
    moreover have "shared_mutex_of_bits (if smtx_nshare w = 0x3FFF then 0 else ?b - 1)
        = w\<lparr>smtx_nshare := if smtx_nshare w = 0x3FFF then 0 else smtx_nshare w - 1\<rparr>"
      using b False z
      by (intro shared_of_bits_unat) (auto simp: unat_minus_one word_unat_eq_iff)
    ultimately have "shared_mutex_of_bits ((?b - 1) AND ucast (drop_bit 14 (?x - 0x3FFF)))
        = w\<lparr>smtx_nshare := if smtx_nshare w = 0x3FFF then 0 else smtx_nshare w - 1\<rparr>"
      by simp
  }
  then show ?thesis using False by (simp add: MCF_shared_mutex_unlock_def le Let_def)
qed (simp add: MCF_shared_mutex_unlock_def)

text \<open>The mask arithmetic of the shared mutex. The raw-word fast paths take exactly the
  branches of the slow paths that neither wait nor wake; unlocking releases the one writer
  or one of the readers, and wakes all sleepers exactly when nobody is left inside.\<close>

theorem shared_mutex_words:
  "MCF_shared_mutex_lock_shared w = (case shared_try True False w of SwapGive w' r \<Rightarrow> FSwap w' r | _ \<Rightarrow> FSlow)
 \<and> MCF_shared_mutex_lock_exclusive w = (case shared_try False False w of SwapGive w' r \<Rightarrow> FSwap w' r | _ \<Rightarrow> FSlow)
 \<and> MCF_shared_mutex_unlock w = (case shared_unlock_try w of
       SBroken \<Rightarrow> FFault
     | SGive r \<Rightarrow> FGive r
     | SSwap w' n r \<Rightarrow> if smtx_nsleep w = 0 then FSwap w' r else FSlow)
 \<and> shared_unlock_try w =
     (if smtx_nshare w = 0 then SBroken
      else if smtx_nshare w = 1 \<or> smtx_nshare w = 0x3FFF then
        SSwap \<lparr>smtx_nshare = 0, smtx_nsleep = 0\<rparr> (unat (smtx_nsleep w)) 0
      else SSwap (w\<lparr>smtx_nshare := smtx_nshare w - 1\<rparr>) 0 0)"
  by (cases w) (simp add: shared_lock_shared_fast shared_lock_exclusive_fast shared_unlock_fast
      shared_unlock_cases shared_try_def)

section \<open>Books\<close>

datatype shared_ledger = Sharers | Writer | Shared_sleepers

definition shared_book :: "shared_ledger \<Rightarrow> MCF_shared_mutex \<Rightarrow> int" where
  "shared_book k w = (case k of
      Sharers \<Rightarrow> if smtx_nshare w = 0x3FFF then 0 else uint (smtx_nshare w)
    | Writer \<Rightarrow> of_bool (smtx_nshare w = 0x3FFF)
    | Shared_sleepers \<Rightarrow> uint (smtx_nsleep w))"

definition shared_hold :: "shared_ledger \<Rightarrow> shared_client \<Rightarrow> int" where
  "shared_hold k c = (case k of
      Sharers \<Rightarrow> of_bool (c = Sharing)
    | Writer \<Rightarrow> of_bool (c = Exclusive)
    | Shared_sleepers \<Rightarrow> 0)"

definition shared_good :: "MCF_shared_mutex \<Rightarrow> bool" where
  "shared_good w \<longleftrightarrow> (smtx_nshare w = 0 \<longrightarrow> smtx_nsleep w = 0)"

abbreviation shared_weight :: "shared_ledger \<Rightarrow> int" where
  "shared_weight k \<equiv> of_bool (k = Shared_sleepers)"

definition shared_max_threads :: nat where
  "shared_max_threads = 2 ^ 50 - 1"

lemma all_shared_ledger [simp]: "(\<forall>k. P k) \<longleftrightarrow> P Sharers \<and> P Writer \<and> P Shared_sleepers"
  by (metis shared_ledger.exhaust)

lemmas shared_defs = shared_object_def MCF_shared_mutex_lock_shared_slow_def
  MCF_shared_mutex_lock_exclusive_slow_def MCF_shared_mutex_unlock_slow_def do_lock_common_def
  shared_lock_shared_fast shared_lock_exclusive_fast shared_unlock_fast shared_unlock_cases
  shared_try_def shared_leave_def

lemmas shared_book_defs = shared_book_def shared_hold_def shared_good_def shared_max_threads_def

lemma nshare_inc:
  "(x :: 14 word) < 16382 \<Longrightarrow> uint (x + 1) = uint x + 1 \<and> x + 1 \<noteq> 0x3FFF \<and> x + 1 \<noteq> 0 \<and> x \<noteq> 0x3FFF"
  by (auto simp: word_less_def word_uint_eq_iff uint_plus_one) (use uint_ge_0[of x] in linarith)

lemma nshare_dec:
  "(x :: 14 word) \<noteq> 0 \<Longrightarrow> uint (x - 1) = uint x - 1 \<and> x - 1 \<noteq> 0x3FFF"
  using uint_minus_one[of x] uint_lt2p[of x] by (auto simp: word_uint_eq_iff)

lemma inside_cases [simp]: "c \<noteq> Outside \<longleftrightarrow> c = Sharing \<or> c = Exclusive"
  by (cases c) auto

interpretation shared: books shared_object shared_book shared_hold shared_weight shared_weight
  "\<lambda>_. 0" "\<lambda>k. k \<noteq> Shared_sleepers" "\<lambda>k. k = Shared_sleepers" shared_good shared_max_threads Shared_sleepers
  by unfold_locales (auto simp: shared_defs shared_book_defs word_facts nshare_inc nshare_dec
      split: if_splits shared_ledger.splits)

section \<open>Threads that share one mutex\<close>

type_synonym shared_thread = "(MCF_shared_mutex, unit, shared_client, bool, unit) thread"

definition shared_begin :: "nat \<Rightarrow> (MCF_shared_mutex \<times> unit, shared_thread) sys" where
  "shared_begin n = \<lparr>mem = (MCF_shared_mutex_init, ()), thr = replicate n (Idle Outside)\<rparr>"

definition access :: "shared_thread \<Rightarrow> shared_client" where
  "access t = client shared_object t"

lemma shared_begin_start:
  assumes "n < 2 ^ 50"
  shows "shared.start (shared_begin n)"
  unfolding shared.start_def shared.consistent_def
  using assms
  by (auto simp: shared.share_def shared_begin_def shared_book_defs MCF_shared_mutex_init_def total_def
      sum_list_replicate)

lemma shared_inv:
  "reach K (thread_step shared_object) (shared_begin n) s \<Longrightarrow> n < 2 ^ 50 \<Longrightarrow> shared.inv K s"
  by (rule shared.reach_inv[OF _ shared_begin_start])

text \<open>
  Thread 0 takes shared access, thread 1 asks for exclusive access and goes to sleep; with
  it waiting, thread 2 is not let in and goes to sleep too.
\<close>

definition shared_contended :: "(bool, unit) input move list" where
  "shared_contended =
     steps 0 [CallWait True True None, Act Step, Act Step, Leave] @
     concat (map (\<lambda>i. steps i [CallWait False (i \<noteq> 1) None, Act (Clock 0), Act Step, Act Step,
       Act (Sys False 0)]) [1, 2])"

text \<open>C6. A writer excludes everybody: while a thread holds exclusive access no other thread
  has shared or exclusive access, and there are never more than 16382 readers, whatever
  the scheduler and the kernel do.\<close>

theorem shared_mutex_exclusion:
  assumes "reach K (thread_step shared_object) (shared_begin n) s" and "n < 2 ^ 50"
  shows "(\<forall>i < n. \<forall>j < n. i \<noteq> j \<longrightarrow> access (thr s ! i) = Exclusive \<longrightarrow> access (thr s ! j) = Outside)
       \<and> total (\<lambda>t. of_bool (access t = Sharing)) s \<le> 16382"
proof
  note inv = shared_inv[OF assms]
  have len: "length (thr s) = n" using reach_length[OF assms(1)] by (simp add: shared_begin_def)
  let ?w = "fst (mem s)"
  have sh: "total (\<lambda>t. of_bool (access t = Sharing)) s = shared_book Sharers ?w"
    using shared.owned_accounts[OF inv, of Sharers] by (simp add: shared_hold_def access_def)
  have wr: "total (\<lambda>t. of_bool (access t = Exclusive)) s = shared_book Writer ?w"
    using shared.owned_accounts[OF inv, of Writer] by (simp add: shared_hold_def access_def)
  show "total (\<lambda>t. of_bool (access t = Sharing)) s \<le> 16382"
    using uint_lt2p[of "smtx_nshare ?w"] by (auto simp: sh shared_book_def word_uint_eq_iff)
  show "\<forall>i < n. \<forall>j < n. i \<noteq> j \<longrightarrow> access (thr s ! i) = Exclusive \<longrightarrow> access (thr s ! j) = Outside"
  proof (intro allI impI)
    fix i j assume ij: "i < n" "j < n" "i \<noteq> j" and x: "access (thr s ! i) = Exclusive"
    have "1 \<le> shared_book Writer ?w"
      using total_member_le[of "thr s ! i" s "\<lambda>t. of_bool (access t = Exclusive) :: int"] ij len x
      by (simp add: wr)
    then have "smtx_nshare ?w = 0x3FFF"
      by (cases "smtx_nshare ?w = 0x3FFF") (simp_all add: shared_book_def)
    then have "access (thr s ! j) \<noteq> Sharing"
      using total_member_le[of "thr s ! j" s "\<lambda>t. of_bool (access t = Sharing) :: int"] ij len
      by (auto simp: sh shared_book_def)
    moreover have "access (thr s ! j) \<noteq> Exclusive"
      using shared.exclusive[OF inv, of Writer i j] ij x len
      by (auto simp: shared_book_defs access_def)
    ultimately show "access (thr s ! j) = Outside" by (cases "access (thr s ! j)") auto
  qed
qed

lemma shared_mutex_exclusion_witness:
  "case moves any_kernel (thread_step shared_object)
      (steps 1 [CallWait True False None, Act Step, Act Step, Leave]) (shared_begin 3) of
     None \<Rightarrow> False
   | Some s \<Rightarrow> access (thr s ! 0) = Outside"
  by (rule moves_witness[where H = "\<lambda>s. access (thr s ! 1) = Exclusive"], code_simp)
    (rule shared_mutex_exclusion[where n = 3 and K = any_kernel, THEN conjunct1, rule_format, of _ 1 0],
      simp_all)

text \<open>C7. An unlocked shared mutex has no sleeper that has been forgotten: if nobody holds it
  and a thread is registered as a sleeper, some thread owes it a wake-up. The sleeping
  count accounts for every sleeper and no assertion of \<open>_MCF_shared_mutex_unlock\<close> fails.\<close>

theorem shared_mutex_no_sleeper_left:
  assumes "reach K (thread_step shared_object) (shared_begin n) s" and "n < 2 ^ 50"
    and "keyed_event_contract K"
  shows "(smtx_nshare (fst (mem s)) = 0 \<longrightarrow> (\<exists>t \<in> set (thr s). asleep (\<lambda>_. 0) t = 1) \<longrightarrow>
            (\<exists>t \<in> set (thr s). 0 < owes t))
       \<and> uint (smtx_nsleep (fst (mem s))) = total (asleep (\<lambda>_. 0)) s - total owes s
       \<and> (\<forall>t \<in> set (thr s). \<not> faulted t)"
proof (intro conjI impI)
  note inv = shared_inv[OF assms(1,2)]
  show "\<exists>t \<in> set (thr s). 0 < owes t"
    if "smtx_nshare (fst (mem s)) = 0" "\<exists>t \<in> set (thr s). asleep (\<lambda>_. 0) t = 1"
  proof -
    have "shared_good (fst (mem s))" using inv by (simp add: shared.inv_def)
    then have "shared_book Shared_sleepers (fst (mem s)) \<le> 0"
      using that(1) by (simp add: shared_good_def shared_book_def)
    then show ?thesis using shared.someone_owes[OF inv assms(3)] that(2) by auto
  qed
  show "uint (smtx_nsleep (fst (mem s))) = total (asleep (\<lambda>_. 0)) s - total owes s"
    using shared.sleepers_accounts[OF inv assms(3)] by (simp add: shared_book_def)
  show "\<forall>t \<in> set (thr s). \<not> faulted t" using shared.not_faulted[OF inv] by blast
qed

lemma shared_mutex_no_sleeper_left_witness:
  "case moves documented_kernel (thread_step shared_object)
       (shared_contended @ [Local 0 (CallSignal True ())] @ steps 0 (replicate 6 (Act Step)))
       (shared_begin 3) of
     None \<Rightarrow> False
   | Some s \<Rightarrow> \<exists>t \<in> set (thr s). 0 < owes t"
  by (rule moves_witness[where H = "\<lambda>s. smtx_nshare (fst (mem s)) = 0 \<and>
      (\<exists>t \<in> set (thr s). asleep (\<lambda>_. 0) t = 1)"], code_simp)
    (use shared_mutex_no_sleeper_left[where n = 3 and K = documented_kernel] documented_kernel_contract in force)

end
