(* ===== verification/Mcf_Sem.thy ===== *)
theory Mcf_Sem
  imports Keyed_Event_Laws
begin

text \<open>
  The semaphore: \<open>mcfgthread/sem.h\<close> and \<open>mcfgthread/src/sem.c\<close>. Its word is one signed
  64-bit value; a negative one counts the sleepers. A waiter takes its unit when it
  registers, so it does not go back to the loop after a wake-up, and takes the
  registration back when it times out.

  Shown: every unit that was put in is in the value, has been acquired, or is owed to a
  sleeper, so a semaphore never admits more waiters than units were posted; no thread
  sleeps on a positive value unless it is owed a wake-up; \<open>_MCF_sem_signal_some\<close> keeps its
  error contract and never overflows.
\<close>

section \<open>The semaphore and its operations\<close>

record MCF_sem =
  sem_value :: i64

definition MCF_SEM_VALUE_MAX :: i64 where
  "MCF_SEM_VALUE_MAX = 0x7FFFFFFFFFFFFFFF"

text \<open>The result and, on success, the initial object.\<close>

definition MCF_sem_init :: "i64 \<Rightarrow> int \<times> MCF_sem option" where
  "MCF_sem_init value_init =
     (if value_init <s 0 \<or> MCF_SEM_VALUE_MAX <s value_init then (- 1, None)
      else (0, Some \<lparr>sem_value = value_init\<rparr>))"

definition MCF_sem_get :: "MCF_sem \<Rightarrow> i64" where
  "MCF_sem_get w = sem_value w"

definition sem_try :: "bool \<Rightarrow> MCF_sem \<Rightarrow> (MCF_sem, unit) wact" where
  "sem_try zero_timeout old =
     (if 0 <s sem_value old then SwapGive \<lparr>sem_value = sem_value old - 1\<rparr> 0
      else if zero_timeout then Give (- 1)
      else SwapSleep \<lparr>sem_value = sem_value old - 1\<rparr>)"

definition sem_leave :: "MCF_sem \<Rightarrow> (MCF_sem \<times> int) option" where
  "sem_leave old =
     (if 0 \<le>s sem_value old then None else Some (\<lparr>sem_value = sem_value old + 1\<rparr>, - 1))"

definition MCF_sem_wait :: "(MCF_sem, unit, unit) wait_ops" where
  "MCF_sem_wait =
     \<lparr>w_fast = (\<lambda>_. FSlow), w_try = sem_try, w_ext = (\<lambda>_ _ _ _. None), w_leave = sem_leave,
      w_retry = False\<rparr>"

definition sem_signal_try :: "i64 \<Rightarrow> MCF_sem \<Rightarrow> MCF_sem sact" where
  "sem_signal_try value_add old =
     (if MCF_SEM_VALUE_MAX - value_add <s sem_value old then SGive (- 2)
      else SSwap \<lparr>sem_value = sem_value old + value_add\<rparr>
             (unat (MCF_minz (MCF_dim 0 (sem_value old)) value_add)) 0)"

definition MCF_sem_signal_some :: "i64 \<Rightarrow> (MCF_sem, unit) sig_ops" where
  "MCF_sem_signal_some value_add =
     \<lparr>s_fast = (\<lambda>_. FSlow),
      s_entry = (\<lambda>_. if value_add <s 0 \<or> MCF_SEM_VALUE_MAX <s value_add then Refuse (- 1)
                    else if value_add = 0 then Refuse 0 else Go),
      s_try = sem_signal_try value_add, s_xchg = None, s_post = (\<lambda>_ f. f)\<rparr>"

definition MCF_sem_signal :: "(MCF_sem, unit) sig_ops" where
  "MCF_sem_signal = MCF_sem_signal_some 1"

section \<open>Clients\<close>

text \<open>What a thread has acquired and posted so far; anyone may wait and signal.\<close>

record sem_client =
  acquired :: int
  posted :: int

definition sem_object :: "(MCF_sem, unit, unit, sem_client, unit, i64) object" where
  "sem_object =
     \<lparr>o_wait = (\<lambda>_. MCF_sem_wait), o_sig = MCF_sem_signal_some,
      o_may_wait = (\<lambda>_ _. True),
      o_waited = (\<lambda>c _ r. if r = 0 then c\<lparr>acquired := acquired c + 1\<rparr> else c),
      o_may_signal = (\<lambda>_ _. True),
      o_signalled = (\<lambda>c n r. if r = 0 then c\<lparr>posted := posted c + sint n\<rparr> else c)\<rparr>"

section \<open>Books\<close>

datatype sem_ledger = Units | Sem_sleepers

definition sem_book :: "int \<Rightarrow> sem_ledger \<Rightarrow> MCF_sem \<Rightarrow> int" where
  "sem_book v0 k w = (case k of
      Units \<Rightarrow> sint (sem_value w) - v0
    | Sem_sleepers \<Rightarrow> max 0 (- sint (sem_value w)))"

definition sem_hold :: "sem_ledger \<Rightarrow> sem_client \<Rightarrow> int" where
  "sem_hold k c = (case k of Units \<Rightarrow> posted c - acquired c | Sem_sleepers \<Rightarrow> 0)"

definition sem_waits :: "sem_ledger \<Rightarrow> int" where
  "sem_waits k = (case k of Units \<Rightarrow> - 1 | Sem_sleepers \<Rightarrow> 1)"

abbreviation sem_owes :: "sem_ledger \<Rightarrow> int" where
  "sem_owes k \<equiv> of_bool (k = Sem_sleepers)"

definition sem_max_threads :: nat where
  "sem_max_threads = 2 ^ 63 - 1"

lemma sint_max [simp]: "sint MCF_SEM_VALUE_MAX = 2 ^ 63 - 1"
  by (simp add: MCF_SEM_VALUE_MAX_def)

lemma sem_wake_num:
  assumes "0 < sint a"
  shows "int (unat (MCF_minz (MCF_dim 0 v) a)) = min (max 0 (- sint v)) (sint a)"
proof (cases "sint v < 0")
  case True
  have ua: "uint a = sint a" using assms by (simp add: uint_eq_sint)
  have "uint (0 - v) = (- (sint v mod 2 ^ 64)) mod 2 ^ 64"
    using uint_word_ariths(4)[of v] by (simp add: uint_sint_mod[of v])
  then have "uint (0 - v) = - sint v"
    using True sint_range64[of v] by (simp add: mod_minus_eq)
  then show ?thesis
    using True assms ua
    by (auto simp: MCF_minz_min MCF_dim_def signed_order min_def word_le_def uint_nat[symmetric])
next
  case False
  then show ?thesis
    using assms by (simp add: MCF_minz_min MCF_dim_def signed_order min_def)
qed

lemma sem_signal_no_overflow:
  assumes "0 < sint a" "\<not> MCF_SEM_VALUE_MAX - a <s v"
  shows "sint (v + a) = sint v + sint a"
proof -
  have "sint (MCF_SEM_VALUE_MAX - a) = (2 ^ 63 - 1) - sint a"
    using assms(1) sint_range64[of a] by (simp add: sint_word_ariths signed_take_64)
  then show ?thesis
    using assms sint_range64[of v] sint_range64[of a] by (subst sint_add64) (auto simp: signed_order)
qed

lemma all_sem_ledger [simp]: "(\<forall>k. P k) \<longleftrightarrow> P Units \<and> P Sem_sleepers"
  by (metis sem_ledger.exhaust)

lemmas sem_defs = sem_object_def MCF_sem_wait_def MCF_sem_signal_some_def sem_try_def
  sem_leave_def

lemmas sem_book_defs = sem_book_def sem_hold_def sem_waits_def sem_max_threads_def

lemma sint_dec: "- (2 ^ 63) < sint v \<Longrightarrow> sint (v - 1 :: i64) = sint v - 1"
  using sint_add64[of v "- 1"] sint_range64[of v] by simp

lemma sint_inc: "sint v < 2 ^ 63 - 1 \<Longrightarrow> sint (v + 1 :: i64) = sint v + 1"
  using sint_add64[of v 1] sint_range64[of v] by simp

lemma sem_signal_cases:
  assumes "sem_signal_try a w = SSwap w' n r" "a \<noteq> 0" "\<not> sint a < 0"
  shows "r = 0 \<and> sint (sem_value w') = sint (sem_value w) + sint a
    \<and> int n = min (max 0 (- sint (sem_value w))) (sint a)"
proof -
  have "0 < sint a" using assms(2,3) by (meson linorder_neqE sint_eq_0_iff64)
  then show ?thesis
    using assms sem_signal_no_overflow[of a "sem_value w"] sem_wake_num[of a "sem_value w"]
    by (auto simp: sem_signal_try_def split: if_splits)
qed

lemma sem_signal_other:
  "sem_signal_try a w = SGive r \<Longrightarrow> r = - 2" "sem_signal_try a w \<noteq> SBroken"
  by (auto simp: sem_signal_try_def split: if_splits)

interpretation sem: books sem_object "sem_book v0" sem_hold sem_waits sem_owes "\<lambda>_. 0" "\<lambda>_. False" "\<lambda>_. True"
  "\<lambda>_. True" sem_max_threads Sem_sleepers for v0
  by unfold_locales (auto simp: sem_defs sem_book_defs signed_order sint_dec sint_inc sem_signal_other
      split: if_splits sem_ledger.splits dest!: sem_signal_cases dest: sem_signal_other(1))

section \<open>Threads that share one semaphore\<close>

definition sem_begin :: "i64 \<Rightarrow> nat \<Rightarrow> (MCF_sem \<times> unit, (MCF_sem, unit, sem_client, unit, i64) thread) sys" where
  "sem_begin v n = \<lparr>mem = (\<lparr>sem_value = v\<rparr>, ()),
     thr = replicate n (Idle \<lparr>acquired = 0, posted = 0\<rparr>)\<rparr>"

lemma sem_begin_start:
  assumes "n < 2 ^ 63" and "0 \<le> sint v"
  shows "sem.start (sint v) (sem_begin v n)"
  unfolding sem.start_def sem.consistent_def
  using assms
  by (auto simp: sem.share_def sem_begin_def sem_book_defs total_def sum_list_replicate)

lemma sem_inv:
  "reach K (thread_step sem_object) (sem_begin v n) s \<Longrightarrow> n < 2 ^ 63 \<Longrightarrow> 0 \<le> sint v \<Longrightarrow>
    sem.inv (sint v) K s"
  by (rule sem.reach_inv[OF _ sem_begin_start])

text \<open>Thread 0 takes the only unit, thread 1 sleeps, thread 2 posts one unit.\<close>

definition sem_contended :: "(unit, i64) input move list" where
  "sem_contended =
     steps 0 [CallWait False () None, Act (Clock 0), Act Step, Act Step, Leave] @
     steps 1 [CallWait False () None, Act (Clock 0), Act Step, Act Step, Act (Sys False 0)] @
     steps 2 [CallSignal False 1, Act Step, Act Step, Act Step]"

text \<open>C36. Conservation of units. The initial value and everything that was posted is what has
  been acquired, what is left in a positive value and what is owed to registered sleepers;
  so the number of waits that succeed never exceeds the number of units put in. A negative
  value is exactly the number of sleepers that nobody is about to wake.\<close>

theorem sem_conservation:
  assumes "reach K (thread_step sem_object) (sem_begin v n) s" and "n < 2 ^ 63" and "0 \<le> sint v"
    and "keyed_event_contract K"
  shows "sint v + total (\<lambda>t. posted (client sem_object t)) s
           = total (\<lambda>t. acquired (client sem_object t)) s + max 0 (sint (sem_value (fst (mem s))))
             + total owes s
       \<and> max 0 (- sint (sem_value (fst (mem s)))) = total (asleep (\<lambda>_. 0)) s - total owes s"
proof
  note inv = sem_inv[OF assms(1-3)]
  let ?v = "sint (sem_value (fst (mem s)))"
  show z: "max 0 (- ?v) = total (asleep (\<lambda>_. 0)) s - total owes s"
    using sem.sleepers_accounts[OF inv assms(4)] by (simp add: sem_book_defs)
  have "sem.share Units = (\<lambda>t. posted (client sem_object t) - acquired (client sem_object t)
      - asleep (\<lambda>_. 0) t)"
    unfolding sem.share_def by (simp add: sem_book_defs fun_eq_iff)
  then have "total (sem.share Units) s = total (\<lambda>t. posted (client sem_object t)) s
      - total (\<lambda>t. acquired (client sem_object t)) s - total (asleep (\<lambda>_. 0)) s"
    unfolding total_def by (simp add: sum_list_subtractf)
  then have "?v - sint v = total (\<lambda>t. posted (client sem_object t)) s
      - total (\<lambda>t. acquired (client sem_object t)) s - total (asleep (\<lambda>_. 0)) s"
    using sem.accounts[OF inv, of Units] assms(4) by (simp add: sem_book_def)
  with z show "sint v + total (\<lambda>t. posted (client sem_object t)) s
           = total (\<lambda>t. acquired (client sem_object t)) s + max 0 ?v + total owes s"
    by linarith
qed

lemma sem_conservation_witness:
  "case moves documented_kernel (thread_step sem_object) sem_contended (sem_begin 1 3) of
     None \<Rightarrow> False
   | Some s \<Rightarrow> max 0 (- sint (sem_value (fst (mem s)))) = total (asleep (\<lambda>_. 0)) s - total owes s"
  by (rule moves_witness[where H = "\<lambda>_. True"], code_simp)
    (rule sem_conservation[where K = documented_kernel and n = 3 and v = 1, THEN conjunct2],
      simp_all add: documented_kernel_contract)

section \<open>One call\<close>

text \<open>The contract of \<open>_MCF_sem_signal_some\<close>, alone on the semaphore: -1 for a negative
  count and 0 for a zero one, the value untouched; -2, the value untouched, when the sum
  would exceed \<open>INTPTR_MAX\<close>; otherwise 0, the value increased without overflow, and as
  many wake-ups as sleepers that the units suffice for.\<close>

theorem sem_signal_results:
  "result (run_signal (MCF_sem_signal_some a)
      (alone ([Step, Step, Step, Step] @
        replicate (nat (min (max 0 (- sint (sem_value w))) (sint a))) Rel @ [Step])) (w, ()) SEntry)
   = Some (if sint a < 0 then (- 1, w)
           else if sint a = 0 then (0, w)
           else if 2 ^ 63 - 1 < sint (sem_value w) + sint a then (- 2, w)
           else (0, \<lparr>sem_value = word_of_int (sint (sem_value w) + sint a)\<rparr>))"
proof -
  let ?ops = "MCF_sem_signal_some a" and ?v = "sem_value w"
  consider "sint a < 0" | "sint a = 0" | "0 < sint a" by linarith
  then show ?thesis
  proof cases
    case 1
    then show ?thesis by (simp add: MCF_sem_signal_some_def signed_order)
  next
    case 2
    then have "a = 0" by (simp add: sint_eq_0_iff64)
    then show ?thesis by (simp add: MCF_sem_signal_some_def signed_order)
  next
    case 3
    have max: "sint (MCF_SEM_VALUE_MAX - a) = (2 ^ 63 - 1) - sint a"
      using 3 sint_range64[of a] by (simp add: sint_word_ariths signed_take_64)
    let ?n = "nat (min (max 0 (- sint ?v)) (sint a))"
    have entry: "s_entry ?ops x = Go" "s_xchg ?ops = None" "s_post ?ops x f = f" for x f
      using 3 sint_range64[of a] by (auto simp: MCF_sem_signal_some_def signed_order)
    show ?thesis
    proof (cases "2 ^ 63 - 1 < sint ?v + sint a")
      case True
      then have "s_try ?ops w = SGive (- 2)"
        by (simp add: MCF_sem_signal_some_def sem_signal_try_def signed_order max)
      then show ?thesis using 3 True by (simp add: entry)
    next
      case False
      then have "\<not> MCF_SEM_VALUE_MAX - a <s ?v" by (simp add: signed_order max)
      then have "sint (?v + a) = sint ?v + sint a" using 3 by (intro sem_signal_no_overflow)
      then have v: "?v + a = word_of_int (sint ?v + sint a)" by (simp flip: wi_hom_add)
      have "unat (MCF_minz (MCF_dim 0 ?v) a) = ?n"
        using sem_wake_num[OF 3, of ?v] by (metis nat_int)
      then have "s_try ?ops w = SSwap \<lparr>sem_value = ?v + a\<rparr> ?n 0"
        using \<open>\<not> MCF_SEM_VALUE_MAX - a <s ?v\<close>
        by (simp add: MCF_sem_signal_some_def sem_signal_try_def)
      then show ?thesis
        using 3 False run_releases[of ?ops ?n "(\<lparr>sem_value = ?v + a\<rparr>, ())" 0]
        unfolding v[symmetric] by (simp add: entry)
    qed
  qed
qed

end
