(* ===== verification/Mcf_Event.thy ===== *)
theory Mcf_Event
  imports Keyed_Event_Laws
begin

text \<open>
  The event: \<open>mcfgthread/event.h\<close> and \<open>mcfgthread/src/event.c\<close>. The word holds a byte and
  the number of sleepers; a waiter names the value it does not want, and a change of the
  value wakes every sleeper.

  Shown: the sleeping count is exact; what \<open>_MCF_event_await_change\<close> returns is never the
  undesired value; \<open>_MCF_event_set\<close> keeps its error contract. Also shown, as a reachable
  state, is a lost wake-up: a thread that registered before a change can stay asleep on a
  value it does not refuse, because a thread that registered after the change has taken
  the wake-up that was meant for it.

  \<open>_MCF_event_set_slow\<close> does not initialise the reserved bit of the word it stores; what it
  holds there is a parameter (\<open>stray\<close>).
\<close>

section \<open>The event and its operations\<close>

record MCF_event =
  event_value :: u8
  event_reserved_bit :: "1 word"
  event_nsleep :: "55 word"

definition MCF_EVENT_VALUE_MAX :: i32 where
  "MCF_EVENT_VALUE_MAX = 0xFF"

definition MCF_event_init :: "i32 \<Rightarrow> int \<times> MCF_event option" where
  "MCF_event_init value_init =
     (if value_init <s 0 \<or> MCF_EVENT_VALUE_MAX <s value_init then (- 1, None)
      else (0, Some \<lparr>event_value = ucast value_init, event_reserved_bit = 0, event_nsleep = 0\<rparr>))"

definition MCF_event_get :: "MCF_event \<Rightarrow> u8" where
  "MCF_event_get w = event_value w"

definition MCF_event_await_change :: "i32 \<Rightarrow> MCF_event \<Rightarrow> MCF_event fact" where
  "MCF_event_await_change undesired w =
     (if event_value w \<noteq> ucast undesired then FGive (uint (event_value w)) else FSlow)"

definition event_try :: "i32 \<Rightarrow> bool \<Rightarrow> MCF_event \<Rightarrow> (MCF_event, unit) wact" where
  "event_try undesired zero_timeout old =
     (if event_value old \<noteq> ucast undesired then Give (uint (event_value old))
      else if zero_timeout then Give (- 1)
      else SwapSleep \<lparr>event_value = event_value old, event_reserved_bit = 0,
                      event_nsleep = event_nsleep old + 1\<rparr>)"

definition event_leave :: "MCF_event \<Rightarrow> (MCF_event \<times> int) option" where
  "event_leave old =
     (if event_nsleep old = 0 then None
      else Some (\<lparr>event_value = event_value old, event_reserved_bit = 0,
                  event_nsleep = event_nsleep old - 1\<rparr>, - 1))"

definition MCF_event_await_change_slow :: "i32 \<Rightarrow> (MCF_event, unit, unit) wait_ops" where
  "MCF_event_await_change_slow undesired =
     \<lparr>w_fast = MCF_event_await_change undesired, w_try = event_try undesired,
      w_ext = (\<lambda>_ _ _ _. None), w_leave = event_leave, w_retry = True\<rparr>"

definition MCF_event_set_slow :: "1 word \<Rightarrow> i32 \<Rightarrow> (MCF_event, unit) sig_ops" where
  "MCF_event_set_slow stray value =
     \<lparr>s_fast = (\<lambda>_. FSlow),
      s_entry = (\<lambda>_. if value <s 0 \<or> MCF_EVENT_VALUE_MAX <s value then Refuse (- 1) else Go),
      s_try = (\<lambda>old. if event_value old = ucast value then SGive 0
                     else SSwap \<lparr>event_value = ucast value, event_reserved_bit = stray,
                                 event_nsleep = 0\<rparr>
                            (unat (event_nsleep old)) 0),
      s_xchg = None, s_post = (\<lambda>_ f. f)\<rparr>"

definition MCF_event_set :: "1 word \<Rightarrow> i32 \<Rightarrow> (MCF_event, unit) sig_ops" where
  "MCF_event_set stray value = MCF_event_set_slow stray value"

section \<open>Clients and books\<close>

definition event_object :: "1 word \<Rightarrow> (MCF_event, unit, unit, unit, i32, i32) object" where
  "event_object stray =
     \<lparr>o_wait = MCF_event_await_change_slow, o_sig = MCF_event_set stray,
      o_may_wait = (\<lambda>_ _. True), o_waited = (\<lambda>c _ _. c),
      o_may_signal = (\<lambda>_ _. True), o_signalled = (\<lambda>c _ _. c)\<rparr>"

definition event_book :: "unit \<Rightarrow> MCF_event \<Rightarrow> int" where
  "event_book k w = uint (event_nsleep w)"

definition event_max_threads :: nat where
  "event_max_threads = 2 ^ 55 - 1"

lemmas event_defs = event_object_def MCF_event_await_change_slow_def MCF_event_set_def
  MCF_event_set_slow_def MCF_event_await_change_def event_try_def event_leave_def

lemmas event_book_defs = event_book_def event_max_threads_def

interpretation event: books "event_object stray" event_book "\<lambda>_ _. 0" "\<lambda>_. 1" "\<lambda>_. 1" "\<lambda>_. 0"
  "\<lambda>_. False" "\<lambda>_. True" "\<lambda>_. True" event_max_threads "()" for stray
  by unfold_locales (auto simp: event_defs event_book_defs word_facts split: if_splits)

section \<open>Threads that share one event\<close>

type_synonym event_thread = "(MCF_event, unit, unit, i32, i32) thread"

definition event_begin :: "u8 \<Rightarrow> nat \<Rightarrow> (MCF_event \<times> unit, event_thread) sys" where
  "event_begin v n = \<lparr>mem = (\<lparr>event_value = v, event_reserved_bit = 0, event_nsleep = 0\<rparr>, ()),
     thr = replicate n (Idle ())\<rparr>"

lemma event_begin_start:
  assumes "n < 2 ^ 55"
  shows "event.start stray (event_begin v n)"
  unfolding event.start_def event.consistent_def
  using assms
  by (auto simp: event.share_def event_begin_def event_book_defs total_def sum_list_replicate)

text \<open>C38. The sleeping count of an event is the number of registered sleepers less the
  wake-ups that are owed, so a change of the value owes one wake-up to each sleeper.\<close>

theorem event_sleepers_exact:
  assumes "reach K (thread_step (event_object stray)) (event_begin v n) s" and "n < 2 ^ 55"
    and "keyed_event_contract K"
  shows "uint (event_nsleep (fst (mem s))) = total (asleep (\<lambda>_. 0)) s - total owes s"
  using event.sleepers_accounts[OF event.reach_inv[OF assms(1) event_begin_start[OF assms(2)]] assms(3)]
  by (simp add: event_book_def)

text \<open>
  Thread 0 registers to wait while the value is 1 and is delayed; thread 2 sets 2 and owes
  one wake-up; thread 1 waits while the value is 2 and takes it; thread 0 goes to sleep.
\<close>

definition event_stolen :: "(i32, i32) input move list" where
  "event_stolen =
     steps 0 [CallWait False 1 None, Act (Clock 0), Act Step, Act Step] @
     steps 2 [CallSignal False 2, Act Step, Act Step, Act Step, Act Step] @
     steps 1 [CallWait False 2 None, Act (Clock 0), Act Step, Act Step, Act (Sys False 0)] @
     [Pair 1 2] @
     steps 2 [Act Step, Leave] @
     steps 1 [Act (Clock 0), Act Step, Act Step, Act (Sys False 0)] @
     [Local 0 (Act (Sys False 0))]"

lemma event_sleepers_exact_witness:
  "case moves documented_kernel (thread_step (event_object 0)) event_stolen (event_begin 1 3) of
     None \<Rightarrow> False
   | Some s \<Rightarrow> uint (event_nsleep (fst (mem s))) = total (asleep (\<lambda>_. 0)) s - total owes s"
  by (rule moves_witness[where H = "\<lambda>_. True"], code_simp)
    (rule event_sleepers_exact[where K = documented_kernel and n = 3],
      simp_all add: documented_kernel_contract)

text \<open>A wake-up can be lost, even with keyed events as documented: a state is reachable
  in which the value is 2, thread 0, which refuses only 1, sleeps without a timeout, nobody
  owes a wake-up and no thread is awake. The change from 1 to 2 woke thread 1 instead, which
  had registered after it.\<close>

theorem event_wakeup_can_be_lost:
  "\<exists>s. reach documented_kernel (thread_step (event_object stray)) (event_begin 1 3) s
     \<and> event_value (fst (mem s)) = 2
     \<and> thr s = [Waits () 1 (WSleep timeout_infinite), Waits () 2 (WSleep timeout_infinite), Idle ()]"
proof -
  have "\<exists>s. moves documented_kernel (thread_step (event_object stray)) event_stolen (event_begin 1 3) = Some s
     \<and> event_value (fst (mem s)) = 2
     \<and> thr s = [Waits () 1 (WSleep timeout_infinite), Waits () 2 (WSleep timeout_infinite), Idle ()]"
    by (simp add: event_stolen_def steps_def event_begin_def numeral_3_eq_3 at_thread_def event_defs
        batch_release_step_def check_wait_safety_def documented_kernel_def infinite_waits woken_def
        MCF_EVENT_VALUE_MAX_def signed_order)
  then show ?thesis using moves_reach by blast
qed

section \<open>One call\<close>

text \<open>\<open>_MCF_event_await_change\<close> without a timeout returns a value of the event that is not
  the undesired one, under any interference; with a zero timeout, undisturbed, it returns
  the value or, if that is undesired, -1.\<close>

theorem event_await_results:
  "(run_wait (MCF_event_await_change_slow undesired) sch m (WFast None) = Some (r, m', sch') \<longrightarrow>
      0 \<le> r \<and> r < 256 \<and> r \<noteq> uint (ucast undesired :: u8))
 \<and> result (run_wait (MCF_event_await_change_slow undesired) (alone [Step, Step, Clock now, Step, Step])
      (w, ()) (WFast (Some 0)))
   = Some (if event_value w \<noteq> ucast undesired then uint (event_value w) else - 1, w)"
proof
  have v: "0 \<le> uint x" "uint x < 256" for x :: u8
    using uint_lt2p[of x] by simp_all
  have q: "0 \<le> uint x \<and> uint x < 256 \<and> uint x \<noteq> uint (ucast undesired :: u8)"
    if "x \<noteq> ucast undesired" for x :: u8
    using that v[of x] by (simp add: word_uint_eq_iff)
  show "run_wait (MCF_event_await_change_slow undesired) sch m (WFast None) = Some (r, m', sch') \<longrightarrow>
      0 \<le> r \<and> r < 256 \<and> r \<noteq> uint (ucast undesired :: u8)"
  proof
    assume run: "run_wait (MCF_event_await_change_slow undesired) sch m (WFast None) = Some (r, m', sch')"
    show "0 \<le> r \<and> r < 256 \<and> r \<noteq> uint (ucast undesired :: u8)"
      by (rule run_wait_forever[OF run,
            where Q = "\<lambda>r m. 0 \<le> r \<and> r < 256 \<and> r \<noteq> uint (ucast undesired :: u8)"])
        (use q in \<open>auto simp: event_defs split: if_splits\<close>)
  qed
qed (simp add: event_defs)

lemma event_await_results_witness:
  "case run_wait (MCF_event_await_change_slow 1) (alone [Step, Step])
       (\<lparr>event_value = 7, event_reserved_bit = 0, event_nsleep = 0\<rparr>, ()) (WFast None) of
     None \<Rightarrow> False
   | Some (r, m', _) \<Rightarrow> 0 \<le> r \<and> r < 256 \<and> r \<noteq> uint (ucast (1 :: i32) :: u8)"
  by (rule result_witness, code_simp) (rule event_await_results[THEN conjunct1, rule_format])

text \<open>\<open>_MCF_event_set\<close>, alone on the event: -1 for a value outside 0 to 255, nothing
  changed; 0 without a wake-up when the value is already there; otherwise the new value, no
  sleepers left, and one wake-up for each of them.\<close>

theorem event_set_results:
  "result (run_signal (MCF_event_set stray value)
      (alone ([Step, Step, Step, Step] @ replicate (unat (event_nsleep w)) Rel @ [Step])) (w, ()) SEntry)
   = Some (if sint value < 0 \<or> 255 < sint value then (- 1, w)
           else if event_value w = ucast value then (0, w)
           else (0, \<lparr>event_value = ucast value, event_reserved_bit = stray, event_nsleep = 0\<rparr>))"
proof -
  let ?ops = "MCF_event_set stray value"
  have ops: "s_entry ?ops x = (if sint value < 0 \<or> 255 < sint value then Refuse (- 1) else Go)"
    "s_try ?ops x = (if event_value x = ucast value then SGive 0
       else SSwap \<lparr>event_value = ucast value, event_reserved_bit = stray, event_nsleep = 0\<rparr>
              (unat (event_nsleep x)) 0)"
    "s_xchg ?ops = None" "s_post ?ops x f = f" for x f
    by (simp_all add: event_defs MCF_EVENT_VALUE_MAX_def signed_order)
  show ?thesis
    using run_releases[of ?ops "unat (event_nsleep w)"
        "(\<lparr>event_value = ucast value, event_reserved_bit = stray, event_nsleep = 0\<rparr>, ())" 0]
    by (simp add: ops)
qed

end
