(* ===== verification/Mcf_Cond.thy ===== *)
theory Mcf_Cond
  imports Keyed_Event_Laws
begin

text \<open>
  The condition variable: \<open>mcfgthread/cond.h\<close> and \<open>mcfgthread/src/cond.c\<close>. The word counts
  the sleepers. A waiter registers first, then calls the unlock callback, then sleeps; it
  does not look at the word again when it is woken. The callbacks are the client's: the
  unlock callback is a function on the client's state \<open>user\<close> that also returns a value,
  the relock callback receives that value. The local variable \<open>unlocked\<close> of thread \<open>tid\<close>
  is \<open>unlocked tid\<close>.

  Shown: the sleeping count is exact; every wake-up that a signal reports reaches one
  waiter, which then returns 0, or is still owed; the results of a signal; the relock
  callback runs exactly once, last, with the value of the unlock callback. A reachable
  state shows that a waiter that came after a signal can take the wake-up of one that
  came before it.
\<close>

section \<open>The condition variable and its operations\<close>

record MCF_cond =
  cond_reserved_bits :: "9 word"
  cond_nsleep :: "55 word"

definition MCF_cond_init :: MCF_cond where
  "MCF_cond_init = \<lparr>cond_reserved_bits = 0, cond_nsleep = 0\<rparr>"

record 'u cond_env =
  user :: 'u
  unlocked :: "nat \<Rightarrow> i64"

type_synonym 'u unlock_callback = "'u \<Rightarrow> 'u \<times> i64"
type_synonym 'u relock_callback = "'u \<Rightarrow> i64 \<Rightarrow> 'u"

definition cond_register :: "bool \<Rightarrow> MCF_cond \<Rightarrow> (MCF_cond, unit) wact" where
  "cond_register zero_timeout old =
     SwapExt \<lparr>cond_reserved_bits = 0, cond_nsleep = cond_nsleep old + 1\<rparr> ()"

definition cond_unlock :: "nat \<Rightarrow> 'u unlock_callback option \<Rightarrow> 'u cond_env \<Rightarrow> 'u cond_env" where
  "cond_unlock tid unlock_opt f =
     (case unlock_opt of
        None \<Rightarrow> f
      | Some unlock \<Rightarrow>
          (let (st, r) = unlock (user f) in f\<lparr>user := st, unlocked := (unlocked f)(tid := r)\<rparr>))"

definition cond_leave :: "MCF_cond \<Rightarrow> (MCF_cond \<times> int) option" where
  "cond_leave old =
     (if cond_nsleep old = 0 then None
      else Some (\<lparr>cond_reserved_bits = 0, cond_nsleep = cond_nsleep old - 1\<rparr>, - 1))"

definition do_unlock_and_wait :: "nat \<Rightarrow> 'u unlock_callback option \<Rightarrow> (MCF_cond, 'u cond_env, unit) wait_ops" where
  "do_unlock_and_wait tid unlock_opt =
     \<lparr>w_fast = (\<lambda>_. FSlow), w_try = cond_register,
      w_ext = (\<lambda>e m nt _. if e = Step then Some ((fst m, cond_unlock tid unlock_opt (snd m)), WCheck nt)
                       else None),
      w_leave = cond_leave, w_retry = False\<rparr>"

definition MCF_cond_wait :: "nat \<Rightarrow> 'u unlock_callback option \<Rightarrow> 'u relock_callback option \<Rightarrow> i64 option \<Rightarrow>
    (MCF_cond \<times> 'u cond_env) schedule \<Rightarrow> MCF_cond \<times> 'u cond_env \<Rightarrow>
    (int \<times> (MCF_cond \<times> 'u cond_env) \<times> (MCF_cond \<times> 'u cond_env) schedule) option" where
  "MCF_cond_wait tid unlock_opt relock_opt timeout_opt sch m =
     (case run_wait (do_unlock_and_wait tid unlock_opt) sch m (WInit timeout_opt) of
        None \<Rightarrow> None
      | Some (err, m', sch') \<Rightarrow>
          (case (unlock_opt, relock_opt) of
             (Some _, Some relock) \<Rightarrow>
               Some (err, (fst m', (snd m')\<lparr>user := relock (user (snd m')) (unlocked (snd m') tid)\<rparr>), sch')
           | _ \<Rightarrow> Some (err, m', sch')))"

definition cond_signal_try :: "uptr \<Rightarrow> MCF_cond \<Rightarrow> MCF_cond sact" where
  "cond_signal_try limit old =
     (if cond_nsleep old = 0 then SGive 0
      else
        (let wake_num = MCF_minz (ucast (cond_nsleep old)) limit
         in SSwap \<lparr>cond_reserved_bits = 0, cond_nsleep = ucast (ucast (cond_nsleep old) - wake_num)\<rparr>
              (unat wake_num) (uint wake_num)))"

definition MCF_cond_signal_some :: "MCF_cond \<Rightarrow> MCF_cond fact" where
  "MCF_cond_signal_some w = (if cond_nsleep w = 0 then FGive 0 else FSlow)"

definition MCF_cond_signal_some_slow :: "uptr \<Rightarrow> (MCF_cond, 'u cond_env) sig_ops" where
  "MCF_cond_signal_some_slow limit =
     \<lparr>s_fast = MCF_cond_signal_some, s_entry = (\<lambda>_. if limit = 0 then Refuse 0 else Go),
      s_try = cond_signal_try limit, s_xchg = None, s_post = (\<lambda>_ f. f)\<rparr>"

definition MCF_cond_signal :: "(MCF_cond, 'u cond_env) sig_ops" where
  "MCF_cond_signal = MCF_cond_signal_some_slow 1"

definition MCF_cond_signal_all :: "(MCF_cond, 'u cond_env) sig_ops" where
  "MCF_cond_signal_all = MCF_cond_signal_some_slow (- 1)"

section \<open>Clients and books\<close>

text \<open>How many waits of a thread returned 0, and how many wake-ups its signals reported.\<close>

record cond_client =
  woken_up :: int
  signalled :: int

definition cond_object :: "'u unlock_callback option \<Rightarrow>
    (MCF_cond, 'u cond_env, unit, cond_client, nat, uptr) object" where
  "cond_object unlock_opt =
     \<lparr>o_wait = (\<lambda>tid. do_unlock_and_wait tid unlock_opt), o_sig = MCF_cond_signal_some_slow,
      o_may_wait = (\<lambda>_ _. True),
      o_waited = (\<lambda>c _ r. if r = 0 then c\<lparr>woken_up := woken_up c + 1\<rparr> else c),
      o_may_signal = (\<lambda>_ _. True),
      o_signalled = (\<lambda>c _ r. c\<lparr>signalled := signalled c + r\<rparr>)\<rparr>"

datatype cond_ledger = Wakes | Cond_sleepers

definition cond_book :: "cond_ledger \<Rightarrow> MCF_cond \<Rightarrow> int" where
  "cond_book k w = (case k of Wakes \<Rightarrow> 0 | Cond_sleepers \<Rightarrow> uint (cond_nsleep w))"

definition cond_hold :: "cond_ledger \<Rightarrow> cond_client \<Rightarrow> int" where
  "cond_hold k c = (case k of Wakes \<Rightarrow> signalled c - woken_up c | Cond_sleepers \<Rightarrow> 0)"

abbreviation cond_weight :: "cond_ledger \<Rightarrow> int" where
  "cond_weight k \<equiv> of_bool (k = Cond_sleepers)"

definition cond_max_threads :: nat where
  "cond_max_threads = 2 ^ 55 - 1"

lemma cond_signal_cases:
  assumes "cond_signal_try limit w = SSwap w' n r"
  shows "r = int n \<and> int n = min (uint (cond_nsleep w)) (uint limit)
       \<and> uint (cond_nsleep w') = uint (cond_nsleep w) - int n"
proof -
  let ?s = "ucast (cond_nsleep w) :: uptr"
  have s: "uint ?s = uint (cond_nsleep w)" by (simp add: uint_ucast_up)
  have m: "uint (MCF_minz ?s limit) = min (uint (cond_nsleep w)) (uint limit)"
    by (simp add: MCF_minz_min min_def word_le_def s)
  then have le: "uint (MCF_minz ?s limit) \<le> uint ?s" by (simp add: s)
  then have "uint (?s - MCF_minz ?s limit) = uint ?s - uint (MCF_minz ?s limit)"
    by (simp add: uint_sub_lem)
  moreover have "uint (ucast (?s - MCF_minz ?s limit) :: 55 word) = uint (?s - MCF_minz ?s limit)"
  proof -
    let ?d = "uint (?s - MCF_minz ?s limit)"
    have lt: "uint (cond_nsleep w) < 2 ^ 55" using uint_lt2p[of "cond_nsleep w"] by simp
    have ge: "0 \<le> uint (MCF_minz ?s limit)" by simp
    have "0 \<le> ?d" by simp
    moreover have "?d < 2 ^ 55"
      using \<open>?d = _\<close> lt ge unfolding s by linarith
    ultimately show ?thesis by (simp only: unsigned_ucast_eq take_bit_eq_mod) simp
  qed
  ultimately show ?thesis
    using assms m s by (auto simp: cond_signal_try_def Let_def split: if_splits)
qed

lemma cond_signal_other: "cond_signal_try limit w = SGive r \<Longrightarrow> r = 0" "cond_signal_try limit w \<noteq> SBroken"
  by (auto simp: cond_signal_try_def Let_def split: if_splits)

lemmas cond_defs = cond_object_def do_unlock_and_wait_def MCF_cond_signal_some_slow_def
  MCF_cond_signal_some_def cond_register_def cond_leave_def

lemmas cond_book_defs = cond_book_def cond_hold_def cond_max_threads_def

interpretation cond: books "cond_object unlock_opt" cond_book cond_hold cond_weight "\<lambda>_. 1" "\<lambda>_. 1"
  "\<lambda>_. False" "\<lambda>_. True" "\<lambda>_. True" cond_max_threads Cond_sleepers for unlock_opt
proof (unfold_locales, simp_all add: cond_defs cond_book_defs cond_signal_other
    split: if_splits cond_ledger.splits, goal_cases)
  case (4 b w w' n r k)
  then show ?case using cond_signal_cases[of b w w' n r] by auto
qed (auto simp: word_facts)

section \<open>Threads that share one condition variable\<close>

type_synonym cond_thread = "(MCF_cond, unit, cond_client, nat, uptr) thread"

definition cond_begin :: "'u \<Rightarrow> nat \<Rightarrow> (MCF_cond \<times> 'u cond_env, cond_thread) sys" where
  "cond_begin u n = \<lparr>mem = (MCF_cond_init, \<lparr>user = u, unlocked = (\<lambda>_. 0)\<rparr>),
     thr = replicate n (Idle \<lparr>woken_up = 0, signalled = 0\<rparr>)\<rparr>"

lemma cond_begin_start:
  assumes "n < 2 ^ 55"
  shows "cond.start unlock_opt (cond_begin u n)"
  unfolding cond.start_def cond.consistent_def
  using assms
  by (auto simp: cond.share_def cond_begin_def cond_book_defs MCF_cond_init_def total_def
      sum_list_replicate split: cond_ledger.splits)

text \<open>C37. Every wake-up that \<open>_MCF_cond_signal_some\<close> reports is one waiter that returns 0, or
  is still owed: reported wake-ups are never lost and never doubled. The sleeping count is
  the number of registered waiters, those about to run their unlock callback included,
  less the wake-ups owed, so a signal that follows an unlock callback sees its caller.\<close>

theorem cond_wakes_accounted:
  assumes "reach K (thread_step (cond_object unlock_opt)) (cond_begin u n) s" and "n < 2 ^ 55"
    and "keyed_event_contract K"
  shows "total (\<lambda>t. signalled (client (cond_object unlock_opt) t)) s
           = total (\<lambda>t. woken_up (client (cond_object unlock_opt) t)) s + total owes s
       \<and> uint (cond_nsleep (fst (mem s))) = total (asleep (\<lambda>_. 1)) s - total owes s"
proof
  note inv = cond.reach_inv[OF assms(1) cond_begin_start[OF assms(2)]]
  have "cond.share TYPE('a) unlock_opt Wakes = (\<lambda>t. signalled (client (cond_object unlock_opt) t)
      - woken_up (client (cond_object unlock_opt) t) - owes t)"
    unfolding cond.share_def by (simp add: cond_book_defs fun_eq_iff)
  then have "total (cond.share TYPE('a) unlock_opt Wakes) s = total (\<lambda>t. signalled (client (cond_object unlock_opt) t)) s
      - total (\<lambda>t. woken_up (client (cond_object unlock_opt) t)) s - total owes s"
    unfolding total_def by (simp add: sum_list_subtractf)
  then show "total (\<lambda>t. signalled (client (cond_object unlock_opt) t)) s
           = total (\<lambda>t. woken_up (client (cond_object unlock_opt) t)) s + total owes s"
    using cond.accounts[OF inv, of Wakes] assms(3) by (simp add: cond_book_def)
  show "uint (cond_nsleep (fst (mem s))) = total (asleep (\<lambda>_. 1)) s - total owes s"
    using cond.sleepers_accounts[OF inv assms(3)] by (simp add: cond_book_def)
qed

text \<open>
  Thread 0 registers and runs its unlock callback; thread 2 signals one waiter; thread 1
  registers afterwards and takes the wake-up; thread 0 goes to sleep.
\<close>

definition cond_stolen :: "(nat, uptr) input move list" where
  "cond_stolen =
     steps 0 [CallWait False 0 None, Act (Clock 0), Act Step, Act Step, Act Step] @
     steps 2 [CallSignal True 1, Act Step, Act Step, Act Step, Act Step, Act Step, Act Step] @
     steps 1 [CallWait False 1 None, Act (Clock 0), Act Step, Act Step, Act Step, Act (Sys False 0)] @
     [Pair 1 2] @ steps 1 [Leave] @ steps 2 [Act Step, Leave] @
     [Local 0 (Act (Sys False 0))]"

lemma cond_stolen_runs:
  "\<exists>s. moves documented_kernel (thread_step (cond_object (None :: unit unlock_callback option))) cond_stolen (cond_begin () 3) = Some s
     \<and> thr s = [Waits \<lparr>woken_up = 0, signalled = 0\<rparr> 0 (WSleep timeout_infinite),
                Idle \<lparr>woken_up = 1, signalled = 0\<rparr>, Idle \<lparr>woken_up = 0, signalled = 1\<rparr>]"
  by (simp add: cond_stolen_def steps_def cond_begin_def MCF_cond_init_def numeral_3_eq_3 at_thread_def
      cond_defs cond_signal_try_def MCF_minz_def cond_unlock_def batch_release_step_def
      check_wait_safety_def documented_kernel_def woken_def)

lemma cond_wakes_accounted_witness:
  "\<exists>s. moves documented_kernel (thread_step (cond_object (None :: unit unlock_callback option))) cond_stolen (cond_begin () 3) = Some s
     \<and> total (\<lambda>t. signalled (client (cond_object (None :: unit unlock_callback option)) t)) s
           = total (\<lambda>t. woken_up (client (cond_object (None :: unit unlock_callback option)) t)) s + total owes s"
  using cond_stolen_runs cond_wakes_accounted[OF moves_reach, of documented_kernel "None :: unit unlock_callback option" cond_stolen "()" 3]
    documented_kernel_contract by auto

text \<open>Wake-ups do not go to the threads that were waiting when the signal was sent: a state
  is reachable, with keyed events as documented, in which thread 0 registered and unlocked
  before the only signal and is still asleep with no wake-up owed to it, while thread 1,
  which registered after the signal, has returned from its wait.\<close>

theorem cond_wakeup_can_be_stolen:
  "\<exists>s. reach documented_kernel (thread_step (cond_object (None :: unit unlock_callback option))) (cond_begin () 3) s
     \<and> thr s = [Waits \<lparr>woken_up = 0, signalled = 0\<rparr> 0 (WSleep timeout_infinite),
                Idle \<lparr>woken_up = 1, signalled = 0\<rparr>, Idle \<lparr>woken_up = 0, signalled = 1\<rparr>]"
  using cond_stolen_runs moves_reach by blast

section \<open>One call\<close>

text \<open>What a signal does, alone on the condition variable: it takes the smaller of the
  limit and the number of sleepers off the count, makes as many wake-ups, and returns that
  number.\<close>

lemma cond_signal_results:
  "result (run_signal (MCF_cond_signal_some_slow limit)
      (alone ([Step, Step, Step, Step, Step, Step] @
        replicate (nat (min (uint (cond_nsleep w)) (uint limit))) Rel @ [Step])) (w, f) SFast)
   = Some (min (uint (cond_nsleep w)) (uint limit),
           if cond_nsleep w = 0 \<or> limit = 0 then w
           else \<lparr>cond_reserved_bits = 0,
                 cond_nsleep = cond_nsleep w - word_of_int (min (uint (cond_nsleep w)) (uint limit))\<rparr>)"
proof -
  let ?ops = "MCF_cond_signal_some_slow limit :: (MCF_cond, 'a cond_env) sig_ops"
  have ops: "s_fast ?ops x = (if cond_nsleep x = 0 then FGive 0 else FSlow)"
    "s_entry ?ops x = (if limit = 0 then Refuse 0 else Go)" "s_try ?ops x = cond_signal_try limit x"
    "s_xchg ?ops = None" "s_post ?ops x g = g" for x g
    by (simp_all add: cond_defs)
  show ?thesis
  proof (cases "cond_nsleep w = 0 \<or> limit = 0")
    case True
    then show ?thesis by (auto simp: ops min_def uint_0_iff le_less_linear)
  next
    case False
    then obtain w' n r where sw: "cond_signal_try limit w = SSwap w' n r"
      by (auto simp: cond_signal_try_def Let_def)
    note c = cond_signal_cases[OF sw]
    have "cond_nsleep w' = cond_nsleep w - word_of_int (min (uint (cond_nsleep w)) (uint limit))"
      using c by (metis uint_word_of_int_eq wi_hom_sub word_of_int_uint)
    moreover have n: "nat (min (uint (cond_nsleep w)) (uint limit)) = n" "r = min (uint (cond_nsleep w)) (uint limit)"
      using c by (metis nat_int)+
    moreover have "cond_reserved_bits w' = 0"
      using sw False by (auto simp: cond_signal_try_def Let_def)
    ultimately show ?thesis
      using False run_releases[of ?ops n "(w', f)" r] unfolding n(1) by (cases w') (simp add: ops sw)
  qed
qed

lemma cond_wait_run:
  assumes run: "run_wait (do_unlock_and_wait tid (Some unlock)) sch m (WInit timeout_opt) = Some (err, m1, sch')"
    and mine: "\<forall>(e, g) \<in> set sch. \<forall>m. unlocked (snd (g m)) tid = unlocked (snd m) tid"
  shows "(\<exists>u1. unlocked (snd m1) tid = snd (unlock u1)) \<and> (err = 0 \<or> err = - 1 \<and> timeout_opt \<noteq> None)"
proof -
  let ?ops = "do_unlock_and_wait tid (Some unlock)"
  define I where "I = (\<lambda>(m :: MCF_cond \<times> 'a cond_env) (pc :: (MCF_cond, unit) wpc).
    case pc of
      WFast t \<Rightarrow> False | WFTry t old \<Rightarrow> False
    | WInit t \<Rightarrow> True | WLoad nt \<Rightarrow> True | WTry nt old \<Rightarrow> True | WExt nt x \<Rightarrow> True
    | WRet r \<Rightarrow> (r = 0 \<or> r = - 1) \<and> (\<exists>u1. unlocked (snd m) tid = snd (unlock u1))
    | _ \<Rightarrow> \<exists>u1. unlocked (snd m) tid = snd (unlock u1))"
  have "\<exists>pc'. w_returned pc' = Some err \<and> I m1 pc'"
  proof (rule run_call_invariant[OF run])
    show "I m (WInit timeout_opt)" by (simp add: I_def)
  next
    fix e g m pc m' pc'
    assume e: "(e, g) \<in> set sch" and I: "I m pc" and st: "wait_step ?ops e (g m) pc = Some (m', pc')"
    have "unlocked (snd (g m)) tid = unlocked (snd m) tid" using bspec[OF mine e] by (cases m) simp
    then have Ig: "I (g m) pc" using I by (cases pc) (auto simp: I_def)
    have ul: "\<exists>u1. unlocked (cond_unlock tid (Some unlock) f) tid = snd (unlock u1)" for f
      by (auto simp: cond_unlock_def Let_def split: prod.splits intro: exI[of _ "user f"])
    show "I m' pc'"
      using st Ig ul
      by (cases pc) (auto simp: I_def cond_defs woken_def cas_iff
          split: env.splits if_splits option.splits)
  qed
  then obtain u1 where "err = 0 \<or> err = - 1" and u1: "unlocked (snd m1) tid = snd (unlock u1)"
    by (auto simp: I_def w_returned_iff)
  moreover have "timeout_opt = None \<Longrightarrow> err = 0"
    by (rule run_wait_forever[OF run, where Q = "\<lambda>r m. r = 0"]) (auto simp: cond_defs split: if_splits)
  ultimately show ?thesis by blast
qed

text \<open>The callbacks of \<open>_MCF_cond_wait\<close>. If no other thread writes this thread's local
  variable, then the relock callback is the last thing that happens, and the value it is
  given is one that this call's unlock callback returned. The result is 0 or -1, and 0 when
  there is no timeout.\<close>

theorem cond_wait_callbacks:
  assumes call: "MCF_cond_wait tid (Some unlock) (Some relock) timeout_opt sch m = Some (err, m', sch')"
    and mine: "\<forall>(e, g) \<in> set sch. \<forall>m. unlocked (snd (g m)) tid = unlocked (snd m) tid"
  shows "(\<exists>u1 u3. user (snd m') = relock u3 (snd (unlock u1)) \<and> unlocked (snd m') tid = snd (unlock u1))
       \<and> (err = 0 \<or> err = - 1 \<and> timeout_opt \<noteq> None)"
proof -
  obtain m1 where run: "run_wait (do_unlock_and_wait tid (Some unlock)) sch m (WInit timeout_opt) = Some (err, m1, sch')"
    and m': "m' = (fst m1, (snd m1)\<lparr>user := relock (user (snd m1)) (unlocked (snd m1) tid)\<rparr>)"
    using call by (auto simp: MCF_cond_wait_def split: option.splits)
  obtain u1 where u1: "unlocked (snd m1) tid = snd (unlock u1)" using cond_wait_run[OF run mine] by blast
  have "user (snd m') = relock (user (snd m1)) (snd (unlock u1))" "unlocked (snd m') tid = snd (unlock u1)"
    by (simp_all add: m' u1)
  with cond_wait_run[OF run mine] show ?thesis by blast
qed

lemma cond_wait_callbacks_witness:
  "case MCF_cond_wait 0 (Some (\<lambda>u :: int. (u + 1, 5))) (Some (\<lambda>u r. u * 10 + uint r)) None
       (alone [Clock 0, Step, Step, Step, Sys False 0, Wake]) (MCF_cond_init, \<lparr>user = 7, unlocked = \<lambda>_. 0\<rparr>) of
     None \<Rightarrow> False
   | Some (err, m', _) \<Rightarrow> err = 0 \<and> (\<exists>u3. user (snd m') = u3 * 10 + 5)"
proof (rule result_witness)
  show "case MCF_cond_wait 0 (Some (\<lambda>u :: int. (u + 1, 5))) (Some (\<lambda>u r. u * 10 + uint r)) None
       (alone [Clock 0, Step, Step, Step, Sys False 0, Wake]) (MCF_cond_init, \<lparr>user = 7, unlocked = \<lambda>_. 0\<rparr>) of
     None \<Rightarrow> False | Some _ \<Rightarrow> True"
    by (simp add: MCF_cond_wait_def cond_defs MCF_cond_init_def cond_unlock_def check_wait_safety_def woken_def)
  show "r = 0 \<and> (\<exists>u3. user (snd m) = u3 * 10 + 5)"
    if "MCF_cond_wait 0 (Some (\<lambda>u :: int. (u + 1, 5))) (Some (\<lambda>u r. u * 10 + uint r)) None
       (alone [Clock 0, Step, Step, Step, Sys False 0, Wake]) (MCF_cond_init, \<lparr>user = 7, unlocked = \<lambda>_. 0\<rparr>)
       = Some (r, m, s)" for r m s
    using cond_wait_callbacks[OF that] by (auto simp: alone_def)
qed

end
