(* ===== verification/Mcf_Clock.thy ===== *)
theory Mcf_Clock
  imports Mcf_Prelude
begin

text \<open>
  The clocks of \<open>src/clock.c\<close>. The reading that the system gives, in units of 100
  nanoseconds, is an argument. The clocks that return an integer divide it by 10000 with
  a multiplication; there is a version for compilers that have a 128-bit product and a
  portable one. The clocks that return a \<open>double\<close> are not modelled.
\<close>

section \<open>Division by 10000\<close>

definition do_divide_by_10000_wide :: "u64 \<Rightarrow> u64" where
  "do_divide_by_10000_wide value = ucast (drop_bit 64 ((ucast value :: 128 word) * 0x68DB8BAC710CC))"

definition do_divide_by_10000 :: "u64 \<Rightarrow> u64" where
  "do_divide_by_10000 value =
     (let lo = ucast (ucast value :: u32) :: u64;
          hi = drop_bit 32 value;
          x0 = drop_bit 32 (lo * 0xBAC710CC);
          x1 = lo * 0x68DB8;
          x2 = drop_bit 32 (hi * 0xBAC710CC + ucast (ucast x1 :: u32) + x0)
      in hi * 0x68DB8 + x2 + drop_bit 32 x1)"

section \<open>The clocks\<close>

definition MCF_utc_now :: "u64 \<Rightarrow> i64" where
  "MCF_utc_now ull = do_divide_by_10000 (ull - 116444736000000000)"

definition MCF_steady_now :: "u64 \<Rightarrow> i64" where
  "MCF_steady_now ull = do_divide_by_10000 ull"

definition MCF_tick_count :: "u64 \<Rightarrow> i64" where
  "MCF_tick_count ull = do_divide_by_10000 ull"

section \<open>What the multiplication computes\<close>

lemma unat_times [word_facts]:
  fixes x y :: "'a::len word"
  shows "unat x * unat y < 2 ^ LENGTH('a) \<Longrightarrow> unat (x * y) = unat x * unat y"
  by (simp add: unat_mult_lem)

lemma unat_plus [word_facts]:
  fixes x y :: "'a::len word"
  shows "unat x + unat y < 2 ^ LENGTH('a) \<Longrightarrow> unat (x + y) = unat x + unat y"
  by (simp add: unat_add_lem)

lemma low_half: "unat (ucast (ucast (x :: u64) :: u32) :: u64) = unat x mod 2 ^ 32"
proof -
  have "unat (ucast (ucast x :: u32) :: u64) = unat (ucast x :: u32)" by (rule unat_ucast_up) simp
  also have "\<dots> = unat x mod 2 ^ 32" by (simp only: unsigned_ucast_eq take_bit_nat_def) simp
  finally show ?thesis .
qed

lemma wide_product: "unat (do_divide_by_10000_wide v) = unat v * 1844674407370956 div 2 ^ 64"
proof -
  have b: "unat v < 2 ^ 64" using unat_less_bound[of v] by simp
  then have "unat (ucast v :: 128 word) * unat (0x68DB8BAC710CC :: 128 word) < 2 ^ LENGTH(128)"
    by (simp add: unat_ucast_up)
  from unat_times[OF this]
  have p: "unat ((ucast v :: 128 word) * 0x68DB8BAC710CC) = unat v * 1844674407370956"
    by (simp add: unat_ucast_up)
  have "unat v * 1844674407370956 div 2 ^ 64 < 2 ^ 64"
    using b by (simp add: less_mult_imp_div_less)
  then show ?thesis
    unfolding do_divide_by_10000_wide_def
    by (simp add: unsigned_ucast_eq take_bit_eq_mod unat_drop p)
qed

text \<open>School multiplication of \<open>h * 2^32 + l\<close> by \<open>a * 2^32 + b\<close>, from the bit \<open>64\<close> on.\<close>

lemma school_product:
  fixes h l a b w :: nat
  assumes "0 < w"
  shows "(h * w + l) * (a * w + b) div (w * w) =
    h * a + (h * b + (l * a mod w) + l * b div w) div w + l * a div w"
proof -
  have "(h * w + l) * (a * w + b) = (h * a * w + (h * b + l * a)) * w + l * b"
    by (simp add: algebra_simps)
  then have "(h * w + l) * (a * w + b) div w = h * a * w + (h * b + l * a) + l * b div w"
    using assms by (simp only: div_mult_self3[of w] add.commute) simp
  also have "\<dots> = (h * a + l * a div w) * w + (h * b + l * a mod w + l * b div w)"
    using div_mult_mod_eq[of "l * a" w] by (simp add: algebra_simps)
  finally show ?thesis
    using assms by (simp add: div_mult2_eq)
qed

lemma portable_product:
  "unat (do_divide_by_10000 v) = unat v * 1844674407370956 div 2 ^ 64"
proof -
  define h l where "h = unat v div 2 ^ 32" and "l = unat v mod 2 ^ 32"
  have v: "unat v = h * 2 ^ 32 + l" unfolding h_def l_def by simp
  have h: "h < 2 ^ 32" unfolding h_def using unat_less_bound[of v] by (simp add: less_mult_imp_div_less)
  have l: "l < 2 ^ 32" unfolding l_def by simp
  define lo where "lo = (ucast (ucast v :: u32) :: u64)"
  define hi where "hi = drop_bit 32 v"
  have lo: "unat lo = l" unfolding lo_def l_def by (rule low_half)
  have hi: "unat hi = h" unfolding hi_def h_def by (rule unat_drop)
  have x0: "unat (drop_bit 32 (lo * 0xBAC710CC)) = l * 3133608140 div 2 ^ 32"
    using l by (simp add: unat_drop unat_times lo)
  have x1: "unat (lo * 0x68DB8) = l * 429496" using l by (simp add: unat_times lo)
  have y: "unat (ucast (ucast (lo * 0x68DB8) :: u32) :: u64) = l * 429496 mod 2 ^ 32"
    by (simp only: low_half x1)
  have p: "unat (hi * 0xBAC710CC) = h * 3133608140" using h by (simp add: unat_times hi)
  have q: "l * 3133608140 div 2 ^ 32 < 2 ^ 32" using l by (simp add: less_mult_imp_div_less)
  have r: "l * 429496 mod 2 ^ 32 < 2 ^ 32" by simp
  have s: "unat (hi * 0xBAC710CC + ucast (ucast (lo * 0x68DB8) :: u32)) = h * 3133608140 + l * 429496 mod 2 ^ 32"
    using h r by (subst unat_plus) (simp_all add: p y)
  have t: "unat (hi * 0xBAC710CC + ucast (ucast (lo * 0x68DB8) :: u32) + drop_bit 32 (lo * 0xBAC710CC)) =
      h * 3133608140 + l * 429496 mod 2 ^ 32 + l * 3133608140 div 2 ^ 32"
    using h r q by (subst unat_plus) (simp_all add: s x0)
  have x2: "unat (drop_bit 32 (hi * 0xBAC710CC + ucast (ucast (lo * 0x68DB8) :: u32) + drop_bit 32 (lo * 0xBAC710CC))) =
      (h * 3133608140 + l * 429496 mod 2 ^ 32 + l * 3133608140 div 2 ^ 32) div 2 ^ 32" (is "_ = ?x2")
    by (simp only: unat_drop t)
  have c: "?x2 < 2 ^ 32" using h q r by (simp add: less_mult_imp_div_less)
  have d: "l * 429496 div 2 ^ 32 < 2 ^ 32" using l by (simp add: less_mult_imp_div_less)
  have u: "unat (hi * 0x68DB8) = h * 429496" using h by (simp add: unat_times hi)
  have w: "unat (drop_bit 32 (lo * 0x68DB8)) = l * 429496 div 2 ^ 32" by (simp only: unat_drop x1)
  have z: "unat (hi * 0x68DB8 + drop_bit 32 (hi * 0xBAC710CC + ucast (ucast (lo * 0x68DB8) :: u32) + drop_bit 32 (lo * 0xBAC710CC)))
      = h * 429496 + ?x2"
    using h c by (subst unat_plus) (simp_all only: u x2, simp)
  have "unat (do_divide_by_10000 v) = h * 429496 + ?x2 + l * 429496 div 2 ^ 32"
    unfolding do_divide_by_10000_def Let_def lo_def[symmetric] hi_def[symmetric]
    using h c d by (subst unat_plus) (simp_all only: z w, simp)
  also have "\<dots> = (h * 2 ^ 32 + l) * (429496 * 2 ^ 32 + 3133608140) div (2 ^ 32 * 2 ^ 32)"
    by (rule school_product[symmetric]) simp
  also have "\<dots> = unat v * 1844674407370956 div 2 ^ 64"
    unfolding v by simp
  finally show ?thesis .
qed

text \<open>The multiplier exceeds \<open>2^64 / 10000\<close> by \<open>8384 / (10000 * 2^64)\<close> of it.\<close>

lemma multiply_rounds_up:
  fixes v :: nat
  assumes "v < 2 ^ 64"
  shows "v * 1844674407370956 div 2 ^ 64 =
    v div 10000 + of_bool (10000 * 2 ^ 64 \<le> (v mod 10000) * 2 ^ 64 + v * 8384)"
proof -
  define r where "r = (v mod 10000) * 2 ^ 64 + v * 8384"
  have "v * 1844674407370956 div 2 ^ 64 = 10000 * (v * 1844674407370956) div (10000 * 2 ^ 64)"
    by (simp only: div_mult_mult1)
  also have "10000 * (v * 1844674407370956) = (v div 10000) * (10000 * 2 ^ 64) + r"
  proof -
    define q m where "q = v div 10000" and "m = v mod 10000"
    have "v = q * 10000 + m" unfolding q_def m_def by simp
    then show ?thesis unfolding r_def q_def[symmetric] m_def[symmetric] by simp
  qed
  also have "\<dots> div (10000 * 2 ^ 64) = v div 10000 + r div (10000 * 2 ^ 64)"
    by (subst div_mult_self3) simp_all
  also have "r div (10000 * 2 ^ 64) = of_bool (10000 * 2 ^ 64 \<le> r)"
  proof -
    have "v mod 10000 \<le> 9999" using mod_less_divisor[of 10000 v] by linarith
    then have "r < 2 * (10000 * 2 ^ 64)" unfolding r_def using assms by simp
    then show ?thesis by (auto simp: div_nat_eqI not_le)
  qed
  finally show ?thesis by (simp only: r_def)
qed

lemma divide_exact: "unat v < 2200231879020701 \<Longrightarrow> unat (do_divide_by_10000 v) = unat v div 10000"
proof -
  assume "unat v < 2200231879020701"
  moreover have "unat v mod 10000 \<le> 9999" using mod_less_divisor[of 10000 "unat v"] by linarith
  ultimately show ?thesis
    unfolding portable_product by (subst multiply_rounds_up) auto
qed

text \<open>C35. The two versions of the division by 10000 agree on every reading. The clocks of the
  time since startup return the quotient rounded down, or one more, and it is one more just when
  the remainder comes within \<open>reading * 8384 / 2^64\<close> of 10000. The UTC clock is the same function
  of the time since 1970, for which this does happen: the last conjunct is a reading of the
  year 2024 whose result is one millisecond ahead.\<close>

theorem clock_milliseconds:
  "do_divide_by_10000 ull = do_divide_by_10000_wide ull \<and>
   unat (MCF_tick_count ull) = unat ull div 10000 +
     of_bool (10000 * 2 ^ 64 \<le> (unat ull mod 10000) * 2 ^ 64 + unat ull * 8384) \<and>
   MCF_steady_now ull = MCF_tick_count ull \<and>
   MCF_utc_now (ull + 116444736000000000) = MCF_tick_count ull \<and>
   MCF_utc_now (116444736000000000 + 17200000000009993) = 1720000000001"
proof (intro conjI)
  show "do_divide_by_10000 ull = do_divide_by_10000_wide ull"
    by (simp only: word_unat_eq_iff portable_product wide_product)
  have "unat ull < 2 ^ 64" using unat_less_bound[of ull] by simp
  then show "unat (MCF_tick_count ull) = unat ull div 10000 +
     of_bool (10000 * 2 ^ 64 \<le> (unat ull mod 10000) * 2 ^ 64 + unat ull * 8384)"
    unfolding MCF_tick_count_def portable_product by (rule multiply_rounds_up)
  show "MCF_utc_now (116444736000000000 + 17200000000009993) = 1720000000001"
    unfolding word_unat_eq_iff MCF_utc_now_def portable_product by simp
qed (simp_all add: MCF_steady_now_def MCF_tick_count_def MCF_utc_now_def)

end
