(* ===== verification/Mcf_Memory.thy ===== *)
theory Mcf_Memory
  imports Mcf_Prelude
begin

text \<open>
  Blocks of memory: the copying, filling and comparing of \<open>src/xglobals.h\<close> and the C
  library functions that \<open>src/xglobals.c\<close> builds on them for a DLL. A memory maps every
  address to a byte; addresses wrap as the pointers of the code do. The string instructions
  (\<open>rep movsb\<close>, \<open>rep stosb\<close>, \<open>repz cmpsb\<close>) are loops over one byte at a time. The result
  \<open>None\<close> is a failed \<open>__MCF_ASSERT\<close>.
\<close>

type_synonym memory = "uptr \<Rightarrow> u8"

section \<open>Copying\<close>

fun copy_up :: "nat \<Rightarrow> uptr \<Rightarrow> uptr \<Rightarrow> memory \<Rightarrow> memory" where
  "copy_up 0 dst src m = m"
| "copy_up (Suc n) dst src m = copy_up n (dst + 1) (src + 1) (m(dst := m src))"

fun copy_down :: "nat \<Rightarrow> uptr \<Rightarrow> uptr \<Rightarrow> memory \<Rightarrow> memory" where
  "copy_down 0 dst src m = m"
| "copy_down (Suc n) dst src m = copy_down n (dst - 1) (src - 1) (m(dst := m src))"

definition MCF_mcopy :: "uptr \<Rightarrow> uptr \<Rightarrow> uptr \<Rightarrow> memory \<Rightarrow> memory option" where
  "MCF_mcopy dst src n m = (if dst - src \<ge> n then Some (copy_up (unat n) dst src m) else None)"

definition MCF_mcopy_backward :: "uptr \<Rightarrow> uptr \<Rightarrow> uptr \<Rightarrow> memory \<Rightarrow> memory option" where
  "MCF_mcopy_backward dst src n m =
     (if src - dst \<ge> n then Some (copy_down (unat n) (dst + n - 1) (src + n - 1) m) else None)"

definition memcpy :: "uptr \<Rightarrow> uptr \<Rightarrow> uptr \<Rightarrow> memory \<Rightarrow> memory option" where
  "memcpy dst src n m = MCF_mcopy dst src n m"

definition memmove :: "uptr \<Rightarrow> uptr \<Rightarrow> uptr \<Rightarrow> memory \<Rightarrow> memory option" where
  "memmove dst src n m =
     (if dst - src \<ge> n then MCF_mcopy dst src n m else MCF_mcopy_backward dst src n m)"

section \<open>Filling\<close>

fun fill_up :: "nat \<Rightarrow> uptr \<Rightarrow> u8 \<Rightarrow> memory \<Rightarrow> memory" where
  "fill_up 0 dst v m = m"
| "fill_up (Suc n) dst v m = fill_up n (dst + 1) v (m(dst := v))"

definition MCF_mfill :: "uptr \<Rightarrow> i32 \<Rightarrow> uptr \<Rightarrow> memory \<Rightarrow> memory" where
  "MCF_mfill dst val n m = fill_up (unat n) dst (ucast val) m"

definition MCF_mzero :: "uptr \<Rightarrow> uptr \<Rightarrow> memory \<Rightarrow> memory" where
  "MCF_mzero dst n m = fill_up (unat n) dst 0 m"

definition memset :: "uptr \<Rightarrow> i32 \<Rightarrow> uptr \<Rightarrow> memory \<Rightarrow> memory" where
  "memset dst val n m = MCF_mfill dst val n m"

section \<open>Comparing\<close>

text \<open>The portable loop returns the difference of the first two bytes that differ.\<close>

fun MCF_do_std_compare :: "nat \<Rightarrow> uptr \<Rightarrow> uptr \<Rightarrow> int \<Rightarrow> memory \<Rightarrow> int" where
  "MCF_do_std_compare 0 sptr cptr diff m = diff"
| "MCF_do_std_compare (Suc n) sptr cptr diff m =
     (if diff = 0 then
        MCF_do_std_compare n (sptr + 1) (cptr + 1) (uint (m sptr) - uint (m cptr)) m
      else diff)"

text \<open>The x86 sequence: \<open>repz cmpsb\<close> stops after the first two bytes that differ and leaves
  the zero flag and the carry flag of that comparison, from \<open>ZF = 1\<close> and \<open>CF = 0\<close> on.\<close>

fun repz_cmpsb :: "nat \<Rightarrow> uptr \<Rightarrow> uptr \<Rightarrow> bool \<times> bool \<Rightarrow> memory \<Rightarrow> bool \<times> bool" where
  "repz_cmpsb 0 esi edi flags m = flags"
| "repz_cmpsb (Suc n) esi edi flags m =
     (let zf = m esi = m edi; cf = m esi < m edi in
      if zf then repz_cmpsb n (esi + 1) (edi + 1) (zf, cf) m else (zf, cf))"

definition MCF_mcompare :: "uptr \<Rightarrow> uptr \<Rightarrow> uptr \<Rightarrow> memory \<Rightarrow> i32" where
  "MCF_mcompare src cmp n m =
     (let (zf, cf) = repz_cmpsb (unat n) src cmp (True, False) m;
          eax = (if zf then 0 else 1);
          ecx = (if cf then - 1 else 0)
      in eax OR ecx)"

definition MCF_mequal :: "uptr \<Rightarrow> uptr \<Rightarrow> uptr \<Rightarrow> memory \<Rightarrow> bool" where
  "MCF_mequal src cmp n m = fst (repz_cmpsb (unat n) src cmp (True, False) m)"

definition memcmp :: "uptr \<Rightarrow> uptr \<Rightarrow> uptr \<Rightarrow> memory \<Rightarrow> i32" where
  "memcmp src dst n m = MCF_mcompare src dst n m"

section \<open>A block of memory\<close>

definition block :: "memory \<Rightarrow> uptr \<Rightarrow> nat \<Rightarrow> u8 list" where
  "block m p n = map (\<lambda>k. m (p + of_nat k)) [0..<n]"

definition outside :: "uptr \<Rightarrow> nat \<Rightarrow> uptr \<Rightarrow> bool" where
  "outside p n a \<longleftrightarrow> (\<forall>k<n. a \<noteq> p + of_nat k)"

lemma length_block [simp]: "length (block m p n) = n"
  by (simp add: block_def)

lemma block_0 [simp]: "block m p 0 = []"
  by (simp add: block_def)

lemma block_Suc [simp]: "block m p (Suc n) = m p # block m (p + 1) n"
  unfolding block_def by (simp only: upt_conv_Cons map_Suc_upt[symmetric] zero_less_Suc)
    (simp add: add.assoc comp_def)

lemma outside_Suc [simp]: "outside p (Suc n) a \<longleftrightarrow> a \<noteq> p \<and> outside (p + 1) n a"
  unfolding outside_def by (simp add: All_less_Suc2 algebra_simps)

lemma outside_0 [simp]: "outside p 0 a"
  by (simp add: outside_def)

lemma outside_snoc: "outside p (Suc n) a \<longleftrightarrow> outside p n a \<and> a \<noteq> p + of_nat n"
  unfolding outside_def by (auto simp: less_Suc_eq)

lemma block_snoc: "block m p (Suc n) = block m p n @ [m (p + of_nat n)]"
  unfolding block_def by simp

lemma block_upd [simp]: "outside p n a \<Longrightarrow> block (m(a := v)) p n = block m p n"
  unfolding block_def outside_def by auto

lemma of_nat_far: "n \<le> unat (x :: uptr) \<Longrightarrow> k < n \<Longrightarrow> x \<noteq> of_nat k"
  by (metis le_unat_uoi less_imp_le less_le_trans nless_le)

text \<open>An address that is at least \<open>n\<close> above \<open>p\<close>, counted around, is outside of the \<open>n\<close> bytes
  at \<open>p\<close>.\<close>

lemma outside_far: "n \<le> unat (a - p) \<Longrightarrow> outside p n a"
  unfolding outside_def by (metis add_diff_cancel_left' of_nat_far)

lemma outside_behind: "n \<le> unat (p - a) \<Longrightarrow> k < n \<Longrightarrow> outside p k (a + of_nat k)"
proof -
  assume far: "n \<le> unat (p - a)" "k < n"
  have "a + of_nat k \<noteq> p + of_nat j" if "j < k" for j
  proof
    assume "a + of_nat k = p + of_nat j"
    then have "p - a = of_nat k - of_nat j" by (simp add: algebra_simps)
    also have "\<dots> = of_nat (k - j)" using that by (simp add: of_nat_diff)
    finally show False using of_nat_far[OF far(1), of "k - j"] far(2) by simp
  qed
  then show ?thesis by (simp add: outside_def)
qed

lemma outside_next: "n < 2 ^ 64 \<Longrightarrow> outside (p + 1) n p"
proof -
  have "unat (p - (p + 1)) = 2 ^ 64 - 1" by (simp add: unsigned_minus_1_eq_mask mask_eq_exp_minus_1)
  then show "n < 2 ^ 64 \<Longrightarrow> ?thesis" by (intro outside_far) linarith
qed

section \<open>What copying does\<close>

lemma copy_up_outside: "outside dst n a \<Longrightarrow> copy_up n dst src m a = m a"
  by (induction n arbitrary: dst src m) auto

lemma copy_down_outside: "outside dst n a \<Longrightarrow> copy_down n (dst + of_nat n - 1) (src + of_nat n - 1) m a = m a"
proof (induction n arbitrary: m)
  case (Suc n)
  then show ?case
    by (simp add: outside_snoc algebra_simps del: outside_Suc)
qed simp

lemma copy_up_block: "n \<le> unat (dst - src) \<Longrightarrow> block (copy_up n dst src m) dst n = block m src n"
proof (induction n arbitrary: dst src m)
  case (Suc n)
  have pos: "dst - src \<noteq> 0" using Suc.prems by auto
  have "unat (dst - (src + 1)) = unat (dst - src - 1)" by (simp add: algebra_simps)
  also have "\<dots> = unat (dst - src) - 1" using unat_minus_one'[OF pos] by linarith
  finally have 1: "outside (src + 1) n dst" using Suc.prems by (intro outside_far) linarith
  have "unat (dst - src) < 2 ^ 64" using unat_less_bound[of "dst - src"] by simp
  then have 2: "outside (dst + 1) n dst" using Suc.prems by (intro outside_next) linarith
  have "block (copy_up n (dst + 1) (src + 1) (m(dst := m src))) (dst + 1) n
      = block (m(dst := m src)) (src + 1) n"
    using Suc.prems by (intro Suc.IH) simp
  with 1 2 show ?case by (simp add: copy_up_outside)
qed simp

lemma copy_down_block:
  "n \<le> unat (src - dst) \<Longrightarrow>
   block (copy_down n (dst + of_nat n - 1) (src + of_nat n - 1) m) dst n = block m src n"
proof (induction n arbitrary: m)
  case (Suc n)
  have 1: "outside src n (dst + of_nat n)" by (rule outside_behind[OF Suc.prems]) simp
  have "unat (src - dst) < 2 ^ 64" using unat_less_bound[of "src - dst"] by simp
  then have "unat (of_nat n :: uptr) = n" using Suc.prems by (simp add: unat_of_nat)
  then have 2: "outside dst n (dst + of_nat n)" by (intro outside_far) simp
  have "block (copy_down n (dst + of_nat n - 1) (src + of_nat n - 1)
      (m(dst + of_nat n := m (src + of_nat n)))) dst n = block m src n"
    using Suc.IH[of "m(dst + of_nat n := m (src + of_nat n))"] Suc.prems 1
    by (simp del: fun_upd_apply)
  with 2 show ?case
    by (simp add: block_snoc copy_down_outside algebra_simps del: block_Suc)
qed simp

lemma mcopy_moves:
  "n \<le> dst - src \<Longrightarrow> \<exists>m'. MCF_mcopy dst src n m = Some m' \<and>
     block m' dst (unat n) = block m src (unat n) \<and> (\<forall>a. outside dst (unat n) a \<longrightarrow> m' a = m a)"
  by (auto simp: MCF_mcopy_def copy_up_block copy_up_outside word_le_nat_alt)

lemma mcopy_backward_moves:
  "n \<le> src - dst \<Longrightarrow> \<exists>m'. MCF_mcopy_backward dst src n m = Some m' \<and>
     block m' dst (unat n) = block m src (unat n) \<and> (\<forall>a. outside dst (unat n) a \<longrightarrow> m' a = m a)"
  using copy_down_block[of "unat n" src dst m] copy_down_outside[of dst "unat n" _ src m]
  by (auto simp: MCF_mcopy_backward_def word_le_nat_alt)

text \<open>Regions that do not wrap: when the distance from \<open>src\<close> up to \<open>dst\<close> is short, the one from
  \<open>dst\<close> around to \<open>src\<close> is not.\<close>

lemma other_way:
  fixes dst src n :: uptr
  assumes "dst \<noteq> src" "unat dst + unat n \<le> 2 ^ 64" "unat src + unat n \<le> 2 ^ 64" "\<not> n \<le> dst - src"
  shows "n \<le> src - dst"
proof -
  have "unat dst \<noteq> unat src" using assms(1) by (simp add: word_unat_eq_iff)
  then show ?thesis
    using assms(2-4) unat_less_bound[of src] unat_less_bound[of dst]
    by (auto simp: word_le_nat_alt unat_sub_if' split: if_splits)
qed

text \<open>C34. \<open>memmove\<close> on two regions of the address space that start at different addresses: the
  bytes at the destination become what the source held before the call, overlapping or not, and
  nothing else changes; no assertion fails. A non-empty block that is moved onto itself, which C
  allows, fails the assertion of \<open>__MCF_mcopy_backward\<close>: the distance is zero both ways.\<close>

theorem memmove_moves:
  assumes "unat dst + unat n \<le> 2 ^ 64" "unat src + unat n \<le> 2 ^ 64"
  shows "case memmove dst src n m of
      None \<Rightarrow> dst = src \<and> n \<noteq> 0
    | Some m' \<Rightarrow> (dst \<noteq> src \<or> n = 0) \<and> block m' dst (unat n) = block m src (unat n) \<and>
        (\<forall>a. outside dst (unat n) a \<longrightarrow> m' a = m a)"
proof (cases "dst = src")
  case True
  then show ?thesis
    by (simp add: memmove_def MCF_mcopy_def MCF_mcopy_backward_def word_le_nat_alt unat_eq_0)
next
  case ne: False
  show ?thesis
  proof (cases "n \<le> dst - src")
    case True
    from mcopy_moves[OF this, of m] ne True show ?thesis by (auto simp: memmove_def)
  next
    case False
    from mcopy_backward_moves[OF other_way[OF ne assms False], of m] ne False show ?thesis
      by (auto simp: memmove_def)
  qed
qed

definition numbers :: memory where
  "numbers a = ucast a"

theorem memmove_moves_witness:
  "case memmove 18 16 4 numbers of
      None \<Rightarrow> (18 :: uptr) = 16 \<and> (4 :: uptr) \<noteq> 0
    | Some m' \<Rightarrow> ((18 :: uptr) \<noteq> 16 \<or> (4 :: uptr) = 0) \<and> block m' 18 (unat (4 :: uptr)) = block numbers 16 (unat (4 :: uptr)) \<and>
        (\<forall>a. outside 18 (unat (4 :: uptr)) a \<longrightarrow> m' a = numbers a)"
  by (rule memmove_moves) simp_all

section \<open>What comparing does\<close>

lemma std_compare_sign: "diff \<noteq> 0 \<Longrightarrow> MCF_do_std_compare n s c diff m = diff"
  by (cases n) auto

lemma repz_cmpsb_sign:
  "repz_cmpsb n s c (True, False) m =
    (MCF_do_std_compare n s c 0 m = 0, MCF_do_std_compare n s c 0 m < 0)"
proof (induction n arbitrary: s c)
  case (Suc n)
  show ?case
  proof (cases "m s = m c")
    case True
    with Suc show ?thesis by (simp add: Let_def)
  next
    case False
    then have "uint (m s) - uint (m c) \<noteq> 0" by (simp add: word_uint_eq_iff)
    with False show ?thesis by (simp add: Let_def std_compare_sign word_less_def)
  qed
qed simp

lemma std_compare_equal: "MCF_do_std_compare n s c 0 m = 0 \<longleftrightarrow> block m s n = block m c n"
proof (induction n arbitrary: s c)
  case (Suc n)
  show ?case
  proof (cases "m s = m c")
    case True
    with Suc show ?thesis by simp
  next
    case False
    then have "uint (m s) - uint (m c) \<noteq> 0" by (simp add: word_uint_eq_iff)
    with False show ?thesis by (simp add: std_compare_sign)
  qed
qed simp

lemma std_compare_less:
  "MCF_do_std_compare n s c 0 m < 0 \<longleftrightarrow> (block m s n, block m c n) \<in> lexord {(x, y). x < y}"
proof (induction n arbitrary: s c)
  case (Suc n)
  show ?case
  proof (cases "m s = m c")
    case True
    with Suc show ?thesis by simp
  next
    case False
    then have "uint (m s) - uint (m c) \<noteq> 0" by (simp add: word_uint_eq_iff)
    with False show ?thesis by (simp add: std_compare_sign word_less_def)
  qed
qed simp

text \<open>\<open>memcmp\<close> on x86 is the sign of the portable loop: 0 on equal blocks, -1 when the first
  block comes before the second in the dictionary order of bytes, 1 otherwise; and
  \<open>__MCF_mequal\<close> tells whether the blocks are equal.\<close>

theorem memcmp_orders:
  "sint (memcmp src cmp n m) =
     (if block m src (unat n) = block m cmp (unat n) then 0
      else if (block m src (unat n), block m cmp (unat n)) \<in> lexord {(x, y). x < y} then - 1 else 1) \<and>
   sint (memcmp src cmp n m) = sgn (MCF_do_std_compare (unat n) src cmp 0 m) \<and>
   (MCF_mequal src cmp n m \<longleftrightarrow> block m src (unat n) = block m cmp (unat n))"
proof -
  have "MCF_do_std_compare (unat n) src cmp 0 m < 0 \<Longrightarrow> MCF_do_std_compare (unat n) src cmp 0 m \<noteq> 0"
    by simp
  then show ?thesis
    unfolding std_compare_equal[symmetric] std_compare_less[symmetric] memcmp_def MCF_mcompare_def
      MCF_mequal_def repz_cmpsb_sign
    by (auto simp: Let_def)
qed

section \<open>What filling does\<close>

lemma fill_up_outside: "outside p n a \<Longrightarrow> fill_up n p v m a = m a"
  by (induction n arbitrary: p m) auto

lemma fill_up_block: "n < 2 ^ 64 \<Longrightarrow> block (fill_up n p v m) p n = replicate n v"
proof (induction n arbitrary: p m)
  case (Suc n)
  then have "outside (p + 1) n p" by (intro outside_next) simp
  with Suc show ?case by (simp add: fill_up_outside)
qed simp

lemma memset_fills:
  "block (memset dst val n m) dst (unat n) = replicate (unat n) (ucast val)"
  "outside dst (unat n) a \<Longrightarrow> memset dst val n m a = m a"
  using unat_less_bound[of n]
  by (simp_all add: memset_def MCF_mfill_def fill_up_block fill_up_outside)

lemma mzero_fills:
  "block (MCF_mzero dst n m) dst (unat n) = replicate (unat n) 0"
  "outside dst (unat n) a \<Longrightarrow> MCF_mzero dst n m a = m a"
  using unat_less_bound[of n]
  by (simp_all add: MCF_mzero_def fill_up_block fill_up_outside)

end
