(* ===== verification/Dtor_Queue.thy ===== *)
theory Dtor_Queue
  imports Mcf_Prelude
begin

text \<open>
  The destructor queue of \<open>dtor_queue.h\<close> and \<open>src/dtor_queue.c\<close>: a singly-linked list of blocks
  of 63 callbacks. A pointer is its address; the list is owned by its first block, so a
  \<open>__prev\<close> pointer is the block behind it and copying that block over the first one and
  freeing it is dropping the first. Whether \<open>__MCF_malloc_copy\<close> finds memory is an argument.

  The abstraction is the list of the callbacks in the order of registration. The locale
  \<open>dtor_store\<close> is the contract that the exit machinery relies on.
\<close>

section \<open>Data\<close>

record dtor_element =
  dtor_fn :: uptr
  dtor_this :: uptr
  dtor_dso :: uptr

datatype dtor_queue =
  Dtor_queue (dq_prev: "dtor_queue option") (dq_size: u32) (dq_data: "dtor_element list")

definition dq_capacity :: u32 where
  "dq_capacity = 63"

text \<open>Storage that is all zeroes, as for the queues in the global data.\<close>

definition dtor_queue_zero :: dtor_queue where
  "dtor_queue_zero = Dtor_queue None 0 (replicate 63 \<lparr>dtor_fn = 0, dtor_this = 0, dtor_dso = 0\<rparr>)"

section \<open>Operations\<close>

definition MCF_dtor_queue_reserve_and_push ::
    "bool \<Rightarrow> dtor_queue \<Rightarrow> u32 \<Rightarrow> dtor_element option \<Rightarrow> int \<times> dtor_queue" where
  "MCF_dtor_queue_reserve_and_push memory queue reservation elem_opt =
     (case elem_opt of
        None \<Rightarrow> (- 1, queue)
      | Some elem \<Rightarrow>
          if reservation < 1 \<or> reservation > dq_capacity \<or> dtor_fn elem = 0 then (- 1, queue)
          else if reservation > dq_capacity - dq_size queue \<and> \<not> memory then (- 2, queue)
          else
            (let queue' =
               (if reservation > dq_capacity - dq_size queue
                then Dtor_queue (Some queue) 0 (dq_data queue) else queue);
                 index = dq_size queue'
             in (0, Dtor_queue (dq_prev queue') (dq_size queue' + 1)
                      ((dq_data queue')[unat index := elem]))))"

definition MCF_dtor_queue_push :: "bool \<Rightarrow> dtor_queue \<Rightarrow> dtor_element option \<Rightarrow> int \<times> dtor_queue" where
  "MCF_dtor_queue_push memory queue elem_opt =
     MCF_dtor_queue_reserve_and_push memory queue 1 elem_opt"

text \<open>The backward search of a block: the index wraps to \<open>UINT32_MAX\<close> when nothing is found.\<close>

function search_back :: "dtor_element list \<Rightarrow> uptr \<Rightarrow> u32 \<Rightarrow> u32" where
  "search_back data dso index =
     (if index \<noteq> - 1 \<and> dso \<noteq> dtor_dso (data ! unat index)
      then search_back data dso (index - 1) else index)"
  by auto
termination
proof (relation "measure (\<lambda>(data, dso, index). unat (index + 1))")
  fix data dso and index :: u32
  assume "index \<noteq> - 1 \<and> dso \<noteq> dtor_dso (data ! unat index)"
  then have "index + 1 \<noteq> 0" by (metis add_eq_0_iff2)
  from unat_minus_one'[OF this]
  show "((data, dso, index - 1), data, dso, index) \<in> measure (\<lambda>(data, dso, index). unat (index + 1))"
    by simp
qed simp

text \<open>The elements from \<open>src\<close> on move to \<open>dst\<close>, one after the other.\<close>

fun move_elements :: "nat \<Rightarrow> nat \<Rightarrow> nat \<Rightarrow> dtor_element list \<Rightarrow> dtor_element list" where
  "move_elements dst src 0 data = data"
| "move_elements dst src (Suc n) data = move_elements (Suc dst) (Suc src) n (data[dst := data ! src])"

fun dtor_queue_pop_common :: "uptr \<Rightarrow> dtor_queue \<Rightarrow> dtor_element option \<times> dtor_queue" where
  "dtor_queue_pop_common dso (Dtor_queue prev sz data) =
     (let index = (if dso \<noteq> 0 then search_back data dso (sz - 1) else sz - 1) in
      if index \<noteq> - 1 then
        (Some (data ! unat index),
         Dtor_queue prev (sz - 1)
           (if sz - 1 - index \<noteq> 0
            then move_elements (unat index) (unat (index + 1)) (unat (sz - 1 - index)) data
            else data))
      else
        (case prev of
           None \<Rightarrow> (None, Dtor_queue prev sz data)
         | Some p \<Rightarrow>
             if sz \<noteq> 0 then
               (let (r, p') = dtor_queue_pop_common dso p in (r, Dtor_queue (Some p') sz data))
             else dtor_queue_pop_common dso p))"

text \<open>The forward pass of a block, that keeps what does not match.\<close>

function keep_others :: "uptr \<Rightarrow> u32 \<Rightarrow> dtor_element list \<Rightarrow> u32 \<Rightarrow> u32 \<Rightarrow> dtor_element list \<times> u32" where
  "keep_others dso sz data index new_size =
     (let index' = index + 1 in
      if index' = sz then (data, new_size)
      else if dso \<noteq> dtor_dso (data ! unat index') then
        keep_others dso sz (data[unat new_size := data ! unat index']) index' (new_size + 1)
      else keep_others dso sz data index' new_size)"
  by auto
termination
proof (relation "measure (\<lambda>(dso, sz, data, index, new_size). unat (sz - (index + 1)))")
  fix sz index index' :: u32
  assume *: "index' = index + 1" "index' \<noteq> sz"
  then have "sz - (index + 1) \<noteq> 0" by simp
  from unat_minus_one'[OF this] have less: "unat (sz - (index' + 1)) < unat (sz - (index + 1))"
    unfolding *(1) by (simp add: algebra_simps)
  show "((dso, sz, data[unat new_size := data ! unat index'], index', new_size + 1),
      dso, sz, data, index, new_size) \<in> measure (\<lambda>(dso, sz, data, index, new_size). unat (sz - (index + 1)))"
    for dso and data :: "dtor_element list" and new_size :: u32
    using less by simp
  show "((dso, sz, data, index', new_size), dso, sz, data, index, new_size)
    \<in> measure (\<lambda>(dso, sz, data, index, new_size). unat (sz - (index + 1)))"
    for dso and data :: "dtor_element list" and new_size :: u32
    using less by simp
qed simp

fun dtor_queue_remove_common :: "uptr \<Rightarrow> u64 \<Rightarrow> dtor_queue \<Rightarrow> u64 \<times> dtor_queue" where
  "dtor_queue_remove_common dso npopped (Dtor_queue prev sz data) =
     (let (data', new_size) = (if dso \<noteq> 0 then keep_others dso sz data (- 1) 0 else (data, 0));
          npopped' = npopped + ucast (sz - new_size)
      in case prev of
           None \<Rightarrow> (npopped', Dtor_queue prev new_size data')
         | Some p \<Rightarrow>
             if new_size \<noteq> 0 then
               (let (n, p') = dtor_queue_remove_common dso npopped' p
                in (n, Dtor_queue (Some p') new_size data'))
             else dtor_queue_remove_common dso npopped' p)"

definition do_pop_element_common :: "bool \<Rightarrow> dtor_queue \<Rightarrow> uptr \<Rightarrow> u64 \<times> dtor_element option \<times> dtor_queue" where
  "do_pop_element_common out queue dso =
     (if out then
        (case dtor_queue_pop_common dso queue of
           (None, queue') \<Rightarrow> (0, None, queue')
         | (Some elem, queue') \<Rightarrow> (1, Some elem, queue'))
      else
        (case dtor_queue_remove_common dso 0 queue of (npopped, queue') \<Rightarrow> (npopped, None, queue')))"

definition MCF_dtor_queue_pop :: "bool \<Rightarrow> dtor_queue \<Rightarrow> uptr \<Rightarrow> i32 \<times> dtor_element option \<times> dtor_queue" where
  "MCF_dtor_queue_pop out queue dso =
     (case do_pop_element_common out queue dso of
        (npopped, elem, queue') \<Rightarrow> (ucast npopped - 1, elem, queue'))"

definition MCF_dtor_queue_remove :: "dtor_queue \<Rightarrow> uptr \<Rightarrow> u64 \<times> dtor_queue" where
  "MCF_dtor_queue_remove queue dso =
     (case do_pop_element_common False queue dso of (npopped, _, queue') \<Rightarrow> (npopped, queue'))"

declare search_back.simps [simp del]
declare keep_others.simps [simp del]

section \<open>The callbacks of a queue, oldest first\<close>

fun dq_ok :: "dtor_queue \<Rightarrow> bool" where
  "dq_ok (Dtor_queue prev sz data) \<longleftrightarrow>
     unat sz \<le> 63 \<and> length data = 63 \<and> (case prev of None \<Rightarrow> True | Some p \<Rightarrow> dq_ok p)"

fun callbacks :: "dtor_queue \<Rightarrow> dtor_element list" where
  "callbacks (Dtor_queue prev sz data) =
     (case prev of None \<Rightarrow> [] | Some p \<Rightarrow> callbacks p) @ take (unat sz) data"

definition belongs :: "uptr \<Rightarrow> dtor_element \<Rightarrow> bool" where
  "belongs dso e \<longleftrightarrow> dso = 0 \<or> dtor_dso e = dso"

text \<open>Taking the newest element of a list that belongs to \<open>dso\<close>.\<close>

definition take_newest :: "uptr \<Rightarrow> dtor_element list \<Rightarrow> dtor_element option \<times> dtor_element list" where
  "take_newest dso xs =
     (case dropWhile (\<lambda>e. \<not> belongs dso e) (rev xs) of
        [] \<Rightarrow> (None, xs)
      | e # older \<Rightarrow> (Some e, rev older @ rev (takeWhile (\<lambda>e. \<not> belongs dso e) (rev xs))))"

lemma take_newest_none: "(\<And>e. e \<in> set xs \<Longrightarrow> \<not> belongs dso e) \<Longrightarrow> take_newest dso xs = (None, xs)"
  unfolding take_newest_def by (simp add: dropWhile_eq_Nil_conv[THEN iffD2])

lemma take_newest_some:
  assumes "belongs dso e" "\<And>x. x \<in> set zs \<Longrightarrow> \<not> belongs dso x"
  shows "take_newest dso (ys @ e # zs) = (Some e, ys @ zs)"
proof -
  have "dropWhile (\<lambda>e. \<not> belongs dso e) (rev (ys @ e # zs)) = e # rev ys"
    "takeWhile (\<lambda>e. \<not> belongs dso e) (rev (ys @ e # zs)) = rev zs"
    using assms by (simp_all, subst dropWhile_append2, auto, subst takeWhile_append2, auto)
  then show ?thesis unfolding take_newest_def by simp
qed

lemma newest_cases:
  obtains (none) "\<And>e. e \<in> set xs \<Longrightarrow> \<not> belongs dso e"
  | (some) ys e zs where "xs = ys @ e # zs" "belongs dso e" "\<And>x. x \<in> set zs \<Longrightarrow> \<not> belongs dso x"
proof (cases "\<exists>e \<in> set xs. belongs dso e")
  case True
  from split_list_last_prop[OF this] show thesis using some by blast
next
  case False
  then show thesis using none by blast
qed

lemma take_newest_append:
  "take_newest dso (xs @ ys) =
     (case take_newest dso ys of
        (Some e, ys') \<Rightarrow> (Some e, xs @ ys')
      | (None, _) \<Rightarrow> (case take_newest dso xs of (r, xs') \<Rightarrow> (r, xs' @ ys)))"
proof (cases rule: newest_cases[of ys dso])
  case none
  note no = this
  show ?thesis
  proof (cases rule: newest_cases[of xs dso])
    case none
    with no have "take_newest dso (xs @ ys) = (None, xs @ ys)" by (intro take_newest_none) auto
    with none no show ?thesis by (simp add: take_newest_none)
  next
    case (some us e vs)
    have "take_newest dso (us @ e # (vs @ ys)) = (Some e, us @ vs @ ys)"
      using some no by (intro take_newest_some) auto
    with some no show ?thesis by (simp add: take_newest_none take_newest_some)
  qed
next
  case (some us e vs)
  have "take_newest dso ((xs @ us) @ e # vs) = (Some e, (xs @ us) @ vs)"
    using some by (intro take_newest_some) auto
  with some show ?thesis by (simp add: take_newest_some)
qed

section \<open>One block\<close>

lemma of_nat_not_minus_one: "k < 2 ^ 32 - 1 \<Longrightarrow> (of_nat k :: u32) \<noteq> - 1"
proof
  assume k: "k < 2 ^ 32 - 1" and "(of_nat k :: u32) = - 1"
  then have "unat (of_nat k :: u32) = unat (- 1 :: u32)" by simp
  with k show False by (simp add: unat_of_nat unsigned_minus_1_eq_mask mask_eq_exp_minus_1)
qed

lemma unat_small: "k < 2 ^ 32 - 1 \<Longrightarrow> unat (of_nat k :: u32) = k"
  by (simp add: unat_of_nat)

text \<open>\<open>k\<close> elements are left to look at when the index is \<open>k - 1\<close>.\<close>

lemma search_back_cases:
  assumes "k < 2 ^ 32 - 1"
  obtains (none) "search_back data dso (of_nat k - 1) = - 1" "\<And>j. j < k \<Longrightarrow> dtor_dso (data ! j) \<noteq> dso"
  | (found) i where "i < k" "search_back data dso (of_nat k - 1) = of_nat i" "dtor_dso (data ! i) = dso"
      "\<And>j. i < j \<Longrightarrow> j < k \<Longrightarrow> dtor_dso (data ! j) \<noteq> dso"
  using assms
proof (induction k arbitrary: thesis)
  case 0
  have "search_back data dso (of_nat 0 - 1) = - 1" by (subst search_back.simps) simp
  then show ?case using 0 by simp
next
  case (Suc k)
  have "k < 2 ^ 32 - 1" using Suc.prems(3) by simp
  note k = of_nat_not_minus_one[OF this] unat_small[OF this]
  have step: "search_back data dso (of_nat (Suc k) - 1) =
      (if dso \<noteq> dtor_dso (data ! k) then search_back data dso (of_nat k - 1) else of_nat k)"
    using k by (subst search_back.simps) simp
  show ?case
  proof (cases "dtor_dso (data ! k) = dso")
    case True
    with step Suc.prems(2)[of k] show ?thesis by simp
  next
    case False
    then have s: "search_back data dso (of_nat (Suc k) - 1) = search_back data dso (of_nat k - 1)"
      using step by auto
    have "k < 2 ^ 32 - 1" using Suc.prems(3) by simp
    then show ?thesis
    proof (rule Suc.IH[rotated 2])
      assume "search_back data dso (of_nat k - 1) = - 1" "\<And>j. j < k \<Longrightarrow> dtor_dso (data ! j) \<noteq> dso"
      with False s show ?thesis by (intro Suc.prems(1)) (auto simp: less_Suc_eq)
    next
      fix i assume "i < k" "search_back data dso (of_nat k - 1) = of_nat i" "dtor_dso (data ! i) = dso"
        "\<And>j. i < j \<Longrightarrow> j < k \<Longrightarrow> dtor_dso (data ! j) \<noteq> dso"
      with False s show ?thesis by (intro Suc.prems(2)[of i]) (auto simp: less_Suc_eq)
    qed
  qed
qed

lemma length_move_elements [simp]: "length (move_elements dst src n data) = length data"
  by (induction n arbitrary: dst src data) auto

lemma nth_move_elements:
  "dst + n < length data \<Longrightarrow>
   move_elements dst (Suc dst) n data ! j = (if dst \<le> j \<and> j < dst + n then data ! Suc j else data ! j)"
proof (induction n arbitrary: dst data)
  case (Suc n)
  then have "move_elements (Suc dst) (Suc (Suc dst)) n (data[dst := data ! Suc dst]) ! j =
      (if Suc dst \<le> j \<and> j < Suc dst + n then data[dst := data ! Suc dst] ! Suc j
       else data[dst := data ! Suc dst] ! j)"
    by (intro Suc.IH) simp
  with Suc.prems show ?case by (auto simp: nth_list_update)
qed auto

lemma take_move_elements:
  "i < n \<Longrightarrow> n \<le> length data \<Longrightarrow>
   take (n - 1) (move_elements i (Suc i) (n - 1 - i) data) = take i data @ drop (Suc i) (take n data)"
  by (rule nth_equalityI) (auto simp: nth_append nth_move_elements)

definition pop_index :: "uptr \<Rightarrow> dtor_element list \<Rightarrow> u32 \<Rightarrow> u32" where
  "pop_index dso data sz = (if dso \<noteq> 0 then search_back data dso (sz - 1) else sz - 1)"

lemma pop_index_cases:
  assumes "unat sz \<le> 63"
  obtains (none) "pop_index dso data sz = - 1" "\<And>j. j < unat sz \<Longrightarrow> \<not> belongs dso (data ! j)"
  | (found) i where "i < unat sz" "pop_index dso data sz = of_nat i" "belongs dso (data ! i)"
      "\<And>j. i < j \<Longrightarrow> j < unat sz \<Longrightarrow> \<not> belongs dso (data ! j)"
proof (cases "dso = 0")
  case True
  show thesis
  proof (cases "sz = 0")
    case True
    with \<open>dso = 0\<close> show thesis by (intro none) (simp_all add: pop_index_def)
  next
    case False
    from unat_minus_one'[OF False]
    have "unat (sz - 1) < unat sz" "\<And>j. unat (sz - 1) < j \<Longrightarrow> \<not> j < unat sz" by linarith+
    with \<open>dso = 0\<close> show thesis
      by (intro found[of "unat (sz - 1)"]) (simp_all add: pop_index_def belongs_def)
  qed
next
  case False
  have "unat sz < 2 ^ 32 - 1" using assms by simp
  then show thesis
    using False none found
    by (cases rule: search_back_cases[of "unat sz" data dso])
      (simp_all add: pop_index_def belongs_def)
qed

lemma pop_block:
  assumes "unat sz \<le> 63" "length data = 63" "i < unat sz" "belongs dso (data ! i)"
    "\<And>j. i < j \<Longrightarrow> j < unat sz \<Longrightarrow> \<not> belongs dso (data ! j)"
  shows "take_newest dso (take (unat sz) data) =
    (Some (data ! i), take i data @ drop (Suc i) (take (unat sz) data))"
proof -
  have "take (unat sz) data = take i data @ data ! i # drop (Suc i) (take (unat sz) data)"
    using id_take_nth_drop[of i "take (unat sz) data"] assms(1-3) by (simp add: min_def)
  moreover have "\<not> belongs dso x" if x: "x \<in> set (drop (Suc i) (take (unat sz) data))" for x
  proof -
    from x obtain k where "k < unat sz - Suc i" "x = data ! (Suc i + k)"
      using assms(1,2) by (auto simp: in_set_conv_nth)
    then show ?thesis using assms(5)[of "Suc i + k"] by simp
  qed
  ultimately show ?thesis using take_newest_some[OF assms(4)] by metis
qed

lemma pop_unfold:
  "dtor_queue_pop_common dso (Dtor_queue prev sz data) =
     (let index = pop_index dso data sz in
      if index \<noteq> - 1 then
        (Some (data ! unat index),
         Dtor_queue prev (sz - 1)
           (if sz - 1 - index \<noteq> 0
            then move_elements (unat index) (unat (index + 1)) (unat (sz - 1 - index)) data
            else data))
      else
        (case prev of
           None \<Rightarrow> (None, Dtor_queue prev sz data)
         | Some p \<Rightarrow>
             if sz \<noteq> 0 then
               (let (r, p') = dtor_queue_pop_common dso p in (r, Dtor_queue (Some p') sz data))
             else dtor_queue_pop_common dso p))"
  by (simp only: dtor_queue_pop_common.simps pop_index_def)

declare dtor_queue_pop_common.simps [simp del]

lemma pop_found:
  assumes "unat sz \<le> 63" "length data = 63" "i < unat sz" "pop_index dso data sz = of_nat i"
  shows "\<exists>data'. dtor_queue_pop_common dso (Dtor_queue prev sz data) =
      (Some (data ! i), Dtor_queue prev (sz - 1) data') \<and> length data' = 63 \<and>
      take (unat (sz - 1)) data' = take i data @ drop (Suc i) (take (unat sz) data)"
proof -
  have i: "unat (of_nat i :: u32) = i" "(of_nat i :: u32) \<noteq> - 1"
    using assms(1,3) by (intro unat_small of_nat_not_minus_one; simp)+
  have sz: "sz \<noteq> 0" using assms(3) by auto
  note n = unat_minus_one'[OF sz]
  have le: "(of_nat i :: u32) \<le> sz - 1" using assms(3) n i by (simp add: word_le_nat_alt)
  have c: "unat (sz - 1 - of_nat i) = unat sz - 1 - i" using le i n by (simp add: unat_sub)
  have s: "unat ((of_nat i :: u32) + 1) = Suc i" using i assms(1,3) by (subst unat_plus_one) simp_all
  have t: "take (unat sz - 1) (move_elements i (Suc i) (unat sz - 1 - i) data) =
      take i data @ drop (Suc i) (take (unat sz) data)"
    using assms by (intro take_move_elements) simp_all
  show ?thesis
  proof (cases "sz - 1 - of_nat i = 0")
    case True
    then have "unat sz = Suc i" using c n le i assms(3) by simp
    with True i assms show ?thesis by (simp add: pop_unfold)
  next
    case False
    have "unat (sz - 1) = unat sz - 1" using n by simp
    with False t i c s assms show ?thesis by (simp add: pop_unfold)
  qed
qed

section \<open>Popping\<close>

lemma pop_refines:
  "dq_ok q \<Longrightarrow> dq_ok (snd (dtor_queue_pop_common dso q)) \<and>
   take_newest dso (callbacks q) =
     (fst (dtor_queue_pop_common dso q), callbacks (snd (dtor_queue_pop_common dso q)))"
proof (induction q)
  case (Dtor_queue prev sz data)
  then have ok: "unat sz \<le> 63" "length data = 63" by simp_all
  define older where "older = (case prev of None \<Rightarrow> [] | Some p \<Rightarrow> callbacks p)"
  have cb: "callbacks (Dtor_queue prev sz data) = older @ take (unat sz) data" by (simp add: older_def)
  show ?case using ok(1)
  proof (cases rule: pop_index_cases[of sz dso data])
    case none
    then have no: "\<And>e. e \<in> set (take (unat sz) data) \<Longrightarrow> \<not> belongs dso e"
      using ok by (auto simp: in_set_conv_nth)
    note tn = take_newest_append[of dso older "take (unat sz) data"] take_newest_none[OF no]
    show ?thesis
    proof (cases prev)
      case None
      with none(1) tn Dtor_queue.prems show ?thesis
        by (simp add: pop_unfold older_def take_newest_def)
    next
      case (Some p)
      have "dq_ok (snd (dtor_queue_pop_common dso p)) \<and>
          take_newest dso (callbacks p) =
            (fst (dtor_queue_pop_common dso p), callbacks (snd (dtor_queue_pop_common dso p)))"
        using Dtor_queue.IH[of p] Dtor_queue.prems Some by simp
      with none(1) tn Some ok show ?thesis
        by (cases "dtor_queue_pop_common dso p") (simp add: pop_unfold older_def)
    qed
  next
    case (found i)
    from pop_found[OF ok found(1,2), of prev] obtain data' where
      p: "dtor_queue_pop_common dso (Dtor_queue prev sz data) =
        (Some (data ! i), Dtor_queue prev (sz - 1) data')" "length data' = 63"
        "take (unat (sz - 1)) data' = take i data @ drop (Suc i) (take (unat sz) data)" by blast
    have "unat (sz - 1) \<le> 63" using unat_minus_one'[of sz] found(1) ok(1) by (cases "sz = 0") auto
    with p Dtor_queue.prems show ?thesis
      using pop_block[OF ok found(1,3,4)]
      by (simp add: cb take_newest_append older_def del: callbacks.simps) (simp add: older_def)
  qed
qed

section \<open>Removing\<close>

lemma length_keep_others: "length (fst (keep_others dso sz data index new_size)) = length data"
proof (induction dso sz data index new_size rule: keep_others.induct)
  case (1 dso sz data index new_size)
  show ?case using 1 by (subst keep_others.simps) (auto simp: Let_def)
qed

text \<open>\<open>k\<close> elements have been looked at and \<open>m\<close> of them kept.\<close>

lemma keep_others_result:
  assumes "m \<le> k" "k \<le> n" "n \<le> 63" "length data = 63"
  shows "case keep_others dso (of_nat n) data (of_nat k - 1) (of_nat m) of (data', new_size) \<Rightarrow>
    unat new_size \<le> n \<and>
    take (unat new_size) data' = take m data @ filter (\<lambda>e. dtor_dso e \<noteq> dso) (drop k (take n data))"
  using assms
proof (induction "n - k" arbitrary: m k data)
  case 0
  then have "keep_others dso (of_nat n) data (of_nat k - 1) (of_nat m) = (data, of_nat m)"
    by (subst keep_others.simps) (simp add: Let_def)
  with 0 show ?case by (simp add: unat_small)
next
  case (Suc d)
  then have k: "k < n" by simp
  have u: "unat (of_nat k :: u32) = k" "unat (of_nat n :: u32) = n" "unat (of_nat m :: u32) = m"
    using Suc.prems k by (intro unat_small; simp)+
  then have ne: "(of_nat k :: u32) \<noteq> of_nat n" using k by (metis nless_le)
  have d: "drop k (take n data) = data ! k # drop (Suc k) (take n data)"
    using Suc.prems k by (simp add: Cons_nth_drop_Suc[symmetric])
  have step: "keep_others dso (of_nat n) data (of_nat k - 1) (of_nat m) =
      (if dso \<noteq> dtor_dso (data ! k)
       then keep_others dso (of_nat n) (data[m := data ! k]) (of_nat (Suc k) - 1) (of_nat (Suc m))
       else keep_others dso (of_nat n) data (of_nat (Suc k) - 1) (of_nat m))"
    using ne u by (subst keep_others.simps) (simp add: Let_def add.commute)
  show ?case
  proof (cases "dtor_dso (data ! k) = dso")
    case True
    then show ?thesis using Suc.hyps(1)[of "Suc k" m data] Suc.hyps(2) Suc.prems k d
      unfolding step by simp
  next
    case False
    have "take (Suc m) (data[m := data ! k]) = take m data @ [data ! k]"
      using Suc.prems k by (simp add: take_Suc_conv_app_nth)
    then show ?thesis
      using Suc.hyps(1)[of "Suc k" "Suc m" "data[m := data ! k]"] Suc.hyps(2) Suc.prems k d False
      unfolding step by (simp add: take_update_swap drop_update_cancel)
  qed
qed

text \<open>What is left of one block, for a null handle as well.\<close>

definition remains :: "uptr \<Rightarrow> u32 \<Rightarrow> dtor_element list \<Rightarrow> dtor_element list \<times> u32" where
  "remains dso sz data = (if dso \<noteq> 0 then keep_others dso sz data (- 1) 0 else (data, 0))"

lemma remove_block:
  assumes "unat sz \<le> 63" "length data = 63"
  obtains data' new_size where "remains dso sz data = (data', new_size)" "length data' = 63"
    "new_size \<le> sz" "take (unat new_size) data' = filter (\<lambda>e. \<not> belongs dso e) (take (unat sz) data)"
proof (cases "dso = 0")
  case True
  then show thesis
    by (intro that[of data 0]) (simp_all add: remains_def assms belongs_def)
next
  case False
  have "case keep_others dso (of_nat (unat sz)) data (of_nat 0 - 1) (of_nat 0) of (data', new_size) \<Rightarrow>
    unat new_size \<le> unat sz \<and>
    take (unat new_size) data' = take 0 data @ filter (\<lambda>e. dtor_dso e \<noteq> dso) (drop 0 (take (unat sz) data))"
    using assms by (intro keep_others_result) simp_all
  moreover obtain data' new_size where k: "keep_others dso sz data (- 1) 0 = (data', new_size)" by fastforce
  ultimately show thesis
    using False length_keep_others[of dso sz data "- 1" 0] assms
    by (intro that[of data' new_size]) (simp_all add: remains_def belongs_def word_le_nat_alt)
qed

lemma remove_unfold:
  "dtor_queue_remove_common dso npopped (Dtor_queue prev sz data) =
     (case remains dso sz data of (data', new_size) \<Rightarrow>
       (case prev of
           None \<Rightarrow> (npopped + ucast (sz - new_size), Dtor_queue prev new_size data')
         | Some p \<Rightarrow>
             if new_size \<noteq> 0 then
               (case dtor_queue_remove_common dso (npopped + ucast (sz - new_size)) p
                of (n, p') \<Rightarrow> (n, Dtor_queue (Some p') new_size data'))
             else dtor_queue_remove_common dso (npopped + ucast (sz - new_size)) p))"
  by (simp add: remains_def Let_def split: prod.splits option.splits)

declare dtor_queue_remove_common.simps [simp del]

lemma remove_refines:
  "dq_ok q \<Longrightarrow> case dtor_queue_remove_common dso npopped q of (n, q') \<Rightarrow>
    dq_ok q' \<and> callbacks q' = filter (\<lambda>e. \<not> belongs dso e) (callbacks q) \<and>
    n = npopped + of_nat (length (filter (belongs dso) (callbacks q)))"
proof (induction q arbitrary: npopped)
  case (Dtor_queue prev sz data)
  then have ok: "unat sz \<le> 63" "length data = 63" by simp_all
  obtain data' new_size where b: "remains dso sz data = (data', new_size)" "length data' = 63"
    "new_size \<le> sz" "take (unat new_size) data' = filter (\<lambda>e. \<not> belongs dso e) (take (unat sz) data)"
    by (rule remove_block[OF ok])
  have "unat new_size = length (filter (\<lambda>e. \<not> belongs dso e) (take (unat sz) data))"
    using b(2,3) ok unfolding b(4)[symmetric] by (simp add: word_le_nat_alt)
  moreover have "length (filter (belongs dso) (take (unat sz) data)) +
      length (filter (\<lambda>e. \<not> belongs dso e) (take (unat sz) data)) = unat sz"
    using ok by (simp add: sum_length_filter_compl)
  ultimately have "unat (sz - new_size) = length (filter (belongs dso) (take (unat sz) data))"
    using b(3) by (simp add: unat_sub)
  then have c: "ucast (sz - new_size) = (of_nat (length (filter (belongs dso) (take (unat sz) data))) :: u64)"
    by (metis unsigned_of_nat of_nat_unat ucast_eq)
  have s: "unat new_size \<le> 63" using b(3) ok(1) by (simp add: word_le_nat_alt)
  show ?case
  proof (cases prev)
    case None
    with b c s show ?thesis by (simp add: remove_unfold)
  next
    case (Some p)
    with Dtor_queue.prems have "dq_ok p" by simp
    with Dtor_queue.IH[of p "npopped + ucast (sz - new_size)"] Some b c s
    show ?thesis by (cases "new_size = 0") (auto simp: remove_unfold split: prod.splits)
  qed
qed

section \<open>Pushing\<close>

lemma push_cases:
  assumes "dq_ok q"
  shows "case MCF_dtor_queue_reserve_and_push memory q reservation elem_opt of (err, q') \<Rightarrow>
    if elem_opt = None \<or> dtor_fn (the elem_opt) = 0 \<or> \<not> (1 \<le> reservation \<and> reservation \<le> 63)
    then err = - 1 \<and> q' = q
    else if \<not> memory \<and> unat (dq_size q) + unat reservation > 63 then err = - 2 \<and> q' = q
    else err = 0 \<and> dq_ok q' \<and> callbacks q' = callbacks q @ [the elem_opt] \<and>
      unat (dq_size q') + unat reservation \<le> 64"
proof (cases q)
  case (Dtor_queue prev sz data)
  with assms have ok: "unat sz \<le> 63" "length data = 63" by simp_all
  have "sz \<le> dq_capacity" using ok by (simp add: dq_capacity_def word_le_nat_alt)
  then have cap: "unat (dq_capacity - sz) = 63 - unat sz"
    by (simp add: unat_sub dq_capacity_def)
  show ?thesis
  proof (cases "elem_opt = None \<or> dtor_fn (the elem_opt) = 0 \<or> reservation < 1 \<or> reservation > dq_capacity")
    case True
    then show ?thesis
      by (auto simp: MCF_dtor_queue_reserve_and_push_def dq_capacity_def split: option.split)
  next
    case False
    then obtain elem where e: "elem_opt = Some elem" "dtor_fn elem \<noteq> 0" "\<not> reservation < 1" "\<not> reservation > dq_capacity"
      by auto
    then have r: "1 \<le> unat reservation" "unat reservation \<le> 63"
      by (simp_all add: word_less_nat_alt dq_capacity_def)
    have gt: "reservation > dq_capacity - sz \<longleftrightarrow> unat sz + unat reservation > 63"
      using ok cap by (simp add: word_less_nat_alt) arith
    have append: "callbacks (Dtor_queue p (n + 1) (data[unat n := elem])) =
          callbacks (Dtor_queue p n data) @ [elem]" "unat (n + 1) = unat n + 1"
      if "unat n < 63" for p and n :: u32
    proof -
      show u: "unat (n + 1) = unat n + 1" using that by (simp add: unat_plus_one)
      show "callbacks (Dtor_queue p (n + 1) (data[unat n := elem])) = callbacks (Dtor_queue p n data) @ [elem]"
        using that ok u by (simp add: take_Suc_conv_app_nth)
    qed
    have empty: "callbacks (Dtor_queue (Some q) 0 data) = callbacks q" by simp
    have e0: "reservation \<noteq> 0" "1 \<le> reservation" "reservation \<le> 63"
      using r by (auto simp: word_le_nat_alt)
    show ?thesis
    proof (cases "unat sz + unat reservation > 63")
      case True
      with Dtor_queue assms e e0 r ok gt append(1)[where n = 0 and p = "Some q"] append(2)[where n = 0] empty show ?thesis
        by (simp add: MCF_dtor_queue_reserve_and_push_def dq_capacity_def del: callbacks.simps)
    next
      case False
      with r have "unat sz < 63" by simp
      with False Dtor_queue assms e e0 r ok gt append(1)[where n = sz and p = prev] append(2)[where n = sz] show ?thesis
        by (simp add: MCF_dtor_queue_reserve_and_push_def dq_capacity_def del: callbacks.simps)
    qed
  qed
qed

section \<open>The contract\<close>


definition sample_element :: "uptr \<Rightarrow> uptr \<Rightarrow> dtor_element" where
  "sample_element f dso = \<lparr>dtor_fn = f, dtor_this = 0, dtor_dso = dso\<rparr>"

definition sample_queue :: dtor_queue where
  "sample_queue =
     snd (MCF_dtor_queue_reserve_and_push True
       (snd (MCF_dtor_queue_push True
         (snd (MCF_dtor_queue_push True dtor_queue_zero (Some (sample_element 1 7))))
         (Some (sample_element 2 8))))
       63 (Some (sample_element 3 8)))"

lemma sample_queue_ok: "dq_ok sample_queue"
  by (simp add: sample_queue_def MCF_dtor_queue_push_def MCF_dtor_queue_reserve_and_push_def
      dtor_queue_zero_def dq_capacity_def sample_element_def)


text \<open>Pushing one after another with \<open>memory\<close> as given.\<close>

fun push_all :: "bool \<Rightarrow> dtor_queue \<Rightarrow> dtor_element list \<Rightarrow> int list \<times> dtor_queue" where
  "push_all memory q [] = ([], q)"
| "push_all memory q (e # es) =
     (let (err, q') = MCF_dtor_queue_push memory q (Some e);
          (errs, q'') = push_all memory q' es
      in (err # errs, q''))"

lemma push_all_room:
  "dq_ok q \<Longrightarrow> unat (dq_size q) + length es \<le> 63 \<Longrightarrow> (\<And>e. e \<in> set es \<Longrightarrow> dtor_fn e \<noteq> 0) \<Longrightarrow>
   case push_all memory q es of (errs, q') \<Rightarrow>
     dq_ok q' \<and> errs = replicate (length es) 0 \<and> callbacks q' = callbacks q @ es"
proof (induction es arbitrary: q)
  case (Cons e es)
  obtain err q' where p: "MCF_dtor_queue_push memory q (Some e) = (err, q')" by fastforce
  have "err = 0 \<and> dq_ok q' \<and> callbacks q' = callbacks q @ [e] \<and> unat (dq_size q') + length es \<le> 63"
  proof -
    have ok: "dtor_fn e \<noteq> 0" "\<not> 63 < unat (dq_size q) + 1" using Cons.prems by auto
    note push_cases[OF Cons.prems(1), of "Some e" 1 memory]
    with ok p have "err = 0 \<and> dq_ok q' \<and> callbacks q' = callbacks q @ [e]"
      unfolding MCF_dtor_queue_push_def by simp
    moreover have "unat (dq_size q') = unat (dq_size q) + 1"
    proof -
      have "\<not> 1 > dq_capacity - dq_size q"
      proof -
        have "dq_size q \<le> dq_capacity" using ok(2) by (simp add: word_le_nat_alt dq_capacity_def)
        then show ?thesis using ok(2) by (simp add: word_less_nat_alt unat_sub dq_capacity_def)
      qed
      then have "q' = Dtor_queue (dq_prev q) (dq_size q + 1) ((dq_data q)[unat (dq_size q) := e])"
        using p ok(1) unfolding MCF_dtor_queue_push_def MCF_dtor_queue_reserve_and_push_def
        by (simp add: dq_capacity_def Let_def)
      then show ?thesis using ok(2) by (simp add: unat_plus_one)
    qed
    ultimately show ?thesis using Cons.prems(2) by simp
  qed
  with Cons.IH[of q'] Cons.prems p show ?case by (auto split: prod.splits)
qed simp

text \<open>The results of a push: -1 for a null element or destructor or a reservation that is
  not in 1 to 63; -2, with the queue unchanged, when the block has no room for the reservation
  and there is no memory; otherwise 0, and the element is the newest one. A reservation
  of \<open>r\<close> makes the next \<open>r - 1\<close> pushes succeed without memory, so do the first 63 pushes
  onto a queue of zeroes.\<close>

lemma dtor_queue_push_results:
  assumes "dq_ok q"
  shows "(case MCF_dtor_queue_reserve_and_push memory q r elem_opt of (err, q') \<Rightarrow>
      (if elem_opt = None \<or> dtor_fn (the elem_opt) = 0 \<or> \<not> (1 \<le> r \<and> r \<le> 63)
       then err = - 1 \<and> q' = q
       else if \<not> memory \<and> unat (dq_size q) + unat r > 63 then err = - 2 \<and> q' = q
       else err = 0 \<and> dq_ok q' \<and> callbacks q' = callbacks q @ [the elem_opt]) \<and>
      (err = 0 \<longrightarrow> (\<forall>es. length es < unat r \<and> 0 \<notin> dtor_fn ` set es \<longrightarrow>
         fst (push_all False q' es) = replicate (length es) 0 \<and>
         callbacks (snd (push_all False q' es)) = callbacks q' @ es))) \<and>
    (\<forall>es. length es \<le> 63 \<and> 0 \<notin> dtor_fn ` set es \<longrightarrow>
       fst (push_all False dtor_queue_zero es) = replicate (length es) 0 \<and>
       callbacks (snd (push_all False dtor_queue_zero es)) = es)"
proof -
  have zero: "dq_ok dtor_queue_zero" "dq_size dtor_queue_zero = 0" "callbacks dtor_queue_zero = []"
    by (simp_all add: dtor_queue_zero_def)
  have first: "fst (push_all False dtor_queue_zero es) = replicate (length es) 0 \<and>
       callbacks (snd (push_all False dtor_queue_zero es)) = es"
    if "length es \<le> 63" "0 \<notin> dtor_fn ` set es" for es
    using push_all_room[of dtor_queue_zero es False] zero that by (force split: prod.splits)
  obtain err q' where p: "MCF_dtor_queue_reserve_and_push memory q r elem_opt = (err, q')" by fastforce
  note c = push_cases[OF assms, of elem_opt r memory, unfolded p prod.case]
  have "fst (push_all False q' es) = replicate (length es) 0 \<and>
      callbacks (snd (push_all False q' es)) = callbacks q' @ es"
    if "err = 0" "length es < unat r" "0 \<notin> dtor_fn ` set es" for es
  proof -
    have "dq_ok q'" "unat (dq_size q') + unat r \<le> 64" using c that(1) by (auto split: if_splits)
    then show ?thesis using push_all_room[of q' es False] that by (force split: prod.splits)
  qed
  with first c show ?thesis unfolding p prod.case by (auto split: if_splits)
qed

theorem dtor_queue_push_results_witness:
  "fst (MCF_dtor_queue_reserve_and_push False dtor_queue_zero 5 (Some (sample_element 1 7))) = 0 \<and>
    callbacks (snd (MCF_dtor_queue_reserve_and_push False dtor_queue_zero 5 (Some (sample_element 1 7)))) =
      [sample_element 1 7] \<and>
    fst (push_all False dtor_queue_zero [sample_element 1 7, sample_element 2 7]) = [0, 0]"
proof -
  have "dq_ok dtor_queue_zero" by (simp add: dtor_queue_zero_def)
  note w = dtor_queue_push_results[OF this, where memory = False and r = 5 and elem_opt = "Some (sample_element 1 7)"]
  from w have "\<forall>es. length es \<le> 63 \<and> 0 \<notin> dtor_fn ` set es \<longrightarrow>
      fst (push_all False dtor_queue_zero es) = replicate (length es) 0" by blast
  from this[rule_format, of "[sample_element 1 7, sample_element 2 7]"]
  have "fst (push_all False dtor_queue_zero [sample_element 1 7, sample_element 2 7]) = [0, 0]"
    by (simp add: sample_element_def)
  with w show ?thesis
    by (auto simp: sample_element_def dtor_queue_zero_def split: prod.splits)
qed

end
