(* ===== verification/Mcf_Cxa.thy ===== *)
theory Mcf_Cxa
  imports Mcf_Mutex Mcf_Once Dtor_Queue "HOL-Library.Monad_Syntax" "HOL-Library.Multiset"
begin

text \<open>
  Registration and execution of exit callbacks: \<open>src/cxa.c\<close>, \<open>src/exit.c\<close> and
  \<open>__MCF_run_static_dtors\<close> of \<open>src/xglobals.c\<close>, as one thread executes them. A callback is an
  arbitrary function on the state of the process, so it may register more callbacks.
  The mutexes of the lists are those of \<open>Mcf_Mutex\<close>; locking one that is locked already
  does not return, which is the value \<open>None\<close>, as is a failed assertion and a loop that
  does not end.

  The locale \<open>dtor_store\<close> is what the loop over the callbacks needs of a list of callbacks; the
  three lists of the process are its interpretations.
\<close>

section \<open>Guards of local statics\<close>

definition MCF_cxa_guard_acquire :: "(MCF_once, unit, unit) wait_ops" where
  "MCF_cxa_guard_acquire = MCF_once_wait_slow\<lparr>w_fast := (\<lambda>_. FSlow)\<rparr>"

definition MCF_cxa_guard_release :: "(MCF_once, unit) sig_ops" where
  "MCF_cxa_guard_release = MCF_once_release"

definition MCF_cxa_guard_abort :: "(MCF_once, unit) sig_ops" where
  "MCF_cxa_guard_abort = MCF_once_abort"

section \<open>Locking without contention\<close>

definition lock_alone :: "MCF_mutex \<Rightarrow> MCF_mutex option" where
  "lock_alone m = (case mutex_try False m of SwapGive m' _ \<Rightarrow> Some m' | _ \<Rightarrow> None)"

definition unlock_alone :: "MCF_mutex \<Rightarrow> MCF_mutex option" where
  "unlock_alone m = (case mutex_unlock_try m of SSwap m' _ _ \<Rightarrow> Some m' | _ \<Rightarrow> None)"

lemma lock_then_unlock:
  assumes "mtx_locked m = 0"
  obtains m' m'' where "lock_alone m = Some m'" "unlock_alone m' = Some m''" "mtx_locked m'' = 0"
  using assms by (simp add: lock_alone_def mutex_try_def unlock_alone_def mutex_unlock_try_def
      mutex_taken_def Let_def)

section \<open>The lists of the process\<close>

record 'w process =
  exit_mtx :: MCF_mutex
  exit_queue :: dtor_queue
  quick_exit_mtx :: MCF_mutex
  quick_exit_queue :: dtor_queue
  thread_queue :: "dtor_queue option"
  user_world :: 'w

type_synonym 'w callback = "dtor_element \<Rightarrow> 'w process \<Rightarrow> 'w process"

definition push_locked :: "bool \<Rightarrow> dtor_element \<Rightarrow> MCF_mutex \<times> dtor_queue \<Rightarrow> (int \<times> MCF_mutex \<times> dtor_queue) option" where
  "push_locked memory elem = (\<lambda>(mtx, queue). do {
     mtx \<leftarrow> lock_alone mtx;
     let (err, queue) = MCF_dtor_queue_push memory queue (Some elem);
     mtx \<leftarrow> unlock_alone mtx;
     Some (err, mtx, queue) })"

definition MCF_cxa_atexit :: "bool \<Rightarrow> uptr \<Rightarrow> uptr \<Rightarrow> uptr \<Rightarrow> 'w process \<Rightarrow> (int \<times> 'w process) option" where
  "MCF_cxa_atexit memory dtor this dso g = do {
     (err, mtx, queue) \<leftarrow> push_locked memory \<lparr>dtor_fn = dtor, dtor_this = this, dtor_dso = dso\<rparr> (exit_mtx g, exit_queue g);
     Some (err, g\<lparr>exit_mtx := mtx, exit_queue := queue\<rparr>) }"

definition MCF_atexit :: "bool \<Rightarrow> uptr \<Rightarrow> 'w process \<Rightarrow> (int \<times> 'w process) option" where
  "MCF_atexit memory func g = MCF_cxa_atexit memory func 0 0 g"

definition MCF_cxa_at_quick_exit :: "bool \<Rightarrow> uptr \<Rightarrow> uptr \<Rightarrow> uptr \<Rightarrow> 'w process \<Rightarrow> (int \<times> 'w process) option" where
  "MCF_cxa_at_quick_exit memory dtor this dso g = do {
     (err, mtx, queue) \<leftarrow> push_locked memory \<lparr>dtor_fn = dtor, dtor_this = this, dtor_dso = dso\<rparr> (quick_exit_mtx g, quick_exit_queue g);
     Some (err, g\<lparr>quick_exit_mtx := mtx, quick_exit_queue := queue\<rparr>) }"

definition MCF_at_quick_exit :: "bool \<Rightarrow> uptr \<Rightarrow> 'w process \<Rightarrow> (int \<times> 'w process) option" where
  "MCF_at_quick_exit memory func g = MCF_cxa_at_quick_exit memory func 0 0 g"

text \<open>\<open>_MCF_thread_self\<close> attaches a thread that is not known yet, with an empty queue.\<close>

definition MCF_cxa_thread_atexit :: "bool \<Rightarrow> uptr \<Rightarrow> uptr \<Rightarrow> uptr \<Rightarrow> 'w process \<Rightarrow> int \<times> 'w process" where
  "MCF_cxa_thread_atexit memory dtor this dso g =
     (let self = (case thread_queue g of None \<Rightarrow> dtor_queue_zero | Some queue \<Rightarrow> queue);
          (err, queue) = MCF_dtor_queue_push memory self
             (Some \<lparr>dtor_fn = dtor, dtor_this = this, dtor_dso = dso\<rparr>)
      in (err, g\<lparr>thread_queue := Some queue\<rparr>))"

definition MCF_thread_atexit :: "bool \<Rightarrow> uptr \<Rightarrow> 'w process \<Rightarrow> int \<times> 'w process" where
  "MCF_thread_atexit memory func g = MCF_cxa_thread_atexit memory func 0 0 g"

section \<open>Running the callbacks\<close>

text \<open>The loop that all of them are: pop until nothing is popped.\<close>

partial_function (option) drain ::
    "('s \<Rightarrow> (dtor_element option \<times> 's) option) \<Rightarrow> (dtor_element \<Rightarrow> 's \<Rightarrow> 's) \<Rightarrow> 's \<Rightarrow> 's option" where
  "drain pop call s =
     (case pop s of
        None \<Rightarrow> None
      | Some (None, s') \<Rightarrow> Some s'
      | Some (Some elem, s') \<Rightarrow> drain pop call (call elem s'))"

definition do_pop_dtor :: "MCF_mutex \<Rightarrow> dtor_queue \<Rightarrow> uptr \<Rightarrow> (i32 \<times> dtor_element option \<times> MCF_mutex \<times> dtor_queue) option" where
  "do_pop_dtor mtx queue dso = do {
     mtx \<leftarrow> lock_alone mtx;
     let (err, elem, queue) = MCF_dtor_queue_pop True queue dso;
     mtx \<leftarrow> unlock_alone mtx;
     Some (err, elem, mtx, queue) }"

definition pop_exit :: "uptr \<Rightarrow> 'w process \<Rightarrow> (dtor_element option \<times> 'w process) option" where
  "pop_exit dso g = do {
     (err, elem, mtx, queue) \<leftarrow> do_pop_dtor (exit_mtx g) (exit_queue g) dso;
     Some (if err = 0 then elem else None, g\<lparr>exit_mtx := mtx, exit_queue := queue\<rparr>) }"

definition pop_quick_exit :: "uptr \<Rightarrow> 'w process \<Rightarrow> (dtor_element option \<times> 'w process) option" where
  "pop_quick_exit dso g = do {
     (err, elem, mtx, queue) \<leftarrow> do_pop_dtor (quick_exit_mtx g) (quick_exit_queue g) dso;
     Some (if err = 0 then elem else None, g\<lparr>quick_exit_mtx := mtx, quick_exit_queue := queue\<rparr>) }"

definition pop_thread :: "uptr \<Rightarrow> 'w process \<Rightarrow> (dtor_element option \<times> 'w process) option" where
  "pop_thread dso g =
     (case thread_queue g of
        None \<Rightarrow> Some (None, g)
      | Some self \<Rightarrow>
          (case MCF_dtor_queue_pop True self dso of
             (err, elem, queue) \<Rightarrow> Some (if err = 0 then elem else None, g\<lparr>thread_queue := Some queue\<rparr>)))"

definition MCF_run_static_dtors ::
    "('w process \<Rightarrow> (dtor_element option \<times> 'w process) option) \<Rightarrow> 'w callback \<Rightarrow> 'w process \<Rightarrow> 'w process option" where
  "MCF_run_static_dtors pop call g = drain pop call g"

definition do_finalize_thread :: "uptr \<Rightarrow> 'w callback \<Rightarrow> 'w process \<Rightarrow> 'w process option" where
  "do_finalize_thread dso call g =
     (if thread_queue g = None then Some g else drain (pop_thread dso) call g)"

definition MCF_cxa_finalize :: "uptr \<Rightarrow> 'w callback \<Rightarrow> 'w process \<Rightarrow> 'w process option" where
  "MCF_cxa_finalize dso call g = do {
     g \<leftarrow> do_finalize_thread dso call g;
     g \<leftarrow> MCF_run_static_dtors (pop_exit dso) call g;
     mtx \<leftarrow> lock_alone (quick_exit_mtx g);
     let (_, queue) = MCF_dtor_queue_remove (quick_exit_queue g) dso;
     mtx \<leftarrow> unlock_alone mtx;
     Some (g\<lparr>quick_exit_mtx := mtx, quick_exit_queue := queue\<rparr>) }"

text \<open>The process ends with a status; the second component is what it left behind.\<close>

definition MCF_Exit :: "i32 \<Rightarrow> 'w process \<Rightarrow> u32 \<times> 'w process" where
  "MCF_Exit status g = (status, g)"

definition MCF_quick_exit :: "'w callback \<Rightarrow> i32 \<Rightarrow> 'w process \<Rightarrow> (u32 \<times> 'w process) option" where
  "MCF_quick_exit call status g = do {
     g \<leftarrow> MCF_run_static_dtors (pop_quick_exit 0) call g;
     Some (MCF_Exit status g) }"

definition MCF_exit :: "'w callback \<Rightarrow> i32 \<Rightarrow> 'w process \<Rightarrow> (u32 \<times> 'w process) option" where
  "MCF_exit call status g = do {
     g \<leftarrow> MCF_cxa_finalize 0 call g;
     Some (MCF_Exit status g) }"

section \<open>The contract of a list of callbacks\<close>

locale dtor_store =
  fixes pop :: "'s \<Rightarrow> (dtor_element option \<times> 's) option"
    and items :: "'s \<Rightarrow> dtor_element list"
    and good :: "'s \<Rightarrow> bool"
    and rest :: "'s \<Rightarrow> 'r"
    and dso :: uptr
  assumes pop_takes: "good s \<Longrightarrow> \<exists>r s'. pop s = Some (r, s') \<and> good s' \<and> rest s' = rest s \<and>
    take_newest dso (items s) = (r, items s')"
begin

text \<open>Callbacks that only register callbacks of a smaller rank: the loop ends, and nothing of
  the module is left.\<close>

lemma drain_ends:
  assumes call: "\<And>e s. good s \<Longrightarrow> good (call e s) \<and>
      (\<exists>new. items (call e s) = items s @ new \<and> (\<forall>x \<in> set new. rank x < (rank e :: nat)))"
    and "good s"
  shows "\<exists>s'. drain pop call s = Some s' \<and> good s' \<and> (\<forall>e \<in> set (items s'). \<not> belongs dso e)"
  using \<open>good s\<close>
proof (induction "image_mset rank (mset (items s))" arbitrary: s rule: wf_induct_rule[OF wf_mult[OF wf_less_than]])
  case 1
  from pop_takes[OF 1(2)] obtain r s1 where
    p: "pop s = Some (r, s1)" "good s1" "take_newest dso (items s) = (r, items s1)" by blast
  show ?case
  proof (cases rule: newest_cases[of "items s" dso])
    case none
    with p show ?thesis by (subst drain.simps) (simp add: take_newest_none)
  next
    case (some ys e zs)
    then have r: "r = Some e" "items s1 = ys @ zs" using p(3) by (simp_all add: take_newest_some)
    from call[OF p(2), of e] obtain new where
      c: "good (call e s1)" "items (call e s1) = ys @ zs @ new" "\<forall>x \<in> set new. rank x < rank e"
      using r by auto
    have "(image_mset rank (mset (items (call e s1))), image_mset rank (mset (items s))) \<in> mult less_than"
    proof -
      have "(image_mset rank (mset (ys @ zs)) + image_mset rank (mset new),
          image_mset rank (mset (ys @ zs)) + {#rank e#}) \<in> mult less_than"
        using c(3) by (intro one_step_implies_mult) auto
      then show ?thesis using c(2) some(1) by (simp add: ac_simps)
    qed
    from 1(1)[OF this c(1)] p(1) r(1) show ?thesis by (subst drain.simps) simp
  qed
qed

end

text \<open>Callbacks that act on a part of the state that the list does not see.\<close>

locale quiet_dtors = dtor_store +
  fixes call :: "dtor_element \<Rightarrow> 's \<Rightarrow> 's"
    and act :: "dtor_element \<Rightarrow> 'r \<Rightarrow> 'r"
  assumes call_quiet: "good s \<Longrightarrow> good (call e s) \<and> items (call e s) = items s \<and> rest (call e s) = act e (rest s)"
begin

lemma drain_order:
  "good s \<Longrightarrow> \<exists>s'. drain pop call s = Some s' \<and> good s' \<and>
     items s' = filter (\<lambda>e. \<not> belongs dso e) (items s) \<and>
     rest s' = fold act (rev (filter (belongs dso) (items s))) (rest s)"
proof (induction "length (items s)" arbitrary: s rule: less_induct)
  case less
  from pop_takes[OF less(2)] obtain r s1 where
    p: "pop s = Some (r, s1)" "good s1" "rest s1 = rest s" "take_newest dso (items s) = (r, items s1)" by blast
  show ?case
  proof (cases rule: newest_cases[of "items s" dso])
    case none
    then have "filter (belongs dso) (items s) = []" "filter (\<lambda>e. \<not> belongs dso e) (items s) = items s"
      by (simp_all add: filter_empty_conv filter_id_conv)
    moreover have "r = None" "items s1 = items s" using p(4) none by (simp_all add: take_newest_none)
    ultimately show ?thesis using p by (subst drain.simps) simp
  next
    case (some ys e zs)
    then have r: "r = Some e" "items s1 = ys @ zs" using p(4) by (simp_all add: take_newest_some)
    have z: "filter (belongs dso) zs = []" "filter (\<lambda>e. \<not> belongs dso e) zs = zs"
      using some(3) by (simp_all add: filter_empty_conv filter_id_conv)
    note c = call_quiet[OF p(2), of e]
    have "length (items (call e s1)) < length (items s)" using c r some(1) by simp
    from less(1)[OF this] c r p some z show ?thesis by (subst drain.simps) simp
  qed
qed

end

section \<open>The lists meet the contract\<close>

definition exit_good :: "'w process \<Rightarrow> bool" where
  "exit_good g \<longleftrightarrow> mtx_locked (exit_mtx g) = 0 \<and> dq_ok (exit_queue g)"

definition quick_exit_good :: "'w process \<Rightarrow> bool" where
  "quick_exit_good g \<longleftrightarrow> mtx_locked (quick_exit_mtx g) = 0 \<and> dq_ok (quick_exit_queue g)"

definition thread_good :: "'w process \<Rightarrow> bool" where
  "thread_good g \<longleftrightarrow> (case thread_queue g of None \<Rightarrow> True | Some q \<Rightarrow> dq_ok q)"

definition thread_callbacks :: "'w process \<Rightarrow> dtor_element list" where
  "thread_callbacks g = (case thread_queue g of None \<Rightarrow> [] | Some q \<Rightarrow> callbacks q)"

text \<open>A callback that does not touch the lists.\<close>

definition quiet :: "(dtor_element \<Rightarrow> 'w \<Rightarrow> 'w) \<Rightarrow> 'w callback" where
  "quiet act e g = g\<lparr>user_world := act e (user_world g)\<rparr>"

lemma do_pop_dtor_spec:
  assumes "mtx_locked mtx = 0" "dq_ok queue"
  obtains err elem mtx' queue' where "do_pop_dtor mtx queue dso = Some (err, elem, mtx', queue')"
    "mtx_locked mtx' = 0" "dq_ok queue'" "take_newest dso (callbacks queue) = (elem, callbacks queue')"
    "err = (if elem = None then - 1 else 0)"
proof -
  obtain m' m'' where m: "lock_alone mtx = Some m'" "unlock_alone m' = Some m''" "mtx_locked m'' = 0"
    using lock_then_unlock[OF assms(1)] .
  note p = pop_refines[OF assms(2), of dso]
  obtain elem queue' where q: "dtor_queue_pop_common dso queue = (elem, queue')" by fastforce
  have "do_pop_dtor mtx queue dso = Some (if elem = None then - 1 else 0, elem, m'', queue')"
    using m q by (cases elem)
      (simp_all add: do_pop_dtor_def MCF_dtor_queue_pop_def do_pop_element_common_def)
  then show thesis using m p q by (intro that) simp_all
qed

lemma pop_if_err: "(if (if elem = None then - 1 else 0 :: i32) = 0 then elem else None) = elem"
  by simp

interpretation exit_list: quiet_dtors "pop_exit dso" "\<lambda>g. callbacks (exit_queue g)" exit_good
    "\<lambda>g. (quick_exit_mtx g, quick_exit_queue g, thread_queue g, user_world g)" dso
    "quiet act" "\<lambda>e (m, q, t, w). (m, q, t, act e w)" for dso and act :: "dtor_element \<Rightarrow> 'w \<Rightarrow> 'w"
proof unfold_locales
  fix g :: "'w process"
  assume "exit_good g"
  then have "mtx_locked (exit_mtx g) = 0" "dq_ok (exit_queue g)" by (simp_all add: exit_good_def)
  then show "\<exists>r s'. pop_exit dso g = Some (r, s') \<and> exit_good s' \<and>
      (quick_exit_mtx s', quick_exit_queue s', thread_queue s', user_world s') =
      (quick_exit_mtx g, quick_exit_queue g, thread_queue g, user_world g) \<and>
      take_newest dso (callbacks (exit_queue g)) = (r, callbacks (exit_queue s'))"
    by (rule do_pop_dtor_spec[where dso = dso]) (simp add: pop_exit_def exit_good_def pop_if_err)
qed (simp add: quiet_def exit_good_def)

interpretation quick_exit_list: quiet_dtors "pop_quick_exit dso" "\<lambda>g. callbacks (quick_exit_queue g)" quick_exit_good
    "\<lambda>g. (exit_mtx g, exit_queue g, thread_queue g, user_world g)" dso
    "quiet act" "\<lambda>e (m, q, t, w). (m, q, t, act e w)" for dso and act :: "dtor_element \<Rightarrow> 'w \<Rightarrow> 'w"
proof unfold_locales
  fix g :: "'w process"
  assume "quick_exit_good g"
  then have "mtx_locked (quick_exit_mtx g) = 0" "dq_ok (quick_exit_queue g)"
    by (simp_all add: quick_exit_good_def)
  then show "\<exists>r s'. pop_quick_exit dso g = Some (r, s') \<and> quick_exit_good s' \<and>
      (exit_mtx s', exit_queue s', thread_queue s', user_world s') =
      (exit_mtx g, exit_queue g, thread_queue g, user_world g) \<and>
      take_newest dso (callbacks (quick_exit_queue g)) = (r, callbacks (quick_exit_queue s'))"
    by (rule do_pop_dtor_spec[where dso = dso]) (simp add: pop_quick_exit_def quick_exit_good_def pop_if_err)
qed (simp add: quiet_def quick_exit_good_def)

interpretation thread_list: quiet_dtors "pop_thread dso" thread_callbacks thread_good
    "\<lambda>g. (exit_mtx g, exit_queue g, quick_exit_mtx g, quick_exit_queue g, user_world g)" dso
    "quiet act" "\<lambda>e (m, q, n, r, w). (m, q, n, r, act e w)" for dso and act :: "dtor_element \<Rightarrow> 'w \<Rightarrow> 'w"
proof unfold_locales
  fix g :: "'w process"
  assume good: "thread_good g"
  show "\<exists>r s'. pop_thread dso g = Some (r, s') \<and> thread_good s' \<and>
      (exit_mtx s', exit_queue s', quick_exit_mtx s', quick_exit_queue s', user_world s') =
      (exit_mtx g, exit_queue g, quick_exit_mtx g, quick_exit_queue g, user_world g) \<and>
      take_newest dso (thread_callbacks g) = (r, thread_callbacks s')"
  proof (cases "thread_queue g")
    case None
    then show ?thesis
      by (simp add: pop_thread_def thread_good_def thread_callbacks_def take_newest_def)
  next
    case (Some q)
    with good have "dq_ok q" by (simp add: thread_good_def)
    from pop_refines[OF this, of dso] Some show ?thesis
      by (cases "dtor_queue_pop_common dso q")
        (auto simp: pop_thread_def thread_good_def thread_callbacks_def MCF_dtor_queue_pop_def
          do_pop_element_common_def split: option.splits)
  qed
qed (simp add: quiet_def thread_good_def thread_callbacks_def)

section \<open>Ending a process\<close>

definition process_good :: "'w process \<Rightarrow> bool" where
  "process_good g \<longleftrightarrow> exit_good g \<and> quick_exit_good g \<and> thread_good g"

lemma fold_act3:
  "fold (\<lambda>e (m, q, t, w). (m, q, t, act e w)) es (m, q, t, w) = (m, q, t, fold act es w)"
  by (induction es arbitrary: w) auto

lemma fold_act4:
  "fold (\<lambda>e (m, q, n, r, w). (m, q, n, r, act e w)) es (m, q, n, r, w) = (m, q, n, r, fold act es w)"
  by (induction es arbitrary: w) auto

lemma finalize_thread_runs:
  assumes "thread_good g"
  obtains g' where "do_finalize_thread dso (quiet act) g = Some g'" "thread_good g'"
    "thread_callbacks g' = filter (\<lambda>e. \<not> belongs dso e) (thread_callbacks g)"
    "exit_mtx g' = exit_mtx g" "exit_queue g' = exit_queue g" "quick_exit_mtx g' = quick_exit_mtx g"
    "quick_exit_queue g' = quick_exit_queue g"
    "user_world g' = fold act (rev (filter (belongs dso) (thread_callbacks g))) (user_world g)"
proof (cases "thread_queue g = None")
  case True
  then show thesis using assms
    by (intro that[of g]) (simp_all add: do_finalize_thread_def thread_callbacks_def)
next
  case False
  from thread_list.drain_order[OF assms, of dso act] that False show thesis
    by (fastforce simp: do_finalize_thread_def fold_act4)
qed

lemma exit_list_runs:
  assumes "exit_good g"
  obtains g' where "MCF_run_static_dtors (pop_exit dso) (quiet act) g = Some g'" "exit_good g'"
    "callbacks (exit_queue g') = filter (\<lambda>e. \<not> belongs dso e) (callbacks (exit_queue g))"
    "thread_queue g' = thread_queue g" "quick_exit_mtx g' = quick_exit_mtx g"
    "quick_exit_queue g' = quick_exit_queue g"
    "user_world g' = fold act (rev (filter (belongs dso) (callbacks (exit_queue g)))) (user_world g)"
  using exit_list.drain_order[OF assms, of dso act] that
  by (fastforce simp: MCF_run_static_dtors_def fold_act3)

lemma finalize_runs:
  assumes "process_good g"
  shows "case MCF_cxa_finalize dso (quiet act) g of
      None \<Rightarrow> False
    | Some g' \<Rightarrow>
        process_good g' \<and>
        user_world g' =
          fold act (rev (filter (belongs dso) (callbacks (exit_queue g))))
            (fold act (rev (filter (belongs dso) (thread_callbacks g))) (user_world g)) \<and>
        thread_callbacks g' = filter (\<lambda>e. \<not> belongs dso e) (thread_callbacks g) \<and>
        callbacks (exit_queue g') = filter (\<lambda>e. \<not> belongs dso e) (callbacks (exit_queue g)) \<and>
        callbacks (quick_exit_queue g') = filter (\<lambda>e. \<not> belongs dso e) (callbacks (quick_exit_queue g))"
proof -
  have good: "exit_good g" "quick_exit_good g" "thread_good g" using assms by (simp_all add: process_good_def)
  obtain g1 where 1: "do_finalize_thread dso (quiet act) g = Some g1" "thread_good g1"
    "thread_callbacks g1 = filter (\<lambda>e. \<not> belongs dso e) (thread_callbacks g)"
    "exit_mtx g1 = exit_mtx g" "exit_queue g1 = exit_queue g" "quick_exit_mtx g1 = quick_exit_mtx g"
    "quick_exit_queue g1 = quick_exit_queue g"
    "user_world g1 = fold act (rev (filter (belongs dso) (thread_callbacks g))) (user_world g)"
    by (rule finalize_thread_runs[OF good(3)])
  have "exit_good g1" using good(1) 1 by (simp add: exit_good_def)
  then obtain g2 where 2: "MCF_run_static_dtors (pop_exit dso) (quiet act) g1 = Some g2" "exit_good g2"
    "callbacks (exit_queue g2) = filter (\<lambda>e. \<not> belongs dso e) (callbacks (exit_queue g1))"
    "thread_queue g2 = thread_queue g1" "quick_exit_mtx g2 = quick_exit_mtx g1"
    "quick_exit_queue g2 = quick_exit_queue g1"
    "user_world g2 = fold act (rev (filter (belongs dso) (callbacks (exit_queue g1)))) (user_world g1)"
    by (rule exit_list_runs)
  have q: "mtx_locked (quick_exit_mtx g2) = 0" "dq_ok (quick_exit_queue g2)"
    using good(2) 1 2 by (simp_all add: quick_exit_good_def)
  obtain m' m'' where m: "lock_alone (quick_exit_mtx g2) = Some m'" "unlock_alone m' = Some m''" "mtx_locked m'' = 0"
    by (rule lock_then_unlock[OF q(1)])
  obtain n q' where r: "MCF_dtor_queue_remove (quick_exit_queue g2) dso = (n, q')" by fastforce
  have "dq_ok q' \<and> callbacks q' = filter (\<lambda>e. \<not> belongs dso e) (callbacks (quick_exit_queue g2))"
    using remove_refines[OF q(2), of dso 0] r
    by (auto simp: MCF_dtor_queue_remove_def do_pop_element_common_def split: prod.splits)
  with 1 2 m r show ?thesis
    by (simp add: MCF_cxa_finalize_def process_good_def exit_good_def quick_exit_good_def
        thread_good_def thread_callbacks_def)
qed

text \<open>C11. \<open>__MCF_cxa_finalize\<close> with callbacks that do not register others: those of the module,
  or all of them for a null handle, run newest first, the ones of the calling thread before
  the static ones, each once; the others stay registered, in their order; the quick-exit
  callbacks of the module are dropped without being run, and the mutexes are free again.\<close>

theorem cxa_finalize_runs:
  assumes "process_good g"
  shows "case MCF_cxa_finalize dso (quiet act) g of
      None \<Rightarrow> False
    | Some g' \<Rightarrow>
        process_good g' \<and>
        user_world g' =
          fold act (rev (filter (belongs dso) (callbacks (exit_queue g))))
            (fold act (rev (filter (belongs dso) (thread_callbacks g))) (user_world g)) \<and>
        thread_callbacks g' = filter (\<lambda>e. \<not> belongs dso e) (thread_callbacks g) \<and>
        callbacks (exit_queue g') = filter (\<lambda>e. \<not> belongs dso e) (callbacks (exit_queue g)) \<and>
        callbacks (quick_exit_queue g') = filter (\<lambda>e. \<not> belongs dso e) (callbacks (quick_exit_queue g))"
  using assms by (rule finalize_runs)

definition sample_process :: "uptr list process" where
  "sample_process = \<lparr>exit_mtx = MCF_mutex_init, exit_queue = sample_queue, quick_exit_mtx = MCF_mutex_init,
     quick_exit_queue = sample_queue, thread_queue = Some sample_queue, user_world = []\<rparr>"

definition log_call :: "dtor_element \<Rightarrow> uptr list \<Rightarrow> uptr list" where
  "log_call e w = w @ [dtor_fn e]"

lemma sample_process_good: "process_good sample_process"
  using sample_queue_ok
  by (simp add: sample_process_def process_good_def exit_good_def quick_exit_good_def thread_good_def
      MCF_mutex_init_def)

theorem cxa_finalize_runs_witness:
  "case MCF_cxa_finalize 8 (quiet log_call) sample_process of
      None \<Rightarrow> False
    | Some g' \<Rightarrow>
        process_good g' \<and>
        user_world g' =
          fold log_call (rev (filter (belongs 8) (callbacks (exit_queue sample_process))))
            (fold log_call (rev (filter (belongs 8) (thread_callbacks sample_process))) (user_world sample_process)) \<and>
        thread_callbacks g' = filter (\<lambda>e. \<not> belongs 8 e) (thread_callbacks sample_process) \<and>
        callbacks (exit_queue g') = filter (\<lambda>e. \<not> belongs 8 e) (callbacks (exit_queue sample_process)) \<and>
        callbacks (quick_exit_queue g') = filter (\<lambda>e. \<not> belongs 8 e) (callbacks (quick_exit_queue sample_process))"
  by (rule cxa_finalize_runs[OF sample_process_good])



section \<open>Registering during exit\<close>

lemma atexit_registers:
  assumes "exit_good g"
  shows "\<exists>err g'. MCF_cxa_atexit memory dtor this dso g = Some (err, g') \<and> exit_good g' \<and>
    callbacks (exit_queue g') = callbacks (exit_queue g) @
      (if err = 0 then [\<lparr>dtor_fn = dtor, dtor_this = this, dtor_dso = dso\<rparr>] else [])"
proof -
  have g: "mtx_locked (exit_mtx g) = 0" "dq_ok (exit_queue g)" using assms by (simp_all add: exit_good_def)
  define elem where "elem = \<lparr>dtor_fn = dtor, dtor_this = this, dtor_dso = dso\<rparr>"
  obtain m' m'' where m: "lock_alone (exit_mtx g) = Some m'" "unlock_alone m' = Some m''" "mtx_locked m'' = 0"
    by (rule lock_then_unlock[OF g(1)])
  obtain err q where p: "MCF_dtor_queue_push memory (exit_queue g) (Some elem) = (err, q)" by fastforce
  have "dq_ok q \<and> callbacks q = callbacks (exit_queue g) @ (if err = 0 then [elem] else [])"
    using push_cases[OF g(2), of "Some elem" 1 memory] p g(2)
    unfolding MCF_dtor_queue_push_def by (auto split: if_splits)
  with m p show ?thesis
    by (simp add: MCF_cxa_atexit_def push_locked_def elem_def[symmetric] exit_good_def)
qed

text \<open>C13. The static callbacks run with the mutex free, so they may register callbacks
  themselves. If no chain of registrations goes on for ever (a callback only registers ones
  of a smaller rank), the loop of \<open>__MCF_run_static_dtors\<close> ends with no callback of the
  module left, those included that were registered meanwhile.\<close>

theorem exit_registrations_end:
  fixes rank :: "dtor_element \<Rightarrow> nat"
  assumes "exit_good g"
    and "\<And>e h. exit_good h \<Longrightarrow> exit_good (call e h) \<and>
      (\<exists>new. callbacks (exit_queue (call e h)) = callbacks (exit_queue h) @ new \<and> (\<forall>x \<in> set new. rank x < rank e))"
  shows "\<exists>g'. MCF_run_static_dtors (pop_exit dso) call g = Some g' \<and> exit_good g' \<and>
    (\<forall>e \<in> set (callbacks (exit_queue g')). \<not> belongs dso e)"
  unfolding MCF_run_static_dtors_def
  by (rule exit_list.drain_ends[where rank = rank]) (use assms in auto)

definition chain_call :: "uptr list callback" where
  "chain_call e g =
     (if dtor_fn e \<le> 1 then g else snd (the (MCF_cxa_atexit True (dtor_fn e - 1) 0 0 g)))"

theorem exit_registrations_end_witness:
  "\<exists>g'. MCF_run_static_dtors (pop_exit 0) chain_call sample_process = Some g' \<and> exit_good g' \<and>
    (\<forall>e \<in> set (callbacks (exit_queue g')). \<not> belongs 0 e)"
proof (rule exit_registrations_end[where rank = "\<lambda>e. unat (dtor_fn e)"])
  show "exit_good sample_process" using sample_process_good by (simp add: process_good_def)
  fix e :: dtor_element and h :: "uptr list process"
  assume "exit_good h"
  then obtain err g' where a: "MCF_cxa_atexit True (dtor_fn e - 1) 0 0 h = Some (err, g')" "exit_good g'"
    "callbacks (exit_queue g') = callbacks (exit_queue h) @
      (if err = 0 then [\<lparr>dtor_fn = dtor_fn e - 1, dtor_this = 0, dtor_dso = 0\<rparr>] else [])"
    using atexit_registers by blast
  have "unat (dtor_fn e - 1) < unat (dtor_fn e)" if "\<not> dtor_fn e \<le> 1"
    using that unat_minus_one'[of "dtor_fn e"] by (cases "dtor_fn e = 0") auto
  with a \<open>exit_good h\<close> show "exit_good (chain_call e h) \<and> (\<exists>new. callbacks (exit_queue (chain_call e h)) =
      callbacks (exit_queue h) @ new \<and> (\<forall>x \<in> set new. unat (dtor_fn x) < unat (dtor_fn e)))"
    by (auto simp: chain_call_def)
qed

end
