(* ===== verification/Mcf_Tls.thy ===== *)
theory Mcf_Tls
  imports Mcf_Prelude "HOL-Library.Monad_Syntax"
begin

text \<open>
  Thread-local values: \<open>tls.h\<close> and \<open>src/tls.c\<close>. Keys are objects with a reference count on a
  heap, which maps the address of a live key to it. The table of a thread is an array for open
  addressing with linear probing; a null \<open>__begin\<close> is the empty array. The result \<open>None\<close>
  is a failed assertion or an access to a key that has been freed.

  The allocator is an argument: the number of elements that fit the block
  that \<open>__MCF_malloc_0\<close> returns for the given number, as \<open>__MCF_msize\<close> reports it, or
  \<open>None\<close> when there is no memory.
\<close>

section \<open>Keys\<close>

record tls_key =
  key_nref :: i32
  key_deleted :: bool
  key_dtor :: uptr

type_synonym key_heap = "uptr \<Rightarrow> tls_key option"

definition MCF_tls_key_new :: "uptr option \<Rightarrow> uptr \<Rightarrow> key_heap \<Rightarrow> uptr \<times> key_heap" where
  "MCF_tls_key_new place dtor_opt h =
     (case place of
        None \<Rightarrow> (0, h)
      | Some key \<Rightarrow> (key, h(key \<mapsto> \<lparr>key_nref = 1, key_deleted = False, key_dtor = dtor_opt\<rparr>)))"

definition MCF_tls_key_drop_ref_nonnull :: "uptr \<Rightarrow> key_heap \<Rightarrow> key_heap option" where
  "MCF_tls_key_drop_ref_nonnull key h =
     (case h key of
        None \<Rightarrow> None
      | Some k \<Rightarrow>
          (let old_ref = key_nref k in
           if \<not> 0 <s old_ref then None
           else if old_ref \<noteq> 1 then Some (h(key \<mapsto> k\<lparr>key_nref := old_ref - 1\<rparr>))
           else Some (h(key := None))))"

definition MCF_tls_key_get_ref :: "uptr \<Rightarrow> key_heap \<Rightarrow> i32 option" where
  "MCF_tls_key_get_ref key h = map_option key_nref (h key)"

definition MCF_tls_key_add_ref :: "uptr \<Rightarrow> key_heap \<Rightarrow> key_heap option" where
  "MCF_tls_key_add_ref key h =
     (case h key of
        None \<Rightarrow> None
      | Some k \<Rightarrow>
          (let old_ref = key_nref k in
           if old_ref <s 0x7FFFFFFF \<and> 0 <s old_ref then Some (h(key \<mapsto> k\<lparr>key_nref := old_ref + 1\<rparr>))
           else None))"

definition MCF_tls_key_drop_ref :: "uptr \<Rightarrow> key_heap \<Rightarrow> key_heap option" where
  "MCF_tls_key_drop_ref key_opt h =
     (if key_opt \<noteq> 0 then MCF_tls_key_drop_ref_nonnull key_opt h else Some h)"

definition MCF_tls_key_delete_nonnull :: "uptr \<Rightarrow> key_heap \<Rightarrow> key_heap option" where
  "MCF_tls_key_delete_nonnull key h =
     (case h key of
        None \<Rightarrow> None
      | Some k \<Rightarrow> MCF_tls_key_drop_ref_nonnull key (h(key \<mapsto> k\<lparr>key_deleted := True\<rparr>)))"

definition MCF_tls_key_delete :: "uptr \<Rightarrow> key_heap \<Rightarrow> key_heap option" where
  "MCF_tls_key_delete key_opt h =
     (if key_opt \<noteq> 0 then MCF_tls_key_delete_nonnull key_opt h else Some h)"

definition MCF_tls_key_get_destructor :: "uptr \<Rightarrow> key_heap \<Rightarrow> uptr option" where
  "MCF_tls_key_get_destructor key h = map_option key_dtor (h key)"

section \<open>The table\<close>

record tls_element =
  te_key :: uptr
  te_value :: uptr

record tls_table =
  tt_elems :: "tls_element list"
  tt_size_hint :: uptr

definition tls_table_zero :: tls_table where
  "tls_table_zero = \<lparr>tt_elems = [], tt_size_hint = 0\<rparr>"

definition empty_element :: tls_element where
  "empty_element = \<lparr>te_key = 0, te_value = 0\<rparr>"

text \<open>The multiplicative hash: a fraction of the array.\<close>

definition tls_origin :: "nat \<Rightarrow> uptr \<Rightarrow> nat" where
  "tls_origin dist key =
     (let ratio = (ucast (key div 8) :: u32) * 0x9E3779B9
      in unat (drop_bit 32 ((of_nat dist :: u64) * ucast ratio)))"

definition probe_order :: "nat \<Rightarrow> nat \<Rightarrow> nat list" where
  "probe_order dist origin = [origin..<dist] @ [0..<origin]"

definition do_linear_probe_nonempty :: "tls_table \<Rightarrow> uptr \<Rightarrow> nat option" where
  "do_linear_probe_nonempty table key =
     (let elems = tt_elems table; dist = length elems in
      if key = 0 \<or> dist = 0 \<or> \<not> unat (tt_size_hint table) \<le> dist div 2 then None
      else
        (let origin = tls_origin dist key in
         if \<not> origin < dist then None
         else if te_key (elems ! origin) = key then Some origin
         else find (\<lambda>cur. te_key (elems ! cur) = 0 \<or> te_key (elems ! cur) = key) (probe_order dist origin)))"

definition key_is_deleted :: "key_heap \<Rightarrow> uptr \<Rightarrow> bool option" where
  "key_is_deleted h key = map_option key_deleted (h key)"

definition MCF_tls_table_get :: "tls_table \<Rightarrow> uptr \<Rightarrow> key_heap \<Rightarrow> uptr option" where
  "MCF_tls_table_get table key h = do {
     deleted \<leftarrow> key_is_deleted h key;
     if deleted then Some 0
     else if tt_elems table = [] then Some 0
     else do {
       i \<leftarrow> do_linear_probe_nonempty table key;
       let elem = tt_elems table ! i;
       if te_key elem = 0 then Some 0
       else if te_key elem = key then Some (te_value elem) else None } }"

text \<open>Counting three elements for each key that is not deleted.\<close>

fun tls_capacity :: "tls_element list \<Rightarrow> key_heap \<Rightarrow> nat \<Rightarrow> nat option" where
  "tls_capacity [] h capacity = Some capacity"
| "tls_capacity (elem # elems) h capacity =
     (if te_key elem = 0 then tls_capacity elems h capacity
      else do {
        deleted \<leftarrow> key_is_deleted h (te_key elem);
        tls_capacity elems h (if deleted then capacity else capacity + 3) })"

text \<open>Moving the elements, given from the last one on, into the new array.\<close>

fun tls_relocate :: "tls_element list \<Rightarrow> tls_table \<Rightarrow> key_heap \<Rightarrow> (tls_table \<times> key_heap) option" where
  "tls_relocate [] table h = Some (table, h)"
| "tls_relocate (old # olds) table h =
     (if te_key old = 0 then tls_relocate olds table h
      else do {
        deleted \<leftarrow> key_is_deleted h (te_key old);
        if deleted then do {
          h \<leftarrow> MCF_tls_key_drop_ref_nonnull (te_key old) h;
          tls_relocate olds table h }
        else do {
          i \<leftarrow> do_linear_probe_nonempty table (te_key old);
          if te_key (tt_elems table ! i) \<noteq> 0 then None
          else tls_relocate olds
            \<lparr>tt_elems = (tt_elems table)[i := old], tt_size_hint = tt_size_hint table + 1\<rparr> h } })"

definition tls_grow :: "(nat \<Rightarrow> nat option) \<Rightarrow> tls_table \<Rightarrow> key_heap \<Rightarrow> (int \<times> tls_table \<times> key_heap) option" where
  "tls_grow alloc table h = do {
     capacity \<leftarrow> tls_capacity (tt_elems table) h 17;
     (case alloc capacity of
        None \<Rightarrow> Some (- 2, table, h)
      | Some n \<Rightarrow> do {
          (table, h) \<leftarrow> tls_relocate (rev (tt_elems table))
             \<lparr>tt_elems = replicate n empty_element, tt_size_hint = 0\<rparr> h;
          Some (0, table, h) }) }"

text \<open>The last part of \<open>__MCF_tls_table_xset\<close>: find or fill an element and store the value.
  The results are the status and the old value.\<close>

definition tls_store :: "tls_table \<Rightarrow> uptr \<Rightarrow> uptr \<Rightarrow> key_heap \<Rightarrow> (int \<times> uptr \<times> tls_table \<times> key_heap) option" where
  "tls_store table key value_opt h = do {
     i \<leftarrow> do_linear_probe_nonempty table key;
     let elem = tt_elems table ! i;
     if te_key elem = 0 then
       (if value_opt = 0 then Some (0, 0, table, h)
        else do {
          k \<leftarrow> h key;
          Some (0, te_value elem,
            \<lparr>tt_elems = (tt_elems table)[i := \<lparr>te_key = key, te_value = value_opt\<rparr>],
             tt_size_hint = tt_size_hint table + 1\<rparr>,
            h(key \<mapsto> k\<lparr>key_nref := key_nref k + 1\<rparr>)) })
     else if te_key elem = key then
       Some (0, te_value elem, table\<lparr>tt_elems := (tt_elems table)[i := elem\<lparr>te_value := value_opt\<rparr>]\<rparr>, h)
     else None }"

definition MCF_tls_table_xset ::
    "(nat \<Rightarrow> nat option) \<Rightarrow> tls_table \<Rightarrow> uptr \<Rightarrow> uptr \<Rightarrow> key_heap \<Rightarrow> (int \<times> uptr \<times> tls_table \<times> key_heap) option" where
  "MCF_tls_table_xset alloc table key value_opt h = do {
     deleted \<leftarrow> key_is_deleted h key;
     if deleted then Some (- 1, 0, table, h)
     else if value_opt = 0 \<and> tt_elems table = [] then Some (0, 0, table, h)
     else if value_opt \<noteq> 0 \<and> unat (tt_size_hint table) \<ge> length (tt_elems table) div 2 then do {
       (err, table, h) \<leftarrow> tls_grow alloc table h;
       if err \<noteq> 0 then Some (err, 0, table, h) else tls_store table key value_opt h }
     else tls_store table key value_opt h }"

section \<open>Popping\<close>

record tls_popped_element =
  pe_key :: uptr
  pe_value :: uptr
  pe_hint :: uptr

definition do_pop_element :: "tls_table \<Rightarrow> nat \<Rightarrow> tls_popped_element \<times> tls_table" where
  "do_pop_element table i =
     (let elem = tt_elems table ! i in
      (\<lparr>pe_key = te_key elem, pe_value = te_value elem, pe_hint = of_nat i\<rparr>,
       table\<lparr>tt_elems := (tt_elems table)[i := elem\<lparr>te_value := 0\<rparr>]\<rparr>))"

fun tls_find_value :: "tls_element list \<Rightarrow> key_heap \<Rightarrow> nat list \<Rightarrow> nat option option" where
  "tls_find_value elems h [] = Some None"
| "tls_find_value elems h (cur # rest) =
     (if te_value (elems ! cur) = 0 then tls_find_value elems h rest
      else do {
        deleted \<leftarrow> key_is_deleted h (te_key (elems ! cur));
        if deleted then tls_find_value elems h rest else Some (Some cur) })"

fun tls_release_keys :: "tls_element list \<Rightarrow> key_heap \<Rightarrow> key_heap option" where
  "tls_release_keys [] h = Some h"
| "tls_release_keys (elem # elems) h =
     (if te_key elem = 0 then tls_release_keys elems h
      else do {
        h \<leftarrow> MCF_tls_key_drop_ref_nonnull (te_key elem) h;
        tls_release_keys elems h })"

text \<open>The hint of an output structure may hold anything; no hint is a null \<open>out_elem_opt\<close>.\<close>

definition MCF_tls_table_pop :: "uptr option \<Rightarrow> tls_table \<Rightarrow> key_heap \<Rightarrow>
    (int \<times> tls_popped_element option \<times> tls_table \<times> key_heap) option" where
  "MCF_tls_table_pop hint_opt table h =
     (let dist = length (tt_elems table) in
      if tt_elems table = [] then Some (- 1, None, table, h)
      else do {
        found \<leftarrow> (case hint_opt of
            None \<Rightarrow> Some None
          | Some hint \<Rightarrow>
              tls_find_value (tt_elems table) h
                (probe_order dist (if unat hint < dist then unat hint + 1 else 0)));
        (case found of
           Some i \<Rightarrow> (case do_pop_element table i of (elem, table) \<Rightarrow> Some (0, Some elem, table, h))
         | None \<Rightarrow> do {
             h \<leftarrow> tls_release_keys (tt_elems table) h;
             Some (- 1, None, tls_table_zero, h) }) })"

section \<open>Probing\<close>

abbreviation slot_fits :: "tls_element list \<Rightarrow> uptr \<Rightarrow> nat \<Rightarrow> bool" where
  "slot_fits es k \<equiv> (\<lambda>i. te_key (es ! i) = 0 \<or> te_key (es ! i) = k)"

definition slot :: "tls_element list \<Rightarrow> uptr \<Rightarrow> nat option" where
  "slot es k = find (slot_fits es k) (probe_order (length es) (tls_origin (length es) k))"

definition tls_count :: "tls_element list \<Rightarrow> nat" where
  "tls_count es = sum_list (map (\<lambda>e. if te_key e = 0 then 0 else 1) es)"

definition entries :: "tls_element list \<Rightarrow> (uptr \<times> uptr) set" where
  "entries es = {(te_key e, te_value e) | e. e \<in> set es \<and> te_key e \<noteq> 0}"

definition tls_keys :: "tls_element list \<Rightarrow> uptr set" where
  "tls_keys es = {te_key e | e. e \<in> set es \<and> te_key e \<noteq> 0}"

definition probes_ok :: "tls_element list \<Rightarrow> bool" where
  "probes_ok es \<longleftrightarrow> (\<forall>i < length es. te_key (es ! i) \<noteq> 0 \<longrightarrow> slot es (te_key (es ! i)) = Some i)"

lemma tls_origin_less:
  assumes "0 < dist" "dist \<le> 2 ^ 32"
  shows "tls_origin dist key < dist"
proof -
  define ratio where "ratio = (ucast (key div 8) :: u32) * 0x9E3779B9"
  have r: "unat ratio < 2 ^ 32" using unat_less_bound[of ratio] by simp
  have d: "unat (of_nat dist :: u64) = dist" using assms by (simp add: unat_of_nat)
  have "dist * unat ratio < dist * 2 ^ 32" using assms r by simp
  also have "\<dots> \<le> 2 ^ 64" using assms by simp
  finally have "dist * unat ratio < 2 ^ LENGTH(64)" by simp
  then have "unat ((of_nat dist :: u64) * ucast ratio) = dist * unat ratio"
    by (simp only: unat_word_ariths d unat_ucast_up len_num1 mod_less) (simp add: unat_ucast_up)
  then show ?thesis
    using assms r unfolding tls_origin_def Let_def ratio_def[symmetric]
    by (simp add: unat_drop less_mult_imp_div_less)
qed

lemma tls_origin_le: "dist \<le> 2 ^ 32 \<Longrightarrow> tls_origin dist key \<le> dist"
  using tls_origin_less[of dist key] by (cases "dist = 0") (simp_all add: tls_origin_def)

lemma set_probe_order: "origin \<le> dist \<Longrightarrow> set (probe_order dist origin) = {..<dist}"
  by (auto simp: probe_order_def)

lemma find_exists: "(\<exists>x \<in> set xs. P x) \<Longrightarrow> \<exists>x \<in> set xs. find P xs = Some x \<and> P x"
  by (induction xs) auto

lemma find_weaker: "find P xs = Some x \<Longrightarrow> (\<And>y. Q y \<Longrightarrow> P y) \<Longrightarrow> Q x \<Longrightarrow> find Q xs = Some x"
  by (induction xs) (auto split: if_splits)

lemma find_holds: "find P xs = Some x \<Longrightarrow> P x \<and> x \<in> set xs"
  by (induction xs) (auto split: if_splits)

lemma do_linear_probe_slot:
  assumes "k \<noteq> 0" "tt_elems t \<noteq> []" "length (tt_elems t) \<le> 2 ^ 32"
    "unat (tt_size_hint t) \<le> length (tt_elems t) div 2"
  shows "do_linear_probe_nonempty t k = slot (tt_elems t) k"
proof -
  define es where "es = tt_elems t"
  note assms = assms[folded es_def]
  have o: "tls_origin (length es) k < length es" using assms by (intro tls_origin_less) simp_all
  have "te_key (es ! tls_origin (length es) k) = k \<Longrightarrow> slot es k = Some (tls_origin (length es) k)"
    using o unfolding slot_def probe_order_def by (simp add: upt_conv_Cons)
  with o assms show ?thesis
    by (auto simp: do_linear_probe_nonempty_def Let_def slot_def es_def)
qed

lemma free_slot: "tls_count es < length es \<Longrightarrow> \<exists>i < length es. te_key (es ! i) = 0"
proof (rule ccontr)
  assume "tls_count es < length es" "\<not> (\<exists>i < length es. te_key (es ! i) = 0)"
  then have "\<forall>e \<in> set es. te_key e \<noteq> 0" by (auto simp: in_set_conv_nth)
  then have "tls_count es = length es" by (induction es) (auto simp: tls_count_def)
  with \<open>tls_count es < length es\<close> show False by simp
qed

lemma slot_found:
  assumes "tls_count es < length es" "length es \<le> 2 ^ 32"
  obtains i where "slot es k = Some i" "i < length es" "te_key (es ! i) = 0 \<or> te_key (es ! i) = k"
proof -
  note set = set_probe_order[OF tls_origin_le[OF assms(2)]]
  have "\<exists>i \<in> set (probe_order (length es) (tls_origin (length es) k)). slot_fits es k i"
    using free_slot[OF assms(1)] set by auto
  from find_exists[OF this] set that show thesis unfolding slot_def by auto
qed

text \<open>A slot depends on the keys alone; filling an empty element moves no other key.\<close>

lemma find_cong': "(\<And>x. x \<in> set xs \<Longrightarrow> P x = Q x) \<Longrightarrow> find P xs = find Q xs"
  by (induction xs) auto

lemma slot_cong:
  assumes "map te_key es = map te_key es'" "length es \<le> 2 ^ 32"
  shows "slot es k = slot es' k"
proof -
  have l: "length es = length es'" using assms(1) by (metis length_map)
  have "te_key (es ! i) = te_key (es' ! i)" if "i < length es" for i
    using assms(1) l that by (metis nth_map)
  with l set_probe_order[OF tls_origin_le[OF assms(2)]] show ?thesis
    unfolding slot_def l by (intro find_cong') auto
qed

lemma slot_fill_same:
  assumes "slot es k = Some i" "te_key (es ! i) = 0" "te_key e = k" "length es \<le> 2 ^ 32"
  shows "slot (es[i := e]) k = Some i"
proof -
  note set = set_probe_order[OF tls_origin_le[OF assms(4)]]
  have "i < length es" using find_holds[OF assms(1)[unfolded slot_def]] set by auto
  then have "slot (es[i := e]) k = slot es k"
    unfolding slot_def length_list_update using assms(2,3) set
    by (intro find_cong') (auto simp: nth_list_update)
  with assms(1) show ?thesis by simp
qed

lemma slot_fill_other:
  assumes "slot es k' = Some j" "j \<noteq> i" "te_key (es ! i) = 0"
  shows "slot (es[i := e]) k' = Some j"
  using assms(1) unfolding slot_def length_list_update
proof (rule find_weaker)
  show "slot_fits es k' y" if "slot_fits (es[i := e]) k' y" for y
    using that assms(3) by (cases "y = i") auto
  show "slot_fits (es[i := e]) k' j"
    using find_holds[OF assms(1)[unfolded slot_def]] assms(2) by simp
qed

section \<open>Well-formed tables as maps\<close>

definition tls_ok :: "tls_table \<Rightarrow> bool" where
  "tls_ok t \<longleftrightarrow>
     length (tt_elems t) \<le> 2 ^ 32 \<and> unat (tt_size_hint t) = tls_count (tt_elems t) \<and>
     2 * tls_count (tt_elems t) \<le> length (tt_elems t) \<and> probes_ok (tt_elems t) \<and>
     (\<forall>e \<in> set (tt_elems t). te_key e = 0 \<longrightarrow> te_value e = 0)"

definition tls_lookup :: "tls_table \<Rightarrow> uptr \<Rightarrow> uptr" where
  "tls_lookup t k =
     (case slot (tt_elems t) k of
        None \<Rightarrow> 0
      | Some i \<Rightarrow> if te_key (tt_elems t ! i) = k then te_value (tt_elems t ! i) else 0)"

definition tls_alive :: "uptr set \<Rightarrow> key_heap \<Rightarrow> bool" where
  "tls_alive ks h \<longleftrightarrow> (\<forall>k \<in> ks. \<exists>r. h k = Some r \<and> 0 <s key_nref r)"

lemma tls_keys_entries: "tls_keys es = fst ` entries es"
  by (force simp: tls_keys_def entries_def)

lemma tls_keys_iff: "k \<in> tls_keys es \<longleftrightarrow> k \<noteq> 0 \<and> (\<exists>i < length es. te_key (es ! i) = k)"
  unfolding tls_keys_def by (auto simp: in_set_conv_nth)

lemma entries_iff: "(k, v) \<in> entries es \<longleftrightarrow> k \<noteq> 0 \<and> (\<exists>i < length es. te_key (es ! i) = k \<and> te_value (es ! i) = v)"
  unfolding entries_def by (auto simp: in_set_conv_nth)

lemma lookup_entry: "probes_ok (tt_elems t) \<Longrightarrow> (k, v) \<in> entries (tt_elems t) \<Longrightarrow> tls_lookup t k = v"
  unfolding entries_iff probes_ok_def tls_lookup_def by auto

lemma lookup_absent: "k \<noteq> 0 \<Longrightarrow> length (tt_elems t) \<le> 2 ^ 32 \<Longrightarrow> k \<notin> tls_keys (tt_elems t) \<Longrightarrow> tls_lookup t k = 0"
  unfolding tls_lookup_def
  by (auto simp: tls_keys_iff slot_def set_probe_order[OF tls_origin_le] split: option.split dest!: find_holds)

lemma lookup_same_entries:
  assumes "tls_ok t" "tls_ok t'" "k \<noteq> 0" "\<And>v. (k, v) \<in> entries (tt_elems t') \<longleftrightarrow> (k, v) \<in> entries (tt_elems t)"
  shows "tls_lookup t' k = tls_lookup t k"
proof (cases "k \<in> tls_keys (tt_elems t)")
  case True
  then obtain v where v: "(k, v) \<in> entries (tt_elems t)" by (auto simp: tls_keys_entries)
  with assms show ?thesis
    by (metis lookup_entry tls_ok_def)
next
  case False
  then have "k \<notin> tls_keys (tt_elems t')" using assms(4) by (force simp: tls_keys_entries)
  with False assms show ?thesis by (simp add: lookup_absent tls_ok_def)
qed

text \<open>At one key, a well-formed array has one entry.\<close>

lemma probes_ok_unique:
  "probes_ok es \<Longrightarrow> i < length es \<Longrightarrow> j < length es \<Longrightarrow> te_key (es ! i) \<noteq> 0 \<Longrightarrow>
   te_key (es ! i) = te_key (es ! j) \<Longrightarrow> i = j"
  unfolding probes_ok_def by (metis option.inject)

section \<open>Filling an element and changing a value\<close>

lemma count_update:
  "i < length es \<Longrightarrow> te_key (es ! i) = 0 \<Longrightarrow> te_key e \<noteq> 0 \<Longrightarrow> tls_count (es[i := e]) = Suc (tls_count es)"
  using sum_list_map_update_nat[of i es "\<lambda>e. if te_key e = 0 then 0 else 1" e]
  by (simp add: tls_count_def)

lemma tls_count_keys: "tls_count es = sum_list (map (\<lambda>k. if k = 0 then 0 else 1) (map te_key es))"
  by (simp add: tls_count_def comp_def)

lemma entries_fill:
  "i < length es \<Longrightarrow> te_key (es ! i) = 0 \<Longrightarrow> te_key e \<noteq> 0 \<Longrightarrow>
   entries (es[i := e]) = insert (te_key e, te_value e) (entries es)"
  by (rule set_eqI) (force simp: entries_iff nth_list_update split: if_splits)

lemma fill_ok:
  assumes ok: "tls_ok t" and i: "slot (tt_elems t) (te_key e) = Some i" "te_key (tt_elems t ! i) = 0"
    and e: "te_key e \<noteq> 0" and room: "2 * Suc (tls_count (tt_elems t)) \<le> length (tt_elems t)"
  shows "tls_ok \<lparr>tt_elems = (tt_elems t)[i := e], tt_size_hint = tt_size_hint t + 1\<rparr>"
    and "entries ((tt_elems t)[i := e]) = insert (te_key e, te_value e) (entries (tt_elems t))"
    and "tls_count ((tt_elems t)[i := e]) = Suc (tls_count (tt_elems t))"
    and "te_key e \<notin> tls_keys (tt_elems t)"
proof -
  define es where "es = tt_elems t"
  have len: "length es \<le> 2 ^ 32" and p: "probes_ok es" using ok by (simp_all add: tls_ok_def es_def)
  have il: "i < length es"
    using find_holds[OF i(1)[unfolded slot_def]] set_probe_order[OF tls_origin_le[OF len]]
    by (simp add: es_def)
  show c: "tls_count ((tt_elems t)[i := e]) = Suc (tls_count (tt_elems t))"
    using il i(2) e by (simp add: count_update es_def)
  show "entries ((tt_elems t)[i := e]) = insert (te_key e, te_value e) (entries (tt_elems t))"
    using il i(2) e by (simp add: entries_fill es_def)
  show absent: "te_key e \<notin> tls_keys (tt_elems t)"
    using p i e unfolding tls_keys_iff es_def[symmetric] probes_ok_def by (metis option.inject)
  have "probes_ok (es[i := e])"
    unfolding probes_ok_def
  proof (intro allI impI)
    fix j assume j: "j < length (es[i := e])" "te_key (es[i := e] ! j) \<noteq> 0"
    show "slot (es[i := e]) (te_key (es[i := e] ! j)) = Some j"
    proof (cases "j = i")
      case True
      with il i len show ?thesis by (simp add: slot_fill_same es_def)
    next
      case False
      with j p have "slot es (te_key (es ! j)) = Some j" by (simp add: probes_ok_def)
      with False i(2) show ?thesis by (simp add: slot_fill_other es_def)
    qed
  qed
  moreover have "unat (tt_size_hint t + 1) = Suc (unat (tt_size_hint t))"
    using ok len room by (intro unat_plus_one) (simp add: tls_ok_def es_def)
  moreover have "\<forall>x \<in> set (es[i := e]). te_key x = 0 \<longrightarrow> te_value x = 0"
    using ok e set_update_subset_insert[of es i e] by (auto simp: tls_ok_def es_def)
  ultimately show "tls_ok \<lparr>tt_elems = (tt_elems t)[i := e], tt_size_hint = tt_size_hint t + 1\<rparr>"
    using ok c room by (simp add: tls_ok_def es_def)
qed

lemma value_ok:
  fixes v :: uptr
  assumes ok: "tls_ok t" and i: "i < length (tt_elems t)" "te_key (tt_elems t ! i) \<noteq> 0"
  defines "es' \<equiv> (tt_elems t)[i := (tt_elems t ! i)\<lparr>te_value := v\<rparr>]"
  shows "tls_ok (t\<lparr>tt_elems := es'\<rparr>)" "tls_keys es' = tls_keys (tt_elems t)"
    "tls_lookup (t\<lparr>tt_elems := es'\<rparr>) (te_key (tt_elems t ! i)) = v"
    "k \<noteq> te_key (tt_elems t ! i) \<Longrightarrow> tls_lookup (t\<lparr>tt_elems := es'\<rparr>) k = tls_lookup t k"
proof -
  define es where "es = tt_elems t"
  have len: "length es \<le> 2 ^ 32" and p: "probes_ok es" using ok by (simp_all add: tls_ok_def es_def)
  have keys: "map te_key es' = map te_key es"
    using i by (simp add: es'_def es_def map_update list_update_same_conv)
  have slots: "slot es' k = slot es k" for k
    using keys len by (intro slot_cong) (simp_all add: es'_def es_def)
  have nk: "te_key (es' ! j) = te_key (es ! j)" for j
    using i by (cases "j = i") (simp_all add: es'_def es_def)
  have cnt: "tls_count es' = tls_count es"
    unfolding tls_count_keys keys ..
  show "tls_keys es' = tls_keys (tt_elems t)"
    by (rule set_eqI) (simp add: tls_keys_iff nk, simp add: es'_def es_def)
  have "\<forall>x \<in> set es'. te_key x = 0 \<longrightarrow> te_value x = 0"
    using ok i set_update_subset_insert[of es i "(tt_elems t ! i)\<lparr>te_value := v\<rparr>"]
    by (auto simp: tls_ok_def es_def es'_def)
  then show "tls_ok (t\<lparr>tt_elems := es'\<rparr>)"
    using ok cnt p by (simp add: tls_ok_def es_def probes_ok_def slots nk) (simp add: es'_def)
  have "slot es (te_key (es ! i)) = Some i" using p i by (simp add: probes_ok_def es_def)
  then show "tls_lookup (t\<lparr>tt_elems := es'\<rparr>) (te_key (tt_elems t ! i)) = v"
    using i by (simp add: tls_lookup_def slots es_def[symmetric] nk) (simp add: es'_def es_def)
  show "tls_lookup (t\<lparr>tt_elems := es'\<rparr>) k = tls_lookup t k" if "k \<noteq> te_key (tt_elems t ! i)"
    using that by (simp add: tls_lookup_def slots es_def[symmetric] nk split: option.split)
      (auto simp: es'_def es_def, metis nth_list_update_neq)
qed

section \<open>References\<close>

text \<open>Dropping the references of a set of keys.\<close>

definition drop_refs :: "uptr set \<Rightarrow> key_heap \<Rightarrow> key_heap" where
  "drop_refs ks h = (\<lambda>k. if k \<notin> ks then h k
     else case h k of
       None \<Rightarrow> None
     | Some r \<Rightarrow> if key_nref r = 1 then None else Some (r\<lparr>key_nref := key_nref r - 1\<rparr>))"

lemma drop_refs_empty [simp]: "drop_refs {} h = h"
  by (simp add: drop_refs_def)

lemma drop_refs_insert: "k \<notin> ks \<Longrightarrow> drop_refs ks (drop_refs {k} h) = drop_refs (insert k ks) h"
  by (auto simp: drop_refs_def)

lemma drop_refs_other: "k \<notin> ks \<Longrightarrow> drop_refs ks h k = h k"
  by (simp add: drop_refs_def)

lemma drop_ref_result:
  "h k = Some r \<Longrightarrow> 0 <s key_nref r \<Longrightarrow> MCF_tls_key_drop_ref_nonnull k h = Some (drop_refs {k} h)"
  by (auto simp: MCF_tls_key_drop_ref_nonnull_def drop_refs_def Let_def)

definition dead_keys :: "key_heap \<Rightarrow> tls_element list \<Rightarrow> uptr set" where
  "dead_keys h es = {k \<in> tls_keys es. key_is_deleted h k = Some True}"

definition is_live :: "key_heap \<Rightarrow> tls_element \<Rightarrow> bool" where
  "is_live h e \<longleftrightarrow> te_key e \<noteq> 0 \<and> key_is_deleted h (te_key e) = Some False"

text \<open>The keys of an array, without the empty elements, are distinct.\<close>

definition distinct_keys :: "tls_element list \<Rightarrow> bool" where
  "distinct_keys es \<longleftrightarrow> distinct (filter (\<lambda>k. k \<noteq> 0) (map te_key es))"

lemma tls_keys_Cons: "tls_keys (e # es) = (if te_key e = 0 then {} else {te_key e}) \<union> tls_keys es"
  by (auto simp: tls_keys_def)

lemma tls_keys_set: "tls_keys es = set (filter (\<lambda>k. k \<noteq> 0) (map te_key es))"
  by (auto simp: tls_keys_def)

lemma probes_ok_distinct: "probes_ok es \<Longrightarrow> distinct_keys es"
proof -
  assume p: "probes_ok es"
  have "distinct_keys es" if "\<And>i j. i < length es \<Longrightarrow> j < length es \<Longrightarrow> te_key (es ! i) \<noteq> 0 \<Longrightarrow>
      te_key (es ! i) = te_key (es ! j) \<Longrightarrow> i = j" for es
    using that
  proof (induction es)
    case (Cons e es)
    have "distinct_keys es"
    proof (rule Cons.IH)
      fix i j assume "i < length es" "j < length es" "te_key (es ! i) \<noteq> 0" "te_key (es ! i) = te_key (es ! j)"
      with Cons.prems[of "Suc i" "Suc j"] show "i = j" by simp
    qed
    moreover have "te_key e \<noteq> 0 \<Longrightarrow> te_key e \<notin> te_key ` set es"
    proof
      assume "te_key e \<noteq> 0" "te_key e \<in> te_key ` set es"
      then obtain j where "j < length es" "te_key e = te_key (es ! j)" by (auto simp: in_set_conv_nth)
      with Cons.prems[of 0 "Suc j"] \<open>te_key e \<noteq> 0\<close> show False by simp
    qed
    ultimately show ?case by (auto simp: distinct_keys_def)
  qed (simp add: distinct_keys_def)
  from this[of es] probes_ok_unique[OF p] show "distinct_keys es" by blast
qed

section \<open>Growing\<close>

lemma tls_capacity_result:
  "tls_alive (tls_keys es) h \<Longrightarrow> tls_capacity es h c = Some (c + 3 * length (filter (is_live h) es))"
proof (induction es arbitrary: c)
  case (Cons e es)
  then have "tls_alive (tls_keys es) h" by (auto simp: tls_alive_def tls_keys_Cons)
  note IH = Cons.IH[OF this]
  show ?case
  proof (cases "te_key e = 0")
    case True
    with IH show ?thesis by (simp add: is_live_def)
  next
    case False
    with Cons.prems obtain r where "h (te_key e) = Some r" by (auto simp: tls_alive_def tls_keys_Cons)
    with False IH show ?thesis by (cases "key_deleted r") (simp_all add: is_live_def key_is_deleted_def)
  qed
qed simp

lemma slot_for_new:
  assumes "tls_ok t" "k \<noteq> 0" "k \<notin> tls_keys (tt_elems t)" "2 * Suc (tls_count (tt_elems t)) \<le> length (tt_elems t)"
  obtains i where "do_linear_probe_nonempty t k = Some i" "slot (tt_elems t) k = Some i"
    "i < length (tt_elems t)" "te_key (tt_elems t ! i) = 0"
proof -
  have *: "tls_count (tt_elems t) < length (tt_elems t)" "length (tt_elems t) \<le> 2 ^ 32"
    using assms by (simp_all add: tls_ok_def)
  from slot_found[OF this, of k] obtain i where
    i: "slot (tt_elems t) k = Some i" "i < length (tt_elems t)" "te_key (tt_elems t ! i) = 0 \<or> te_key (tt_elems t ! i) = k"
    by blast
  have "te_key (tt_elems t ! i) = 0" using i assms(2,3) by (auto simp: tls_keys_iff)
  moreover have "do_linear_probe_nonempty t k = slot (tt_elems t) k"
    using assms * by (intro do_linear_probe_slot) (auto simp: tls_ok_def)
  ultimately show thesis using i that by simp
qed

lemma relocate_result:
  assumes "tls_ok t" "distinct_keys olds" "tls_keys olds \<inter> tls_keys (tt_elems t) = {}"
    "tls_alive (tls_keys olds) h"
    "2 * (tls_count (tt_elems t) + length (filter (is_live h) olds)) \<le> length (tt_elems t)"
  shows "\<exists>t'. tls_relocate olds t h = Some (t', drop_refs (dead_keys h olds) h) \<and> tls_ok t' \<and>
    length (tt_elems t') = length (tt_elems t) \<and>
    tls_count (tt_elems t') = tls_count (tt_elems t) + length (filter (is_live h) olds) \<and>
    entries (tt_elems t') = entries (tt_elems t) \<union> entries (filter (is_live h) olds)"
  using assms
proof (induction olds arbitrary: t h)
  case Nil
  then show ?case by (simp add: dead_keys_def tls_keys_def entries_def)
next
  case (Cons e olds)
  show ?case
  proof (cases "te_key e = 0")
    case True
    with Cons show ?thesis
      by (simp add: distinct_keys_def tls_keys_Cons is_live_def dead_keys_def)
  next
    case False
    then obtain r where r: "h (te_key e) = Some r" "0 <s key_nref r"
      using Cons.prems(4) by (auto simp: tls_alive_def tls_keys_Cons)
    have new: "te_key e \<notin> tls_keys olds" "te_key e \<notin> tls_keys (tt_elems t)" "distinct_keys olds"
      using Cons.prems(2,3) False by (auto simp: distinct_keys_def tls_keys_Cons tls_keys_set)
    show ?thesis
    proof (cases "key_deleted r")
      case True
      define h1 where "h1 = drop_refs {te_key e} h"
      have same: "k \<in> tls_keys olds \<Longrightarrow> h1 k = h k" for k
        using new(1) by (auto simp: h1_def drop_refs_def)
      then have same': "x \<in> set olds \<Longrightarrow> te_key x \<noteq> 0 \<Longrightarrow> h1 (te_key x) = h (te_key x)" for x
        by (auto simp: tls_keys_def)
      have live: "filter (is_live h1) olds = filter (is_live h) olds" "\<not> is_live h e"
        using same' True r by (auto simp: is_live_def key_is_deleted_def intro!: filter_cong)
      have dead: "dead_keys h1 olds = dead_keys h olds" "dead_keys h (e # olds) = insert (te_key e) (dead_keys h olds)"
        using same True r False by (auto simp: dead_keys_def key_is_deleted_def tls_keys_Cons)
      have "te_key e \<notin> dead_keys h olds" using new(1) by (simp add: dead_keys_def)
      then have drops: "drop_refs (dead_keys h1 olds) h1 = drop_refs (dead_keys h (e # olds)) h"
        unfolding dead by (simp add: h1_def drop_refs_insert)
      have "tls_alive (tls_keys olds) h1"
        using Cons.prems(4) same by (auto simp: tls_alive_def tls_keys_Cons)
      with Cons.IH[of t h1] Cons.prems live new
      have "\<exists>t'. tls_relocate olds t h1 = Some (t', drop_refs (dead_keys h1 olds) h1) \<and> tls_ok t' \<and>
          length (tt_elems t') = length (tt_elems t) \<and>
          tls_count (tt_elems t') = tls_count (tt_elems t) + length (filter (is_live h) olds) \<and>
          entries (tt_elems t') = entries (tt_elems t) \<union> entries (filter (is_live h) olds)"
        by (simp add: tls_keys_Cons) blast
      with True False r live drops show ?thesis
        by (simp add: key_is_deleted_def drop_ref_result h1_def)
    next
      case notdel: False
      have live: "is_live h e" using notdel r False by (simp add: is_live_def key_is_deleted_def)
      then have room: "2 * Suc (tls_count (tt_elems t)) \<le> length (tt_elems t)"
        using Cons.prems(5) by simp
      obtain i where i: "do_linear_probe_nonempty t (te_key e) = Some i" "slot (tt_elems t) (te_key e) = Some i"
        "i < length (tt_elems t)" "te_key (tt_elems t ! i) = 0"
        by (rule slot_for_new[OF Cons.prems(1) False new(2) room])
      note f = fill_ok[OF Cons.prems(1) i(2,4) False room]
      define t1 where "t1 = \<lparr>tt_elems = (tt_elems t)[i := e], tt_size_hint = tt_size_hint t + 1\<rparr>"
      have dead: "dead_keys h (e # olds) = dead_keys h olds"
        using notdel r by (auto simp: dead_keys_def tls_keys_Cons key_is_deleted_def)
      have k1: "tls_keys (tt_elems t1) = insert (te_key e) (tls_keys (tt_elems t))"
        by (simp add: tls_keys_entries t1_def f(2))
      have "\<exists>t'. tls_relocate olds t1 h = Some (t', drop_refs (dead_keys h olds) h) \<and> tls_ok t' \<and>
          length (tt_elems t') = length (tt_elems t1) \<and>
          tls_count (tt_elems t') = tls_count (tt_elems t1) + length (filter (is_live h) olds) \<and>
          entries (tt_elems t') = entries (tt_elems t1) \<union> entries (filter (is_live h) olds)"
      proof (rule Cons.IH)
        show "tls_ok t1" unfolding t1_def by (rule f(1))
        show "tls_keys olds \<inter> tls_keys (tt_elems t1) = {}"
          using Cons.prems(3) new(1) by (auto simp: k1 tls_keys_Cons split: if_splits)
        show "tls_alive (tls_keys olds) h" using Cons.prems(4) by (auto simp: tls_alive_def tls_keys_Cons)
        show "2 * (tls_count (tt_elems t1) + length (filter (is_live h) olds)) \<le> length (tt_elems t1)"
          using Cons.prems(5) live f(3) by (simp add: t1_def)
      qed (rule new(3))
      moreover have "tls_relocate (e # olds) t h = tls_relocate olds t1 h"
        using False r notdel i by (simp add: key_is_deleted_def t1_def)
      moreover have "entries (filter (is_live h) (e # olds)) =
          insert (te_key e, te_value e) (entries (filter (is_live h) olds))"
        using live False by (auto simp: entries_def)
      ultimately show ?thesis using live dead f(2,3) by (simp add: t1_def)
    qed
  qed
qed

lemma empty_array:
  assumes "n \<le> 2 ^ 32"
  shows "tls_ok \<lparr>tt_elems = replicate n empty_element, tt_size_hint = 0\<rparr>"
    "tls_count (replicate n empty_element) = 0" "entries (replicate n empty_element) = {}"
  using assms
  by (auto simp: tls_ok_def tls_count_def probes_ok_def entries_def empty_element_def sum_list_replicate)

lemma drop_refs_alive: "k \<in> ks \<Longrightarrow> tls_alive ks h \<Longrightarrow> k \<notin> ds \<Longrightarrow> \<exists>r. drop_refs ds h k = Some r \<and> 0 <s key_nref r"
  by (simp add: drop_refs_def tls_alive_def)

lemma live_count_le: "length (filter (is_live h) es) \<le> tls_count es"
  unfolding tls_count_def by (induction es) (auto simp: is_live_def)

text \<open>What a growth keeps: the entries of the keys that are not deleted.\<close>

lemma grow_result:
  assumes ok: "tls_ok t" and alive: "tls_alive (tls_keys (tt_elems t)) h"
    and alloc: "\<forall>c n. alloc c = Some n \<longrightarrow> c \<le> n \<and> n \<le> 2 ^ 32"
  obtains (memory) t' where "tls_grow alloc t h = Some (0, t', drop_refs (dead_keys h (tt_elems t)) h)"
      "tls_ok t'" "2 * Suc (tls_count (tt_elems t')) \<le> length (tt_elems t')" "tt_elems t' \<noteq> []"
      "entries (tt_elems t') = {(k, v) \<in> entries (tt_elems t). key_is_deleted h k = Some False}"
  | (no_memory) "tls_grow alloc t h = Some (- 2, t, h)"
proof -
  define c where "c = 17 + 3 * length (filter (is_live h) (tt_elems t))"
  have cap: "tls_capacity (tt_elems t) h 17 = Some c"
    using tls_capacity_result[OF alive] by (simp add: c_def)
  show thesis
  proof (cases "alloc c")
    case None
    with cap show thesis by (intro no_memory) (simp add: tls_grow_def)
  next
    case (Some n)
    with alloc have n: "c \<le> n" "n \<le> 2 ^ 32" by simp_all
    define t0 where "t0 = \<lparr>tt_elems = replicate n empty_element, tt_size_hint = 0\<rparr>"
    have keys: "tls_keys (rev (tt_elems t)) = tls_keys (tt_elems t)" by (simp add: tls_keys_def)
    have dead: "dead_keys h (rev (tt_elems t)) = dead_keys h (tt_elems t)" by (simp add: dead_keys_def keys)
    have "\<exists>t'. tls_relocate (rev (tt_elems t)) t0 h = Some (t', drop_refs (dead_keys h (rev (tt_elems t))) h) \<and>
        tls_ok t' \<and> length (tt_elems t') = length (tt_elems t0) \<and>
        tls_count (tt_elems t') = tls_count (tt_elems t0) + length (filter (is_live h) (rev (tt_elems t))) \<and>
        entries (tt_elems t') = entries (tt_elems t0) \<union> entries (filter (is_live h) (rev (tt_elems t)))"
    proof (rule relocate_result)
      show "tls_ok t0" unfolding t0_def by (rule empty_array(1)[OF n(2)])
      show "distinct_keys (rev (tt_elems t))"
        using probes_ok_distinct[of "tt_elems t"] ok by (simp add: tls_ok_def distinct_keys_def rev_map[symmetric] rev_filter[symmetric])
      show "tls_keys (rev (tt_elems t)) \<inter> tls_keys (tt_elems t0) = {}"
        by (simp add: t0_def tls_keys_entries empty_array(3)[OF n(2)])
      show "2 * (tls_count (tt_elems t0) + length (filter (is_live h) (rev (tt_elems t)))) \<le> length (tt_elems t0)"
        using n(1) by (simp add: t0_def empty_array(2)[OF n(2)] c_def rev_filter[symmetric])
    qed (simp add: keys alive)
    then obtain t' where t': "tls_relocate (rev (tt_elems t)) t0 h = Some (t', drop_refs (dead_keys h (tt_elems t)) h)"
      "tls_ok t'" "length (tt_elems t') = n" "tls_count (tt_elems t') = length (filter (is_live h) (tt_elems t))"
      "entries (tt_elems t') = entries (filter (is_live h) (rev (tt_elems t)))"
      by (auto simp: t0_def dead empty_array[OF n(2)] rev_filter[symmetric])
    show thesis
    proof (rule memory[of t'])
      show "tls_grow alloc t h = Some (0, t', drop_refs (dead_keys h (tt_elems t)) h)"
        using cap Some t'(1) by (simp add: tls_grow_def t0_def)
      show "2 * Suc (tls_count (tt_elems t')) \<le> length (tt_elems t')" "tt_elems t' \<noteq> []"
        using t' n(1) by (auto simp: c_def)
      show "entries (tt_elems t') = {(k, v) \<in> entries (tt_elems t). key_is_deleted h k = Some False}"
        unfolding t'(5) by (auto simp: entries_def is_live_def)
    qed (rule t'(2))
  qed
qed

section \<open>Storing\<close>

text \<open>How many references to a key there are, beyond the one of the table.\<close>

definition key_refs :: "key_heap \<Rightarrow> uptr \<Rightarrow> int" where
  "key_refs h k = (case h k of None \<Rightarrow> 0 | Some r \<Rightarrow> sint (key_nref r))"

definition outer_refs :: "tls_table \<Rightarrow> key_heap \<Rightarrow> uptr \<Rightarrow> int" where
  "outer_refs t h k = key_refs h k - of_bool (k \<in> tls_keys (tt_elems t))"

lemma store_result:
  assumes ok: "tls_ok t" and alive: "tls_alive (tls_keys (tt_elems t)) h"
    and key: "k \<noteq> 0" "h k = Some r" "0 <s key_nref r" "key_nref r <s 0x7FFFFFFF"
    and room: "tt_elems t \<noteq> []" "v \<noteq> 0 \<longrightarrow> 2 * Suc (tls_count (tt_elems t)) \<le> length (tt_elems t)"
  shows "\<exists>t' h'. tls_store t k v h = Some (0, tls_lookup t k, t', h') \<and> tls_ok t' \<and>
    tls_alive (tls_keys (tt_elems t')) h' \<and> tls_lookup t' k = v \<and>
    (\<forall>k'. k' \<noteq> 0 \<and> k' \<noteq> k \<longrightarrow> tls_lookup t' k' = tls_lookup t k') \<and>
    (\<forall>k'. outer_refs t' h' k' = outer_refs t h k') \<and>
    (\<forall>k'. key_is_deleted h' k' = key_is_deleted h k')"
proof -
  define es where "es = tt_elems t"
  have len: "length es \<le> 2 ^ 32" "0 < length es" using ok room(1) by (simp_all add: tls_ok_def es_def)
  have "2 * tls_count es \<le> length es" using ok by (simp add: tls_ok_def es_def)
  with len(2) have cnt: "tls_count es < length es" by linarith
  have probe: "do_linear_probe_nonempty t k = slot es k"
    using ok key(1) room(1) unfolding es_def by (intro do_linear_probe_slot) (auto simp: tls_ok_def)
  obtain i where i: "slot es k = Some i" "i < length es" "te_key (es ! i) = 0 \<or> te_key (es ! i) = k"
    by (rule slot_found[OF cnt len(1)])
  have empty_value: "te_key (es ! i) = 0 \<Longrightarrow> te_value (es ! i) = 0"
    using ok i(2) by (simp add: tls_ok_def es_def)
  have old: "tls_lookup t k = te_value (es ! i)"
    using i empty_value key(1) by (auto simp: tls_lookup_def es_def[symmetric])
  show ?thesis
  proof (cases "te_key (es ! i) = 0")
    case empty: True
    show ?thesis
    proof (cases "v = 0")
      case True
      with empty probe i old empty_value ok alive show ?thesis
        by (simp add: tls_store_def es_def)
    next
      case False
      define e where "e = \<lparr>te_key = k, te_value = v\<rparr>"
      define t' where "t' = \<lparr>tt_elems = es[i := e], tt_size_hint = tt_size_hint t + 1\<rparr>"
      define h' where "h' = h(k \<mapsto> r\<lparr>key_nref := key_nref r + 1\<rparr>)"
      have slot_e: "slot (tt_elems t) (te_key e) = Some i" "te_key (tt_elems t ! i) = 0" "te_key e \<noteq> 0"
        using i(1) empty key(1) by (simp_all add: e_def es_def)
      note f = fill_ok[OF ok slot_e room(2)[rule_format, OF False]]
      have ok': "tls_ok t'" using f(1) by (simp add: t'_def es_def)
      have ent: "entries (tt_elems t') = insert (k, v) (entries (tt_elems t))"
        using f(2) by (simp add: t'_def es_def e_def)
      then have keys: "tls_keys (tt_elems t') = insert k (tls_keys (tt_elems t))" by (simp add: tls_keys_entries)
      have absent: "k \<notin> tls_keys (tt_elems t)" using f(4) by (simp add: e_def)
      have "sint (key_nref r) + 1 < 2 ^ 31"
        using key(4) by (simp add: word_sless_alt)
      then have n: "sint (key_nref r + 1) = sint (key_nref r) + 1"
        using sint_greater_eq[of "key_nref r"] by (subst sint_word_ariths) (simp add: signed_take_bit_int_eq_self)
      have "tls_alive (tls_keys (tt_elems t')) h'"
        using alive key n unfolding keys by (auto simp: tls_alive_def h'_def word_sless_alt)
      moreover have "tls_lookup t' k = v"
        using ok' ent by (intro lookup_entry) (simp_all add: tls_ok_def)
      moreover have "tls_lookup t' k' = tls_lookup t k'" if "k' \<noteq> 0" "k' \<noteq> k" for k'
        using that ent by (intro lookup_same_entries ok ok') auto
      moreover have "outer_refs t' h' k' = outer_refs t h k'" for k'
        using n key(2) absent by (simp add: outer_refs_def key_refs_def h'_def keys)
      moreover have "tls_store t k v h = Some (0, tls_lookup t k, t', h')"
        using probe i empty False key old empty_value by (simp add: tls_store_def es_def[symmetric] t'_def h'_def e_def)
      moreover have "key_is_deleted h' k' = key_is_deleted h k'" for k'
        using key(2) by (simp add: key_is_deleted_def h'_def)
      ultimately show ?thesis using ok' by blast
    qed
  next
    case False
    then have k: "te_key (es ! i) = k" using i(3) by simp
    define t' where "t' = t\<lparr>tt_elems := es[i := (es ! i)\<lparr>te_value := v\<rparr>]\<rparr>"
    note u = value_ok[OF ok i(2)[unfolded es_def] False[unfolded es_def], where v = v]
    have "tls_store t k v h = Some (0, tls_lookup t k, t', h)"
      using probe i(1) k key(1) old by (simp add: tls_store_def es_def[symmetric] t'_def Let_def)
    with u k alive show ?thesis by (auto simp: t'_def es_def outer_refs_def)
  qed
qed

lemma sint_pred: "0 <s (x :: i32) \<Longrightarrow> sint (x - 1) = sint x - 1"
  using sint_less[of x] by (subst sint_word_ariths) (simp add: word_sless_alt signed_take_bit_int_eq_self)

lemma key_refs_drop:
  "tls_alive ks h \<Longrightarrow> k \<in> ks \<Longrightarrow> key_refs (drop_refs ks h) k = key_refs h k - 1"
  by (fastforce simp: tls_alive_def key_refs_def drop_refs_def sint_pred)

lemma key_refs_keep: "k \<notin> ks \<Longrightarrow> key_refs (drop_refs ks h) k = key_refs h k"
  by (simp add: key_refs_def drop_refs_def)

lemma tls_alive_subset: "tls_alive ks h \<Longrightarrow> ks' \<subseteq> ks \<Longrightarrow> tls_alive ks' h"
  by (auto simp: tls_alive_def)

lemma grown_result:
  assumes ok: "tls_ok t" "tls_ok t'" and alive: "tls_alive (tls_keys (tt_elems t)) h"
    and ent: "entries (tt_elems t') = {(k, v) \<in> entries (tt_elems t). key_is_deleted h k = Some False}"
  defines "h' \<equiv> drop_refs (dead_keys h (tt_elems t)) h"
  shows "tls_alive (tls_keys (tt_elems t')) h'" "outer_refs t' h' k = outer_refs t h k"
    "k \<noteq> 0 \<Longrightarrow> key_is_deleted h k = Some False \<Longrightarrow> tls_lookup t' k = tls_lookup t k \<and> h' k = h k"
proof -
  have keys: "tls_keys (tt_elems t') = {k \<in> tls_keys (tt_elems t). key_is_deleted h k = Some False}"
    by (force simp: tls_keys_entries ent)
  have dead: "dead_keys h (tt_elems t) = tls_keys (tt_elems t) - tls_keys (tt_elems t')"
    using alive by (auto simp: dead_keys_def keys key_is_deleted_def tls_alive_def)
  show "tls_alive (tls_keys (tt_elems t')) h'"
    unfolding tls_alive_def h'_def
  proof
    fix k assume "k \<in> tls_keys (tt_elems t')"
    then have "k \<in> tls_keys (tt_elems t)" "k \<notin> dead_keys h (tt_elems t)" by (simp_all add: dead keys)
    then show "\<exists>r. drop_refs (dead_keys h (tt_elems t)) h k = Some r \<and> 0 <s key_nref r"
      using drop_refs_alive[OF _ alive] by blast
  qed
  show "outer_refs t' h' k = outer_refs t h k"
  proof (cases "k \<in> dead_keys h (tt_elems t)")
    case True
    have "tls_alive (dead_keys h (tt_elems t)) h"
      by (rule tls_alive_subset[OF alive]) (auto simp: dead_keys_def)
    from key_refs_drop[OF this True] True show ?thesis by (simp add: outer_refs_def h'_def dead)
  next
    case False
    then have "k \<in> tls_keys (tt_elems t') \<longleftrightarrow> k \<in> tls_keys (tt_elems t)" by (auto simp: dead keys)
    with key_refs_keep[OF False] show ?thesis by (simp add: outer_refs_def h'_def)
  qed
  show "tls_lookup t' k = tls_lookup t k \<and> h' k = h k" if "k \<noteq> 0" "key_is_deleted h k = Some False"
  proof
    show "tls_lookup t' k = tls_lookup t k"
      using that by (intro lookup_same_entries ok) (auto simp: ent)
    show "h' k = h k" using that by (simp add: h'_def drop_refs_def dead_keys_def)
  qed
qed

section \<open>The contract of a table\<close>

lemma get_result:
  assumes "tls_ok t" "k \<noteq> 0" "h k = Some r"
  shows "MCF_tls_table_get t k h = Some (if key_deleted r then 0 else tls_lookup t k)"
proof (cases "key_deleted r \<or> tt_elems t = []")
  case True
  with assms show ?thesis
    by (auto simp: MCF_tls_table_get_def key_is_deleted_def tls_lookup_def slot_def probe_order_def tls_origin_def)
next
  case False
  have "length (tt_elems t) \<le> 2 ^ 32" "2 * tls_count (tt_elems t) \<le> length (tt_elems t)"
    using assms(1) by (simp_all add: tls_ok_def)
  moreover have "0 < length (tt_elems t)" using False by simp
  ultimately have *: "tls_count (tt_elems t) < length (tt_elems t)" "length (tt_elems t) \<le> 2 ^ 32" by linarith+
  obtain i where i: "slot (tt_elems t) k = Some i" "i < length (tt_elems t)"
    "te_key (tt_elems t ! i) = 0 \<or> te_key (tt_elems t ! i) = k"
    by (rule slot_found[OF *])
  have "do_linear_probe_nonempty t k = slot (tt_elems t) k"
    using assms False by (intro do_linear_probe_slot) (auto simp: tls_ok_def)
  with i False assms show ?thesis
    by (auto simp: MCF_tls_table_get_def key_is_deleted_def tls_lookup_def Let_def)
qed

text \<open>Storing into a table \<open>t1\<close> that stands for \<open>t\<close>.\<close>

definition stands_for :: "tls_table \<Rightarrow> key_heap \<Rightarrow> tls_table \<Rightarrow> key_heap \<Rightarrow> bool" where
  "stands_for t1 h1 t h \<longleftrightarrow>
     tls_ok t1 \<and> tls_alive (tls_keys (tt_elems t1)) h1 \<and> (\<forall>k. outer_refs t1 h1 k = outer_refs t h k) \<and>
     (\<forall>k. k \<noteq> 0 \<and> key_is_deleted h k = Some False \<longrightarrow> tls_lookup t1 k = tls_lookup t k \<and> h1 k = h k)"

definition set_result :: "tls_table \<Rightarrow> uptr \<Rightarrow> uptr \<Rightarrow> key_heap \<Rightarrow> (int \<times> uptr \<times> tls_table \<times> key_heap) option \<Rightarrow> bool" where
  "set_result t k v h r \<longleftrightarrow>
     (\<exists>t' h'. r = Some (0, tls_lookup t k, t', h') \<and> tls_ok t' \<and> tls_alive (tls_keys (tt_elems t')) h' \<and>
        tls_lookup t' k = v \<and> (\<forall>k. outer_refs t' h' k = outer_refs t h k) \<and> key_is_deleted h' k = Some False \<and>
        (\<forall>k'. k' \<noteq> 0 \<and> k' \<noteq> k \<and> key_is_deleted h k' = Some False \<longrightarrow>
           tls_lookup t' k' = tls_lookup t k' \<and> key_is_deleted h' k' = Some False))"

lemma store_set_result:
  assumes "stands_for t1 h1 t h"
    and key: "k \<noteq> 0" "h k = Some r" "0 <s key_nref r" "key_nref r <s 0x7FFFFFFF" "\<not> key_deleted r"
    and room: "tt_elems t1 \<noteq> []" "v \<noteq> 0 \<longrightarrow> 2 * Suc (tls_count (tt_elems t1)) \<le> length (tt_elems t1)"
  shows "set_result t k v h (tls_store t1 k v h1)"
proof -
  have del: "key_is_deleted h k = Some False" using key by (simp add: key_is_deleted_def)
  have s: "tls_ok t1" "tls_alive (tls_keys (tt_elems t1)) h1" "h1 k = Some r" "tls_lookup t1 k = tls_lookup t k"
    using assms(1) del key(1,2) by (simp_all add: stands_for_def)
  obtain t' h' where "tls_store t1 k v h1 = Some (0, tls_lookup t1 k, t', h') \<and> tls_ok t' \<and>
    tls_alive (tls_keys (tt_elems t')) h' \<and> tls_lookup t' k = v \<and>
    (\<forall>k'. k' \<noteq> 0 \<and> k' \<noteq> k \<longrightarrow> tls_lookup t' k' = tls_lookup t1 k') \<and>
    (\<forall>k'. outer_refs t' h' k' = outer_refs t1 h1 k') \<and>
    (\<forall>k'. key_is_deleted h' k' = key_is_deleted h1 k')"
    using store_result[where v = v, OF s(1,2) key(1) s(3) key(3,4) room] by (elim exE)
  then have
    t': "tls_store t1 k v h1 = Some (0, tls_lookup t1 k, t', h')" "tls_ok t'" "tls_alive (tls_keys (tt_elems t')) h'"
      "tls_lookup t' k = v" "\<And>k'. k' \<noteq> 0 \<Longrightarrow> k' \<noteq> k \<Longrightarrow> tls_lookup t' k' = tls_lookup t1 k'"
      "\<And>k'. outer_refs t' h' k' = outer_refs t1 h1 k'" "\<And>k'. key_is_deleted h' k' = key_is_deleted h1 k'"
    by simp_all
  have "key_is_deleted h1 k' = Some False" if "k' \<noteq> 0" "key_is_deleted h k' = Some False" for k'
    using assms(1) that by (simp add: stands_for_def key_is_deleted_def)
  note h1 = this
  have "tls_lookup t' k' = tls_lookup t k'" if "k' \<noteq> 0" "k' \<noteq> k" "key_is_deleted h k' = Some False" for k'
    using t'(5)[OF that(1,2)] assms(1) that by (simp add: stands_for_def)
  moreover have "outer_refs t' h' k' = outer_refs t h k'" for k'
    using t'(6)[of k'] assms(1) by (simp add: stands_for_def)
  moreover have "key_is_deleted h' k' = Some False" if "k' \<noteq> 0" "key_is_deleted h k' = Some False" for k'
    using t'(7)[of k'] h1[OF that] by simp
  moreover have "tls_store t1 k v h1 = Some (0, tls_lookup t k, t', h')" using t'(1) s(4) by simp
  moreover have "key_is_deleted h' k = Some False" using t'(7)[of k] h1[OF key(1) del] by simp
  ultimately show ?thesis
    unfolding set_result_def using t'(2-4)
    by (intro exI[of _ t'] exI[of _ h'] conjI allI impI) simp_all
qed

lemma stands_for_refl: "tls_ok t \<Longrightarrow> tls_alive (tls_keys (tt_elems t)) h \<Longrightarrow> stands_for t h t h"
  by (simp add: stands_for_def)

lemma xset_live:
  assumes ok: "tls_ok t" "tls_alive (tls_keys (tt_elems t)) h"
    and key: "k \<noteq> 0" "h k = Some r" "0 <s key_nref r" "key_nref r <s 0x7FFFFFFF" "\<not> key_deleted r"
    and alloc: "\<forall>c n. alloc c = Some n \<longrightarrow> c \<le> n \<and> n \<le> 2 ^ 32"
  shows "set_result t k v h (MCF_tls_table_xset alloc t k v h) \<or>
    v \<noteq> 0 \<and> MCF_tls_table_xset alloc t k v h = Some (- 2, 0, t, h)"
proof -
  have del: "key_is_deleted h k = Some False" using key by (simp add: key_is_deleted_def)
  have "length (tt_elems t) div 2 \<le> unat (tt_size_hint t)" if "tt_elems t = []" using that by simp
  then consider (unset) "v = 0 \<and> tt_elems t = []"
    | (grow) "v \<noteq> 0 \<and> unat (tt_size_hint t) \<ge> length (tt_elems t) div 2"
    | (direct) "tt_elems t \<noteq> [] \<and> (v \<noteq> 0 \<longrightarrow> \<not> unat (tt_size_hint t) \<ge> length (tt_elems t) div 2)"
    by blast
  then show ?thesis
  proof cases
    case unset
    have "tls_lookup t k = 0" using unset by (simp add: tls_lookup_def slot_def probe_order_def tls_origin_def)
    with unset del ok key have "set_result t k v h (Some (0, 0, t, h))" by (auto simp: set_result_def)
    with unset del show ?thesis by (simp add: MCF_tls_table_xset_def)
  next
    case grow
    show ?thesis
    proof (rule grow_result[OF ok alloc], goal_cases)
      case memory: (1 t')
      have "stands_for t' (drop_refs (dead_keys h (tt_elems t)) h) t h"
        unfolding stands_for_def using grown_result[OF ok(1) memory(2) ok(2) memory(5)] memory(2) by blast
      from store_set_result[where v = v, OF this key memory(4)] memory(1,3) grow del show ?thesis
        by (simp add: MCF_tls_table_xset_def)
    next
      case 2
      with grow del show ?thesis by (simp add: MCF_tls_table_xset_def)
    qed
  next
    case direct
    then have "v \<noteq> 0 \<longrightarrow> 2 * Suc (tls_count (tt_elems t)) \<le> length (tt_elems t)"
      using ok(1) by (simp add: tls_ok_def not_le) linarith
    from store_set_result[OF stands_for_refl[OF ok] key _ this] direct del show ?thesis
      by (auto simp: MCF_tls_table_xset_def)
  qed
qed

lemma get_lookup: "tls_ok t \<Longrightarrow> k \<noteq> 0 \<Longrightarrow> key_is_deleted h k = Some False \<Longrightarrow> MCF_tls_table_get t k h = Some (tls_lookup t k)"
  using get_result by (fastforce simp: key_is_deleted_def)

text \<open>C14. Setting a value. For a deleted key the result is -1, without memory it is -2, and
  nothing changes. Otherwise it is 0 with the value that was there before, the new value is what
  the key has from now on and every other key that is not deleted keeps its value, even when the
  array was replaced. The load factor stays at most one half, every stored key is still found
  by probing, no assertion fails, and the references that anybody but the table holds to any key
  stay as they are: the table takes one with a new key and drops one with each key it discards.\<close>

theorem tls_set_then_get:
  assumes "tls_ok t" "tls_alive (tls_keys (tt_elems t)) h"
    and "k \<noteq> 0" "h k = Some r" "0 <s key_nref r" "key_nref r <s 0x7FFFFFFF"
    and alloc: "\<forall>c n. alloc c = Some n \<longrightarrow> c \<le> n \<and> n \<le> 2 ^ 32"
  shows "case MCF_tls_table_xset alloc t k v h of
      None \<Rightarrow> False
    | Some (err, old, t', h') \<Rightarrow>
        tls_ok t' \<and> tls_alive (tls_keys (tt_elems t')) h' \<and>
        (\<forall>k'. outer_refs t' h' k' = outer_refs t h k') \<and>
        (if key_deleted r then err = - 1 \<and> t' = t \<and> h' = h
         else if err = 0 then
           Some old = MCF_tls_table_get t k h \<and> MCF_tls_table_get t' k h' = Some v \<and>
           (\<forall>k' r'. k' \<noteq> 0 \<and> k' \<noteq> k \<and> h k' = Some r' \<and> \<not> key_deleted r' \<longrightarrow>
              MCF_tls_table_get t' k' h' = MCF_tls_table_get t k' h)
         else err = - 2 \<and> v \<noteq> 0 \<and> t' = t \<and> h' = h)"
proof (cases "key_deleted r")
  case True
  with assms show ?thesis by (simp add: MCF_tls_table_xset_def key_is_deleted_def)
next
  case False
  then have del: "key_is_deleted h k = Some False" using assms(4) by (simp add: key_is_deleted_def)
  note x = xset_live[where v = v, OF assms(1-6) False alloc]
  show ?thesis
  proof (cases "set_result t k v h (MCF_tls_table_xset alloc t k v h)")
    case True
    then obtain t' h' where t': "MCF_tls_table_xset alloc t k v h = Some (0, tls_lookup t k, t', h')"
      "tls_ok t'" "tls_alive (tls_keys (tt_elems t')) h'" "tls_lookup t' k = v"
      "\<forall>k. outer_refs t' h' k = outer_refs t h k" "key_is_deleted h' k = Some False"
      "\<And>k'. k' \<noteq> 0 \<Longrightarrow> k' \<noteq> k \<Longrightarrow> key_is_deleted h k' = Some False \<Longrightarrow>
         tls_lookup t' k' = tls_lookup t k' \<and> key_is_deleted h' k' = Some False"
      unfolding set_result_def by blast
    have "MCF_tls_table_get t' k' h' = MCF_tls_table_get t k' h"
      if "k' \<noteq> 0" "k' \<noteq> k" "h k' = Some r'" "\<not> key_deleted r'" for k' r'
      using t'(7)[OF that(1,2)] get_lookup[OF t'(2) that(1), of h'] get_lookup[OF assms(1) that(1), of h] that(3,4)
      by (simp add: key_is_deleted_def)
    moreover have "MCF_tls_table_get t k h = Some (tls_lookup t k)" "MCF_tls_table_get t' k h' = Some v"
      using get_lookup[OF assms(1,3) del] get_lookup[OF t'(2) assms(3) t'(6)] t'(4) by simp_all
    ultimately show ?thesis using False t'(1,2,3,5) by (simp, blast)
  next
    case no: False
    with x have "v \<noteq> 0" "MCF_tls_table_xset alloc t k v h = Some (- 2, 0, t, h)" by simp_all
    with False assms(1,2) show ?thesis by simp
  qed
qed

definition heap_alloc :: "nat \<Rightarrow> nat option" where
  "heap_alloc c = (if c \<le> 2 ^ 32 then Some c else None)"

definition one_key :: key_heap where
  "one_key = [64 \<mapsto> \<lparr>key_nref = 1, key_deleted = False, key_dtor = 0\<rparr>]"

theorem tls_set_then_get_witness:
  "case MCF_tls_table_xset heap_alloc tls_table_zero 64 5 one_key of
      None \<Rightarrow> False
    | Some (err, old, t', h') \<Rightarrow>
        tls_ok t' \<and> tls_alive (tls_keys (tt_elems t')) h' \<and>
        (\<forall>k'. outer_refs t' h' k' = outer_refs tls_table_zero one_key k') \<and>
        (if key_deleted \<lparr>key_nref = 1, key_deleted = False, key_dtor = 0\<rparr> then err = - 1 \<and> t' = tls_table_zero \<and> h' = one_key
         else if err = 0 then
           Some old = MCF_tls_table_get tls_table_zero 64 one_key \<and> MCF_tls_table_get t' 64 h' = Some 5 \<and>
           (\<forall>k' r'. k' \<noteq> 0 \<and> k' \<noteq> 64 \<and> one_key k' = Some r' \<and> \<not> key_deleted r' \<longrightarrow>
              MCF_tls_table_get t' k' h' = MCF_tls_table_get tls_table_zero k' one_key)
         else err = - 2 \<and> (5 :: uptr) \<noteq> 0 \<and> t' = tls_table_zero \<and> h' = one_key)"
proof (rule tls_set_then_get)
  show "tls_ok tls_table_zero" "tls_alive (tls_keys (tt_elems tls_table_zero)) one_key"
    by (simp_all add: tls_ok_def tls_table_zero_def tls_count_def probes_ok_def tls_alive_def tls_keys_def)
qed (simp_all add: one_key_def heap_alloc_def word_sless_alt)

section \<open>Popping\<close>

definition live_values :: "tls_table \<Rightarrow> key_heap \<Rightarrow> nat" where
  "live_values t h = sum_list (map (\<lambda>e. if is_live h e \<and> te_value e \<noteq> 0 then 1 else 0) (tt_elems t))"

lemma find_value_result:
  assumes "\<And>i. i \<in> set is \<Longrightarrow> te_value (es ! i) \<noteq> 0 \<Longrightarrow> te_key (es ! i) \<noteq> 0 \<and> h (te_key (es ! i)) \<noteq> None"
  shows "case tls_find_value es h is of
      None \<Rightarrow> False
    | Some None \<Rightarrow> \<forall>i \<in> set is. \<not> (is_live h (es ! i) \<and> te_value (es ! i) \<noteq> 0)
    | Some (Some i) \<Rightarrow> i \<in> set is \<and> is_live h (es ! i) \<and> te_value (es ! i) \<noteq> 0"
  using assms
proof (induction "is")
  case (Cons i rest)
  have IH: "case tls_find_value es h rest of
      None \<Rightarrow> False
    | Some None \<Rightarrow> \<forall>i \<in> set rest. \<not> (is_live h (es ! i) \<and> te_value (es ! i) \<noteq> 0)
    | Some (Some i) \<Rightarrow> i \<in> set rest \<and> is_live h (es ! i) \<and> te_value (es ! i) \<noteq> 0"
    by (rule Cons.IH) (use Cons.prems in auto)
  show ?case
  proof (cases "te_value (es ! i) = 0")
    case True
    with IH show ?thesis by (auto split: option.splits)
  next
    case False
    then obtain r where "te_key (es ! i) \<noteq> 0" "h (te_key (es ! i)) = Some r"
      using Cons.prems[of i] by auto
    with False IH show ?thesis
      by (cases "key_deleted r") (auto simp: key_is_deleted_def is_live_def split: option.splits)
  qed
qed simp

lemma release_keys_result:
  "tls_alive (tls_keys es) h \<Longrightarrow> distinct_keys es \<Longrightarrow> tls_release_keys es h = Some (drop_refs (tls_keys es) h)"
proof (induction es arbitrary: h)
  case (Cons e es)
  show ?case
  proof (cases "te_key e = 0")
    case True
    with Cons show ?thesis by (simp add: tls_keys_Cons distinct_keys_def)
  next
    case False
    then obtain r where r: "h (te_key e) = Some r" "0 <s key_nref r"
      using Cons.prems(1) by (auto simp: tls_alive_def tls_keys_Cons)
    have new: "te_key e \<notin> tls_keys es" "distinct_keys es"
      using Cons.prems(2) False by (auto simp: distinct_keys_def tls_keys_set)
    have "tls_alive (tls_keys es) (drop_refs {te_key e} h)"
      using Cons.prems(1) new(1) by (auto simp: tls_alive_def tls_keys_Cons drop_refs_def)
    from Cons.IH[OF this new(2)] show ?thesis
      using False r new(1) by (simp add: tls_keys_Cons drop_ref_result drop_refs_insert)
  qed
qed (simp add: tls_keys_def)

lemma pop_result:
  assumes ok: "tls_ok t" and alive: "tls_alive (tls_keys (tt_elems t)) h"
  shows "case MCF_tls_table_pop hint t h of
      None \<Rightarrow> False
    | Some (err, elem, t', h') \<Rightarrow>
        tls_ok t' \<and> tls_alive (tls_keys (tt_elems t')) h' \<and>
        (\<forall>k. outer_refs t' h' k = outer_refs t h k) \<and>
        (case elem of
           Some p \<Rightarrow> err = 0 \<and> hint \<noteq> None \<and> h' = h \<and> pe_value p \<noteq> 0 \<and> pe_key p \<noteq> 0 \<and>
             key_is_deleted h (pe_key p) = Some False \<and>
             tls_lookup t (pe_key p) = pe_value p \<and> tls_lookup t' (pe_key p) = 0 \<and>
             (\<forall>k. k \<noteq> pe_key p \<longrightarrow> tls_lookup t' k = tls_lookup t k) \<and>
             live_values t h = Suc (live_values t' h)
         | None \<Rightarrow> err = - 1 \<and> t' = tls_table_zero \<and> (hint \<noteq> None \<longrightarrow> live_values t h = 0))"
proof -
  define es where "es = tt_elems t"
  have zero: "tls_ok tls_table_zero" "tls_alive (tls_keys (tt_elems tls_table_zero)) h'" for h'
    by (simp_all add: tls_ok_def tls_table_zero_def tls_count_def probes_ok_def tls_alive_def tls_keys_def)
  have len: "length es \<le> 2 ^ 32" and p: "probes_ok es" using ok by (simp_all add: tls_ok_def es_def)
  show ?thesis
  proof (cases "es = []")
    case True
    then have "t = tls_table_zero"
      using ok by (cases t) (simp add: tls_ok_def es_def tls_table_zero_def tls_count_def unat_eq_0)
    with True zero show ?thesis
      by (simp add: MCF_tls_table_pop_def es_def live_values_def)
  next
    case False
    define found where "found = (case hint of
        None \<Rightarrow> Some None
      | Some hint \<Rightarrow> tls_find_value es h
          (probe_order (length es) (if unat hint < length es then unat hint + 1 else 0)))"
    have set: "set (probe_order (length es) (if unat hint < length es then unat hint + 1 else 0)) = {..<length es}" for hint :: uptr
      by (rule set_probe_order) simp
    have valued: "te_key (es ! i) \<noteq> 0 \<and> h (te_key (es ! i)) \<noteq> None" if "i < length es" "te_value (es ! i) \<noteq> 0" for i
    proof -
      have "te_key (es ! i) \<noteq> 0" using ok that by (auto simp: tls_ok_def es_def)
      with alive that(1) show ?thesis by (force simp: tls_alive_def tls_keys_iff es_def)
    qed
    have f: "case found of
        None \<Rightarrow> False
      | Some None \<Rightarrow> hint \<noteq> None \<longrightarrow> (\<forall>i < length es. \<not> (is_live h (es ! i) \<and> te_value (es ! i) \<noteq> 0))
      | Some (Some i) \<Rightarrow> hint \<noteq> None \<and> i < length es \<and> is_live h (es ! i) \<and> te_value (es ! i) \<noteq> 0"
    proof (cases hint)
      case (Some hint')
      define ns where "ns = probe_order (length es) (if unat hint' < length es then unat hint' + 1 else 0)"
      have n: "set ns = {..<length es}" unfolding ns_def by (rule set)
      have "found = tls_find_value es h ns" using Some by (simp add: found_def ns_def)
      with find_value_result[of ns es h] valued Some show ?thesis
        unfolding n by (auto split: option.splits)
    qed (simp add: found_def)
    have unfold_pop: "MCF_tls_table_pop hint t h = Option.bind found (\<lambda>found. case found of
           Some i \<Rightarrow> (case do_pop_element t i of (elem, table) \<Rightarrow> Some (0, Some elem, table, h))
         | None \<Rightarrow> Option.bind (tls_release_keys es h) (\<lambda>h. Some (- 1, None, tls_table_zero, h)))"
      using False unfolding MCF_tls_table_pop_def Let_def found_def es_def by (simp only: if_False)
    from f consider (one) i where "found = Some (Some i)" "hint \<noteq> None" "i < length es" "is_live h (es ! i)" "te_value (es ! i) \<noteq> 0"
      | (none) "found = Some None" "hint \<noteq> None \<longrightarrow> (\<forall>i < length es. \<not> (is_live h (es ! i) \<and> te_value (es ! i) \<noteq> 0))"
      by (auto split: option.splits)
    then show ?thesis
    proof cases
      case one
      have k: "te_key (es ! i) \<noteq> 0" "key_is_deleted h (te_key (es ! i)) = Some False"
        using one(4) by (simp_all add: is_live_def)
      note u = value_ok[OF ok one(3)[unfolded es_def] k(1)[unfolded es_def], where v = 0, folded es_def]
      have s: "slot es (te_key (es ! i)) = Some i" using p one(3) k(1) by (simp add: probes_ok_def)
      have l: "tls_lookup t (te_key (es ! i)) = te_value (es ! i)"
        using s by (simp add: tls_lookup_def es_def)
      have m: "live_values t h = Suc (live_values (t\<lparr>tt_elems := es[i := (es ! i)\<lparr>te_value := 0\<rparr>]\<rparr>) h)"
        using sum_list_map_update_nat[OF one(3), of "\<lambda>e. if is_live h e \<and> te_value e \<noteq> 0 then 1 else 0" "(es ! i)\<lparr>te_value := 0\<rparr>"]
          one(4,5) by (simp add: live_values_def es_def)
      show ?thesis
        using one(1,2,5) u k l m alive
        by (simp add: unfold_pop do_pop_element_def Let_def es_def[symmetric] outer_refs_def)
    next
      case none
      have "tls_release_keys es h = Some (drop_refs (tls_keys es) h)"
        using alive probes_ok_distinct[OF p] by (simp add: release_keys_result es_def)
      moreover have "outer_refs tls_table_zero (drop_refs (tls_keys es) h) k = outer_refs t h k" for k
        using key_refs_drop[of "tls_keys es" h k] key_refs_keep[of k "tls_keys es" h] alive
        by (cases "k \<in> tls_keys es") (simp_all add: outer_refs_def es_def tls_table_zero_def tls_keys_def[of "[]"])
      moreover have "hint \<noteq> None \<longrightarrow> live_values t h = 0"
        using none(2) by (auto simp: live_values_def es_def[symmetric] in_set_conv_nth)
      ultimately show ?thesis using none(1) zero by (simp add: unfold_pop)
    qed
  qed
qed

text \<open>C15. Popping from a table. If a value that is not null under a key that is not deleted
  is there, one such is returned and becomes null, and nothing else changes; so the number of such
  values goes down by one. Otherwise, or with no place for the element, the result is -1: the
  table is empty and has dropped its reference to each of its keys. Whatever the hint holds,
  no index is out of range and no assertion fails.\<close>

theorem tls_pop_takes_one:
  assumes ok: "tls_ok t" and alive: "tls_alive (tls_keys (tt_elems t)) h"
  shows "case MCF_tls_table_pop hint t h of
      None \<Rightarrow> False
    | Some (err, elem, t', h') \<Rightarrow>
        tls_ok t' \<and> tls_alive (tls_keys (tt_elems t')) h' \<and>
        (\<forall>k. outer_refs t' h' k = outer_refs t h k) \<and>
        (case elem of
           Some p \<Rightarrow> err = 0 \<and> hint \<noteq> None \<and> h' = h \<and> pe_value p \<noteq> 0 \<and> pe_key p \<noteq> 0 \<and>
             key_is_deleted h (pe_key p) = Some False \<and>
             tls_lookup t (pe_key p) = pe_value p \<and> tls_lookup t' (pe_key p) = 0 \<and>
             (\<forall>k. k \<noteq> pe_key p \<longrightarrow> tls_lookup t' k = tls_lookup t k) \<and>
             live_values t h = Suc (live_values t' h)
         | None \<Rightarrow> err = - 1 \<and> t' = tls_table_zero \<and> (hint \<noteq> None \<longrightarrow> live_values t h = 0))"
  using assms by (rule pop_result)

definition one_value :: tls_table where
  "one_value = \<lparr>tt_elems = [empty_element, \<lparr>te_key = 64, te_value = 5\<rparr>], tt_size_hint = 1\<rparr>"

lemma one_value_ok: "tls_ok one_value" "tls_alive (tls_keys (tt_elems one_value)) one_key"
proof -
  have "slot (tt_elems one_value) 64 = Some 1"
    by (simp add: slot_def one_value_def probe_order_def tls_origin_def empty_element_def)
  then show "tls_ok one_value"
    by (simp add: tls_ok_def one_value_def tls_count_def probes_ok_def empty_element_def less_Suc_eq)
  show "tls_alive (tls_keys (tt_elems one_value)) one_key"
    by (auto simp: tls_alive_def tls_keys_def one_value_def empty_element_def one_key_def word_sless_alt)
qed

theorem tls_pop_takes_one_witness:
  "case MCF_tls_table_pop (Some 77) one_value one_key of
      None \<Rightarrow> False
    | Some (err, elem, t', h') \<Rightarrow>
        tls_ok t' \<and> tls_alive (tls_keys (tt_elems t')) h' \<and>
        (\<forall>k. outer_refs t' h' k = outer_refs one_value one_key k) \<and>
        (case elem of
           Some p \<Rightarrow> err = 0 \<and> Some (77 :: uptr) \<noteq> None \<and> h' = one_key \<and> pe_value p \<noteq> 0 \<and> pe_key p \<noteq> 0 \<and>
             key_is_deleted one_key (pe_key p) = Some False \<and>
             tls_lookup one_value (pe_key p) = pe_value p \<and> tls_lookup t' (pe_key p) = 0 \<and>
             (\<forall>k. k \<noteq> pe_key p \<longrightarrow> tls_lookup t' k = tls_lookup one_value k) \<and>
             live_values one_value one_key = Suc (live_values t' one_key)
         | None \<Rightarrow> err = - 1 \<and> t' = tls_table_zero \<and> (Some (77 :: uptr) \<noteq> None \<longrightarrow> live_values one_value one_key = 0))"
  by (rule tls_pop_takes_one[OF one_value_ok])

end
