(* ===== verification/Cpu_Collection.thy ===== *)
theory Cpu_Collection
  imports Mcf_Prelude "HOL-Library.Multiset"
begin

text \<open>
  Collections of processors: \<open>cpu_collection.h\<close> and \<open>src/cpu_collection.c\<close>. What the system
  functions report is an argument: the records of the CPU sets, or the records of the cores with
  the affinity mask of the process and the group of the current processor. A query
  that fails carries its error code. Reading or writing at an index that is not in the allocated
  array does not happen on the collections that the first function makes, which is part of what is
  proved here; the result \<open>None\<close> of the indexed functions is a failed assertion.
\<close>

section \<open>Data\<close>

record cpu_element =
  ce_id :: u32
  ce_group :: u16
  ce_core_idx :: u8
  ce_selected :: bool
  ce_effic_cls :: u8
  ce_sched_cls :: u8

record cpu_collection =
  cc_nref :: i32
  cc_size :: u32
  cc_data :: "cpu_element list"

definition zero_element :: cpu_element where
  "zero_element = \<lparr>ce_id = 0, ce_group = 0, ce_core_idx = 0, ce_selected = False, ce_effic_cls = 0, ce_sched_cls = 0\<rparr>"

text \<open>\<open>SYSTEM_CPU_SET_INFORMATION\<close> and \<open>SYSTEM_LOGICAL_PROCESSOR_INFORMATION_EX\<close>.\<close>

record cpu_set_info =
  si_size :: u32
  si_is_cpu_set :: bool
  si_id :: u32
  si_group :: u16
  si_core :: u8
  si_effic :: u8
  si_sched :: u8

record core_info =
  ci_is_core :: bool
  ci_mask :: uptr
  ci_group :: u16
  ci_effic :: u8

datatype 'a query = Filled 'a | Failed u32

text \<open>A query with a fixed buffer, and one more with the size that the first asked for.\<close>

definition query_twice :: "'a query \<Rightarrow> 'a query \<Rightarrow> 'a query" where
  "query_twice first second =
     (case first of
        Filled x \<Rightarrow> Filled x
      | Failed err \<Rightarrow> if err \<noteq> 122 then Failed err else second)"

section \<open>Making a collection of CPU sets\<close>

text \<open>The inner loop of the insertion: elements with a greater identifier move up by one.\<close>

fun cpu_shift :: "nat \<Rightarrow> nat \<Rightarrow> u32 \<Rightarrow> cpu_element list \<Rightarrow> nat \<times> cpu_element list" where
  "cpu_shift 0 k cid data = (k, data)"
| "cpu_shift (Suc i) k cid data =
     (if ce_id (data ! i) > cid then cpu_shift i (k - 1) cid (data[k := data ! i]) else (k, data))"

definition cpu_insert :: "cpu_set_info \<Rightarrow> cpu_collection \<Rightarrow> cpu_collection" where
  "cpu_insert info coll =
     (let (k, data) = cpu_shift (unat (cc_size coll)) (unat (cc_size coll)) (si_id info) (cc_data coll)
      in coll\<lparr>cc_size := cc_size coll + 1,
              cc_data := data[k := (data ! k)\<lparr>ce_id := si_id info, ce_group := si_group info,
                ce_core_idx := si_core info, ce_effic_cls := si_effic info, ce_sched_cls := si_sched info\<rparr>]\<rparr>)"

fun cpu_insert_all :: "cpu_set_info list \<Rightarrow> cpu_collection \<Rightarrow> cpu_collection" where
  "cpu_insert_all [] coll = coll"
| "cpu_insert_all (info # infos) coll =
     cpu_insert_all infos (if si_is_cpu_set info then cpu_insert info coll else coll)"

text \<open>The number of elements allocated: the bytes of the records over the size of one, which is 32.\<close>

definition cpu_set_capacity :: "cpu_set_info list \<Rightarrow> nat" where
  "cpu_set_capacity infos = sum_list (map (\<lambda>info. unat (si_size info)) infos) div 32"

definition fresh_collection :: "nat \<Rightarrow> cpu_collection" where
  "fresh_collection capacity = \<lparr>cc_nref = 0, cc_size = 0, cc_data = replicate capacity zero_element\<rparr>"

definition cpu_collection_from_sets :: "cpu_set_info list \<Rightarrow> cpu_collection" where
  "cpu_collection_from_sets infos =
     (cpu_insert_all infos (fresh_collection (cpu_set_capacity infos)))\<lparr>cc_nref := 1\<rparr>"

section \<open>Making a collection from the affinity mask\<close>

definition bit_scan_forward_ptr :: "uptr \<Rightarrow> nat option" where
  "bit_scan_forward_ptr value = find (bit value) [0..<64]"

definition cpu_append :: "nat \<Rightarrow> u16 \<Rightarrow> cpu_collection \<Rightarrow> cpu_collection" where
  "cpu_append bit_index grp coll =
     (let k = unat (cc_size coll) in
      coll\<lparr>cc_size := cc_size coll + 1,
           cc_data := (cc_data coll)[k := (cc_data coll ! k)\<lparr>ce_id := of_nat (256 + bit_index),
             ce_group := grp, ce_core_idx := of_nat bit_index\<rparr>]\<rparr>)"

text \<open>The loop clears the lowest bit of the mask in each round, so 64 rounds are enough.\<close>

fun cpu_append_all :: "nat \<Rightarrow> uptr \<Rightarrow> u16 \<Rightarrow> cpu_collection \<Rightarrow> cpu_collection option" where
  "cpu_append_all 0 mask_reg grp coll = (if mask_reg = 0 then Some coll else None)"
| "cpu_append_all (Suc fuel) mask_reg grp coll =
     (if mask_reg = 0 then Some coll
      else
        (case bit_scan_forward_ptr mask_reg of
           None \<Rightarrow> None
         | Some bit_index \<Rightarrow>
             cpu_append_all fuel (mask_reg AND (mask_reg - 1)) grp (cpu_append bit_index grp coll)))"

definition cpu_set_core :: "core_info \<Rightarrow> u16 \<Rightarrow> cpu_element \<Rightarrow> cpu_element" where
  "cpu_set_core info grp elem =
     (case bit_scan_forward_ptr (ci_mask info) of
        None \<Rightarrow> elem
      | Some core_index \<Rightarrow>
          if ci_mask info AND push_bit (unat (ce_id elem - 256)) 1 \<noteq> 0
          then elem\<lparr>ce_core_idx := of_nat core_index, ce_effic_cls := ci_effic info\<rparr> else elem)"

fun cpu_set_cores :: "core_info list \<Rightarrow> u16 \<Rightarrow> cpu_collection \<Rightarrow> cpu_collection" where
  "cpu_set_cores [] grp coll = coll"
| "cpu_set_cores (info # infos) grp coll =
     cpu_set_cores infos grp
       (if ci_is_core info \<and> ci_group info = grp then
          (let n = unat (cc_size coll) in
           coll\<lparr>cc_data := map (cpu_set_core info grp) (take n (cc_data coll)) @ drop n (cc_data coll)\<rparr>)
        else coll)"

definition cpu_collection_from_mask :: "core_info list \<Rightarrow> uptr \<Rightarrow> u16 \<Rightarrow> cpu_collection option" where
  "cpu_collection_from_mask infos proc_mask grp =
     (case cpu_append_all 64 proc_mask grp (fresh_collection 64) of
        None \<Rightarrow> None
      | Some coll \<Rightarrow> Some ((cpu_set_cores infos grp coll)\<lparr>cc_nref := 1\<rparr>))"

text \<open>The sources of a collection: with or without the functions for CPU sets.\<close>

datatype cpu_source =
    Cpu_sets "cpu_set_info list query" "cpu_set_info list query"
  | Affinity "core_info list query" "core_info list query" "uptr query" u16

text \<open>The result: an error code (\<open>ERROR_NOT_ENOUGH_MEMORY\<close> is 8), or the collection; \<open>None\<close> is a
  failed assertion, here that the collection is not empty.\<close>

definition assert_not_empty :: "cpu_collection \<Rightarrow> (u32 + cpu_collection) option" where
  "assert_not_empty coll = (if cc_size coll > 0 then Some (Inr coll) else None)"

definition MCF_cpu_collection_new :: "bool \<Rightarrow> cpu_source \<Rightarrow> (u32 + cpu_collection) option" where
  "MCF_cpu_collection_new memory source =
     (case source of
        Cpu_sets first second \<Rightarrow>
          (case query_twice first second of
             Failed err \<Rightarrow> Some (Inl err)
           | Filled infos \<Rightarrow>
               if \<not> memory then Some (Inl 8) else assert_not_empty (cpu_collection_from_sets infos))
      | Affinity first second mask_query grp \<Rightarrow>
          (case query_twice first second of
             Failed err \<Rightarrow> Some (Inl err)
           | Filled infos \<Rightarrow>
               (case mask_query of
                  Failed err \<Rightarrow> Some (Inl err)
                | Filled proc_mask \<Rightarrow>
                    if \<not> memory then Some (Inl 8)
                    else
                      (case cpu_collection_from_mask infos proc_mask grp of
                         None \<Rightarrow> None
                       | Some coll \<Rightarrow> assert_not_empty coll))))"

definition MCF_cpu_collection_new_copy :: "bool \<Rightarrow> cpu_collection \<Rightarrow> cpu_collection option" where
  "MCF_cpu_collection_new_copy memory src =
     (if memory then Some \<lparr>cc_nref = 1, cc_size = cc_size src, cc_data = take (unat (cc_size src)) (cc_data src)\<rparr>
      else None)"

section \<open>References\<close>

text \<open>\<open>Some None\<close> is a collection that has been freed.\<close>

definition MCF_cpu_collection_get_ref :: "cpu_collection \<Rightarrow> i32" where
  "MCF_cpu_collection_get_ref coll = cc_nref coll"

definition MCF_cpu_collection_add_ref :: "cpu_collection \<Rightarrow> cpu_collection option" where
  "MCF_cpu_collection_add_ref coll =
     (let old_ref = cc_nref coll in
      if old_ref <s 0x7FFFFFFF \<and> 0 <s old_ref then Some (coll\<lparr>cc_nref := old_ref + 1\<rparr>) else None)"

definition MCF_cpu_collection_drop_ref_nonnull :: "cpu_collection \<Rightarrow> cpu_collection option option" where
  "MCF_cpu_collection_drop_ref_nonnull coll =
     (let old_ref = cc_nref coll in
      if \<not> 0 <s old_ref then None
      else if old_ref \<noteq> 1 then Some (Some (coll\<lparr>cc_nref := old_ref - 1\<rparr>))
      else Some None)"

definition MCF_cpu_collection_drop_ref :: "cpu_collection option \<Rightarrow> cpu_collection option option" where
  "MCF_cpu_collection_drop_ref coll_opt =
     (case coll_opt of None \<Rightarrow> Some None | Some coll \<Rightarrow> MCF_cpu_collection_drop_ref_nonnull coll)"

section \<open>Finding a processor\<close>

function cpu_bsearch :: "cpu_element list \<Rightarrow> u32 \<Rightarrow> u32 \<Rightarrow> u32 \<Rightarrow> u32 option" where
  "cpu_bsearch data cid bpos epos =
     (if bpos = epos then None
      else
        (let mpos = bpos + (epos - bpos) div 2; elem = data ! unat mpos in
         if cid = ce_id elem then Some mpos
         else if cid < ce_id elem then cpu_bsearch data cid bpos mpos
         else cpu_bsearch data cid (mpos + 1) epos))"
  by auto

lemma unat_half: "unat ((x :: u32) div 2) = unat x div 2"
  by (simp add: unat_div_distrib)

termination cpu_bsearch
proof (relation "measure (\<lambda>(data, cid, bpos, epos). unat (epos - bpos))")
  fix data and cid bpos epos mpos :: u32 and elem :: cpu_element
  assume *: "bpos \<noteq> epos" "mpos = bpos + (epos - bpos) div 2"
  then have d: "0 < unat (epos - bpos)" by (simp add: unat_gt_0)
  show "((data, cid, bpos, mpos), data, cid, bpos, epos) \<in> measure (\<lambda>(data, cid, bpos, epos). unat (epos - bpos))"
    using d *(2) by (simp add: unat_half)
  have "epos - (mpos + 1) = (epos - bpos) - (epos - bpos) div 2 - 1" using *(2) by simp
  also have "unat \<dots> < unat (epos - bpos)"
  proof -
    define n where "n = epos - bpos"
    have "n div 2 \<le> n" by (simp add: word_le_nat_alt unat_half)
    then have "unat (n - n div 2) = unat n - unat n div 2" by (simp add: unat_sub unat_half)
    moreover have "n - n div 2 \<noteq> 0"
    proof
      assume "n - n div 2 = 0"
      then have "unat n - unat n div 2 = 0" using calculation by simp
      then show False using d by (simp add: n_def[symmetric])
    qed
    ultimately show ?thesis using unat_minus_one'[of "n - n div 2"] by (simp add: n_def[symmetric])
  qed
  finally show "((data, cid, mpos + 1, epos), data, cid, bpos, epos) \<in> measure (\<lambda>(data, cid, bpos, epos). unat (epos - bpos))"
    by simp
qed simp

declare cpu_bsearch.simps [simp del]

definition do_find_cpu_opt :: "cpu_collection \<Rightarrow> u32 \<Rightarrow> u32 option" where
  "do_find_cpu_opt coll cid =
     (if cid \<ge> 256 \<and> cid < 256 + cc_size coll \<and> cid = ce_id (cc_data coll ! unat (cid - 256)) then Some (cid - 256)
      else cpu_bsearch (cc_data coll) cid 0 (cc_size coll))"

definition MCF_cpu_collection_find :: "cpu_collection \<Rightarrow> u32 \<Rightarrow> u32" where
  "MCF_cpu_collection_find coll cid = (case do_find_cpu_opt coll cid of None \<Rightarrow> 0xFFFFFFFF | Some i \<Rightarrow> i)"

definition cpu_get :: "(cpu_element \<Rightarrow> u32) \<Rightarrow> cpu_collection \<Rightarrow> u32 \<Rightarrow> u32" where
  "cpu_get f coll cid = (case do_find_cpu_opt coll cid of None \<Rightarrow> 0xFFFFFFFF | Some i \<Rightarrow> f (cc_data coll ! unat i))"

definition cpu_core :: "cpu_element \<Rightarrow> u32" where
  "cpu_core elem = ucast (ce_group elem) * 256 + ucast (ce_core_idx elem)"

definition MCF_cpu_collection_get_group :: "cpu_collection \<Rightarrow> u32 \<Rightarrow> u32" where
  "MCF_cpu_collection_get_group = cpu_get (\<lambda>elem. ucast (ce_group elem))"

definition MCF_cpu_collection_get_core :: "cpu_collection \<Rightarrow> u32 \<Rightarrow> u32" where
  "MCF_cpu_collection_get_core = cpu_get cpu_core"

definition MCF_cpu_collection_get_efficiency_class :: "cpu_collection \<Rightarrow> u32 \<Rightarrow> u32" where
  "MCF_cpu_collection_get_efficiency_class = cpu_get (\<lambda>elem. ucast (ce_effic_cls elem))"

definition MCF_cpu_collection_get_scheduling_class :: "cpu_collection \<Rightarrow> u32 \<Rightarrow> u32" where
  "MCF_cpu_collection_get_scheduling_class = cpu_get (\<lambda>elem. ucast (ce_sched_cls elem))"

definition MCF_cpu_collection_get_selection :: "cpu_collection \<Rightarrow> u32 \<Rightarrow> bool" where
  "MCF_cpu_collection_get_selection coll cid =
     (case do_find_cpu_opt coll cid of None \<Rightarrow> False | Some i \<Rightarrow> ce_selected (cc_data coll ! unat i))"

definition cpu_select :: "bool \<Rightarrow> u32 \<Rightarrow> cpu_collection \<Rightarrow> cpu_collection" where
  "cpu_select selected i coll =
     coll\<lparr>cc_data := (cc_data coll)[unat i := (cc_data coll ! unat i)\<lparr>ce_selected := selected\<rparr>]\<rparr>"

definition MCF_cpu_collection_set_selection :: "cpu_collection \<Rightarrow> u32 \<Rightarrow> bool \<Rightarrow> int \<times> cpu_collection" where
  "MCF_cpu_collection_set_selection coll cid selected =
     (case do_find_cpu_opt coll cid of
        None \<Rightarrow> (- 1, coll)
      | Some i \<Rightarrow> (of_bool (ce_selected (cc_data coll ! unat i)), cpu_select selected i coll))"

section \<open>Access by index\<close>

definition MCF_cpu_collection_get_size :: "cpu_collection \<Rightarrow> u32" where
  "MCF_cpu_collection_get_size coll = cc_size coll"

definition cpu_at :: "(cpu_element \<Rightarrow> 'a) \<Rightarrow> cpu_collection \<Rightarrow> u32 \<Rightarrow> 'a option" where
  "cpu_at f coll index = (if index < cc_size coll then Some (f (cc_data coll ! unat index)) else None)"

definition MCF_cpu_collection_get_id_by_index :: "cpu_collection \<Rightarrow> u32 \<Rightarrow> u32 option" where
  "MCF_cpu_collection_get_id_by_index = cpu_at ce_id"

definition MCF_cpu_collection_get_group_by_index :: "cpu_collection \<Rightarrow> u32 \<Rightarrow> u32 option" where
  "MCF_cpu_collection_get_group_by_index = cpu_at (\<lambda>elem. ucast (ce_group elem))"

definition MCF_cpu_collection_get_core_by_index :: "cpu_collection \<Rightarrow> u32 \<Rightarrow> u32 option" where
  "MCF_cpu_collection_get_core_by_index = cpu_at cpu_core"

definition MCF_cpu_collection_get_efficiency_class_by_index :: "cpu_collection \<Rightarrow> u32 \<Rightarrow> u32 option" where
  "MCF_cpu_collection_get_efficiency_class_by_index = cpu_at (\<lambda>elem. ucast (ce_effic_cls elem))"

definition MCF_cpu_collection_get_scheduling_class_by_index :: "cpu_collection \<Rightarrow> u32 \<Rightarrow> u32 option" where
  "MCF_cpu_collection_get_scheduling_class_by_index = cpu_at (\<lambda>elem. ucast (ce_sched_cls elem))"

definition MCF_cpu_collection_get_selection_by_index :: "cpu_collection \<Rightarrow> u32 \<Rightarrow> bool option" where
  "MCF_cpu_collection_get_selection_by_index = cpu_at ce_selected"

definition MCF_cpu_collection_set_selection_by_index :: "cpu_collection \<Rightarrow> u32 \<Rightarrow> bool \<Rightarrow> (bool \<times> cpu_collection) option" where
  "MCF_cpu_collection_set_selection_by_index coll index selected =
     (if index < cc_size coll
      then Some (ce_selected (cc_data coll ! unat index), cpu_select selected index coll) else None)"

fun cpu_select_upto :: "nat \<Rightarrow> bool \<Rightarrow> cpu_collection \<Rightarrow> cpu_collection" where
  "cpu_select_upto 0 selected coll = coll"
| "cpu_select_upto (Suc n) selected coll = cpu_select selected (of_nat n) (cpu_select_upto n selected coll)"

definition MCF_cpu_collection_set_all_selections :: "cpu_collection \<Rightarrow> bool \<Rightarrow> cpu_collection" where
  "MCF_cpu_collection_set_all_selections coll selected = cpu_select_upto (unat (cc_size coll)) selected coll"

section \<open>Well-formed collections\<close>

definition cpus :: "cpu_collection \<Rightarrow> cpu_element list" where
  "cpus coll = take (unat (cc_size coll)) (cc_data coll)"

definition cpu_ids :: "cpu_collection \<Rightarrow> u32 list" where
  "cpu_ids coll = map ce_id (cpus coll)"

definition cc_ok :: "cpu_collection \<Rightarrow> bool" where
  "cc_ok coll \<longleftrightarrow> unat (cc_size coll) \<le> length (cc_data coll) \<and> sorted (cpu_ids coll)"

lemma length_cpus: "cc_ok coll \<Longrightarrow> length (cpus coll) = unat (cc_size coll)"
  by (simp add: cc_ok_def cpus_def)

lemma nth_cpu_ids: "cc_ok coll \<Longrightarrow> i < unat (cc_size coll) \<Longrightarrow> cpu_ids coll ! i = ce_id (cc_data coll ! i)"
  by (simp add: cpu_ids_def cpus_def cc_ok_def)

section \<open>The search is exact\<close>

lemma unat_mid:
  assumes "(b :: u32) \<le> e"
  shows "unat (b + (e - b) div 2) = unat b + (unat e - unat b) div 2"
proof -
  have d: "unat ((e - b) div 2) = (unat e - unat b) div 2"
    using assms by (simp add: unat_half unat_sub)
  have "unat b + (unat e - unat b) div 2 \<le> unat e" using assms by (simp add: word_le_nat_alt)
  also have "\<dots> < 2 ^ 32" using unat_less_bound[of e] by simp
  finally show ?thesis by (subst unat_word_ariths) (simp add: d)
qed

lemma cpu_bsearch_result:
  assumes "\<And>i j. i \<le> j \<Longrightarrow> j < n \<Longrightarrow> ce_id (data ! i) \<le> ce_id (data ! j)" "bpos \<le> epos" "unat epos \<le> n"
  shows "case cpu_bsearch data cid bpos epos of
      None \<Rightarrow> \<forall>j. unat bpos \<le> j \<and> j < unat epos \<longrightarrow> ce_id (data ! j) \<noteq> cid
    | Some i \<Rightarrow> bpos \<le> i \<and> i < epos \<and> ce_id (data ! unat i) = cid"
  using assms
proof (induction data cid bpos epos rule: cpu_bsearch.induct)
  case (1 data cid bpos epos)
  define mpos where "mpos = bpos + (epos - bpos) div 2"
  show ?case
  proof (cases "bpos = epos")
    case True
    then show ?thesis by (subst cpu_bsearch.simps) auto
  next
    case ne: False
    have m: "unat mpos = unat bpos + (unat epos - unat bpos) div 2"
      unfolding mpos_def by (rule unat_mid[OF 1(4)])
    have less: "unat bpos < unat epos" using ne 1(4) by (simp add: word_le_nat_alt word_unat_eq_iff)
    then have r: "unat bpos \<le> unat mpos" "unat mpos < unat epos" using m by linarith+
    have m1: "unat (mpos + 1) = Suc (unat mpos)"
      using r(2) unat_less_bound[of epos] by (intro unat_plus_one) simp
    have step: "cpu_bsearch data cid bpos epos =
        (if cid = ce_id (data ! unat mpos) then Some mpos
         else if cid < ce_id (data ! unat mpos) then cpu_bsearch data cid bpos mpos
         else cpu_bsearch data cid (mpos + 1) epos)"
      using ne by (subst cpu_bsearch.simps) (simp add: Let_def mpos_def)
    consider (eq) "cid = ce_id (data ! unat mpos)" | (left) "cid < ce_id (data ! unat mpos)"
      | (right) "ce_id (data ! unat mpos) < cid"
      by fastforce
    then show ?thesis
    proof cases
      case eq
      with r show ?thesis unfolding step by (simp add: word_le_nat_alt word_less_nat_alt)
    next
      case left
      have IH: "case cpu_bsearch data cid bpos mpos of
          None \<Rightarrow> \<forall>j. unat bpos \<le> j \<and> j < unat mpos \<longrightarrow> ce_id (data ! j) \<noteq> cid
        | Some i \<Rightarrow> bpos \<le> i \<and> i < mpos \<and> ce_id (data ! unat i) = cid"
        by (rule 1(1)[OF ne mpos_def refl]) (use left r 1(3,5) in \<open>auto simp: word_le_nat_alt\<close>)
      have "ce_id (data ! j) \<noteq> cid" if "unat mpos \<le> j" "j < unat epos" for j
        using 1(3)[of "unat mpos" j] that 1(5) left by auto
      with IH left r show ?thesis
        unfolding step by (auto simp: word_le_nat_alt word_less_nat_alt not_le split: option.splits)
          (metis linorder_not_less)
    next
      case right
      have IH: "case cpu_bsearch data cid (mpos + 1) epos of
          None \<Rightarrow> \<forall>j. unat (mpos + 1) \<le> j \<and> j < unat epos \<longrightarrow> ce_id (data ! j) \<noteq> cid
        | Some i \<Rightarrow> mpos + 1 \<le> i \<and> i < epos \<and> ce_id (data ! unat i) = cid"
        by (rule 1(2)[OF ne mpos_def refl]) (use right r m1 1(3,5) in \<open>auto simp: word_le_nat_alt\<close>)
      have "ce_id (data ! j) \<noteq> cid" if "j \<le> unat mpos" for j
        using 1(3)[of j "unat mpos"] that r 1(5) right by auto
      with IH right r m1 show ?thesis
        unfolding step by (auto simp: word_le_nat_alt word_less_nat_alt not_le Suc_le_eq split: option.splits)
          (metis linorder_not_less)
    qed
  qed
qed

lemma find_cpu_result:
  assumes "cc_ok coll"
  shows "case do_find_cpu_opt coll cid of
      None \<Rightarrow> cid \<notin> set (cpu_ids coll)
    | Some i \<Rightarrow> i < cc_size coll \<and> cpu_ids coll ! unat i = cid \<and> cid \<in> set (cpu_ids coll)"
proof -
  have len: "length (cpu_ids coll) = unat (cc_size coll)" using length_cpus[OF assms] by (simp add: cpu_ids_def)
  have at: "cpu_ids coll ! unat i = ce_id (cc_data coll ! unat i) \<and> ce_id (cc_data coll ! unat i) \<in> set (cpu_ids coll)"
    if "i < cc_size coll" for i
  proof -
    have "unat i < unat (cc_size coll)" using that by (simp add: word_less_nat_alt)
    with nth_cpu_ids[OF assms this] nth_mem[of "unat i" "cpu_ids coll"] len show ?thesis by simp
  qed
  show ?thesis
  proof (cases "cid \<ge> 256 \<and> cid < 256 + cc_size coll \<and> cid = ce_id (cc_data coll ! unat (cid - 256))")
    case True
    then have "unat (256 :: u32) \<le> unat cid" "unat cid < unat (256 + cc_size coll)"
      by (simp_all only: word_le_nat_alt word_less_nat_alt)
    moreover have "unat (256 + cc_size coll) \<le> 256 + unat (cc_size coll)"
      by (simp add: unat_word_ariths(1))
    ultimately have "cid - 256 < cc_size coll"
      using True by (simp add: word_less_nat_alt unat_sub)
    note * = at[OF this]
    have "ce_id (cc_data coll ! unat (cid - 256)) = cid" using True by simp
    moreover have "do_find_cpu_opt coll cid = Some (cid - 256)" using True by (simp add: do_find_cpu_opt_def)
    ultimately show ?thesis using * \<open>cid - 256 < cc_size coll\<close> by simp
  next
    case False
    have "case cpu_bsearch (cc_data coll) cid 0 (cc_size coll) of
      None \<Rightarrow> \<forall>j. unat (0 :: u32) \<le> j \<and> j < unat (cc_size coll) \<longrightarrow> ce_id (cc_data coll ! j) \<noteq> cid
    | Some i \<Rightarrow> 0 \<le> i \<and> i < cc_size coll \<and> ce_id (cc_data coll ! unat i) = cid"
    proof (rule cpu_bsearch_result[where n = "unat (cc_size coll)"])
      fix i j assume "i \<le> j" "j < unat (cc_size coll)"
      moreover from this have "cpu_ids coll ! i \<le> cpu_ids coll ! j"
        using assms len by (intro sorted_nth_mono) (simp_all add: cc_ok_def)
      ultimately show "ce_id (cc_data coll ! i) \<le> ce_id (cc_data coll ! j)"
        using nth_cpu_ids[OF assms] by simp
    qed simp_all
    with False at nth_cpu_ids[OF assms] len show ?thesis
      by (auto simp: do_find_cpu_opt_def in_set_conv_nth split: option.splits)
  qed
qed

section \<open>Insertion keeps the order\<close>

lemma cpu_shift_result:
  assumes "i < length data"
  shows "\<exists>k. cpu_shift i i cid data = (k, take k data @ data ! k # drop k (take i data) @ drop (Suc i) data) \<and>
    k \<le> i \<and> (k = 0 \<or> ce_id (data ! (k - 1)) \<le> cid) \<and> (\<forall>j. k \<le> j \<and> j < i \<longrightarrow> cid < ce_id (data ! j))"
  using assms
proof (induction i arbitrary: data)
  case 0
  then show ?case by (cases data) auto
next
  case (Suc i)
  show ?case
  proof (cases "cid < ce_id (data ! i)")
    case False
    have "data = take (Suc i) data @ data ! Suc i # drop (Suc (Suc i)) data"
      by (rule id_take_nth_drop[OF Suc.prems])
    with False show ?thesis by (intro exI[of _ "Suc i"]) auto
  next
    case True
    define data1 where "data1 = data[Suc i := data ! i]"
    have "i < length data1" using Suc.prems by (simp add: data1_def)
    from Suc.IH[OF this] obtain k where
      k: "cpu_shift i i cid data1 = (k, take k data1 @ data1 ! k # drop k (take i data1) @ drop (Suc i) data1)"
        "k \<le> i" "k = 0 \<or> ce_id (data1 ! (k - 1)) \<le> cid" "\<forall>j. k \<le> j \<and> j < i \<longrightarrow> cid < ce_id (data1 ! j)"
      by blast
    have same: "j \<le> i \<Longrightarrow> data1 ! j = data ! j" for j by (simp add: data1_def)
    have d: "drop (Suc i) data1 = data ! i # drop (Suc (Suc i)) data"
      using Suc.prems by (simp add: data1_def Cons_nth_drop_Suc[symmetric])
    have t: "take k data1 = take k data" "take i data1 = take i data"
      using k(2) by (simp_all add: data1_def)
    have e: "drop k (take (Suc i) data) = drop k (take i data) @ [data ! i]"
      using k(2) Suc.prems by (simp add: take_Suc_conv_app_nth)
    have "cpu_shift (Suc i) (Suc i) cid data =
        (k, take k data @ data ! k # drop k (take (Suc i) data) @ drop (Suc (Suc i)) data)"
      using k(1,2) True d t e same by (simp add: data1_def[symmetric])
    moreover have "k = 0 \<or> ce_id (data ! (k - 1)) \<le> cid" using k(2,3) same by auto
    moreover have "\<forall>j. k \<le> j \<and> j < Suc i \<longrightarrow> cid < ce_id (data ! j)"
      using k(4) True same by (auto simp: less_Suc_eq)
    ultimately show ?thesis using k(2) by auto
  qed
qed

definition made :: "cpu_set_info \<Rightarrow> cpu_element" where
  "made info = \<lparr>ce_id = si_id info, ce_group = si_group info, ce_core_idx = si_core info,
     ce_selected = False, ce_effic_cls = si_effic info, ce_sched_cls = si_sched info\<rparr>"

lemma sorted_insert_at:
  fixes xs :: "'a::linorder list"
  assumes "sorted xs" "k \<le> length xs" "k = 0 \<or> xs ! (k - 1) \<le> x" "\<forall>j. k \<le> j \<and> j < length xs \<longrightarrow> x < xs ! j"
  shows "sorted (take k xs @ x # drop k xs)"
proof -
  have "y \<le> x" if "y \<in> set (take k xs)" for y
  proof -
    from that assms(2) obtain j where "j < k" "y = xs ! j" by (auto simp: in_set_conv_nth)
    then have "y \<le> xs ! (k - 1)" using assms(1,2) by (auto intro!: sorted_nth_mono)
    also have "\<dots> \<le> x" using assms(3) \<open>j < k\<close> by auto
    finally show ?thesis .
  qed
  moreover have "x \<le> y" if "y \<in> set (drop k xs)" for y
    using that assms(4) by (auto simp: in_set_conv_nth intro: less_imp_le)
  moreover have "sorted (take k xs @ drop k xs)" using assms(1) by simp
  ultimately show ?thesis by (simp add: sorted_append) force
qed

definition all_unselected :: "cpu_collection \<Rightarrow> bool" where
  "all_unselected coll \<longleftrightarrow> (\<forall>e \<in> set (cc_data coll). \<not> ce_selected e)"

lemma cpu_insert_result:
  assumes ok: "cc_ok coll" "all_unselected coll" and room: "unat (cc_size coll) < length (cc_data coll)"
    "Suc (unat (cc_size coll)) < 2 ^ 32"
  shows "cc_ok (cpu_insert info coll) \<and> all_unselected (cpu_insert info coll) \<and>
    unat (cc_size (cpu_insert info coll)) = Suc (unat (cc_size coll)) \<and>
    length (cc_data (cpu_insert info coll)) = length (cc_data coll) \<and>
    mset (cpus (cpu_insert info coll)) = add_mset (made info) (mset (cpus coll))"
proof -
  define n data where "n = unat (cc_size coll)" and "data = cc_data coll"
  define ids where "ids = cpu_ids coll"
  have ids: "length ids = n" "\<And>j. j < n \<Longrightarrow> ids ! j = ce_id (data ! j)" "sorted ids" "ids = map ce_id (take n data)"
    using ok(1) nth_cpu_ids[OF ok(1)] length_cpus[OF ok(1)]
    by (simp_all add: ids_def n_def data_def cpu_ids_def cpus_def cc_ok_def)
  have n: "n < length data" "Suc n < 2 ^ 32" using room by (simp_all add: n_def data_def)
  from cpu_shift_result[OF n(1), of "si_id info"] obtain k where
    k: "cpu_shift n n (si_id info) data = (k, take k data @ data ! k # drop k (take n data) @ drop (Suc n) data)"
      "k \<le> n" "k = 0 \<or> ce_id (data ! (k - 1)) \<le> si_id info" "\<forall>j. k \<le> j \<and> j < n \<longrightarrow> si_id info < ce_id (data ! j)"
    by blast
  have kl: "k < length data" using k(2) n(1) by simp
  have unsel: "\<not> ce_selected (data ! k)" using ok(2) kl by (simp add: all_unselected_def data_def)
  define data' where "data' = take k data @ made info # drop k (take n data) @ drop (Suc n) data"
  have ins: "cpu_insert info coll = coll\<lparr>cc_size := cc_size coll + 1, cc_data := data'\<rparr>"
    using k(1,2) kl unsel
    by (simp add: cpu_insert_def n_def[symmetric] data_def[symmetric] data'_def made_def
        list_update_append nth_append min_def)
  have sz: "unat (cc_size coll + 1) = Suc n" using n(2) by (simp add: n_def unat_plus_one)
  have len: "length data' = length data" using k(2) n(1) by (simp add: data'_def)
  have pre: "take (Suc n) data' = take k (take n data) @ made info # drop k (take n data)"
    using k(2) n(1) by (simp add: data'_def min_def Suc_diff_le)
  have "map ce_id (take (Suc n) data') = take k ids @ si_id info # drop k ids"
    unfolding pre ids(4) by (simp add: made_def take_map drop_map)
  moreover have "sorted (take k ids @ si_id info # drop k ids)"
  proof (rule sorted_insert_at[OF ids(3)])
    show "k \<le> length ids" using k(2) ids(1) by simp
    show "k = 0 \<or> ids ! (k - 1) \<le> si_id info" using k(2,3) ids(2)[of "k - 1"] by (cases "k = 0") auto
    show "\<forall>j. k \<le> j \<and> j < length ids \<longrightarrow> si_id info < ids ! j" using k(4) ids(1,2) by simp
  qed
  ultimately have "cc_ok (cpu_insert info coll)"
    using len n(1) by (simp add: cc_ok_def cpu_ids_def cpus_def ins sz)
  moreover have "all_unselected (cpu_insert info coll)"
    using ok(2) by (auto simp: all_unselected_def ins data'_def made_def data_def dest!: in_set_takeD in_set_dropD)
  moreover have "mset (cpus (cpu_insert info coll)) = add_mset (made info) (mset (cpus coll))"
  proof -
    have "mset (take k (take n data)) + mset (drop k (take n data)) = mset (take n data)"
      unfolding mset_append[symmetric] append_take_drop_id ..
    then show ?thesis by (simp add: cpus_def ins sz pre n_def[symmetric] data_def[symmetric])
  qed
  ultimately show ?thesis using sz len by (simp add: ins n_def data_def)
qed

lemma cpu_insert_all_result:
  "cc_ok coll \<Longrightarrow> all_unselected coll \<Longrightarrow>
   unat (cc_size coll) + length (filter si_is_cpu_set infos) \<le> length (cc_data coll) \<Longrightarrow> length (cc_data coll) < 2 ^ 32 \<Longrightarrow>
   cc_ok (cpu_insert_all infos coll) \<and> all_unselected (cpu_insert_all infos coll) \<and>
   unat (cc_size (cpu_insert_all infos coll)) = unat (cc_size coll) + length (filter si_is_cpu_set infos) \<and>
   mset (cpus (cpu_insert_all infos coll)) = mset (map made (filter si_is_cpu_set infos)) + mset (cpus coll)"
proof (induction infos arbitrary: coll)
  case (Cons info infos)
  show ?case
  proof (cases "si_is_cpu_set info")
    case True
    have "unat (cc_size coll) < length (cc_data coll)" "Suc (unat (cc_size coll)) < 2 ^ 32"
      using Cons.prems True by simp_all
    from cpu_insert_result[OF Cons.prems(1,2) this, of info] Cons.IH[of "cpu_insert info coll"] Cons.prems True
    show ?thesis by simp
  next
    case False
    with Cons show ?thesis by simp
  qed
qed simp

lemma cpu_set_capacity_enough:
  assumes "\<forall>info \<in> set infos. 32 \<le> unat (si_size info)"
  shows "length infos \<le> cpu_set_capacity infos"
proof -
  have "32 * length infos \<le> sum_list (map (\<lambda>info. unat (si_size info)) infos)"
    using assms by (induction infos) auto
  then show ?thesis unfolding cpu_set_capacity_def by simp
qed

lemma fresh_ok: "cc_ok (fresh_collection n)" "all_unselected (fresh_collection n)" "cpus (fresh_collection n) = []"
  by (auto simp: cc_ok_def all_unselected_def fresh_collection_def zero_element_def cpu_ids_def cpus_def)

lemma nref_irrelevant:
  "cpu_ids (coll\<lparr>cc_nref := r\<rparr>) = cpu_ids coll"
  "cpus (coll\<lparr>cc_nref := r\<rparr>) = cpus coll" "cc_ok (coll\<lparr>cc_nref := r\<rparr>) \<longleftrightarrow> cc_ok coll"
  "all_unselected (coll\<lparr>cc_nref := r\<rparr>) \<longleftrightarrow> all_unselected coll"
  by (simp_all add: cpus_def cc_ok_def all_unselected_def cpu_ids_def)

lemma from_sets_result:
  assumes "\<forall>info \<in> set infos. 32 \<le> unat (si_size info)"
    "sum_list (map (\<lambda>info. unat (si_size info)) infos) < 2 ^ 32"
  shows "cc_ok (cpu_collection_from_sets infos)" "all_unselected (cpu_collection_from_sets infos)"
    "mset (cpus (cpu_collection_from_sets infos)) = mset (map made (filter si_is_cpu_set infos))"
    "unat (cc_size (cpu_collection_from_sets infos)) = length (filter si_is_cpu_set infos)"
proof -
  define coll where "coll = fresh_collection (cpu_set_capacity infos)"
  have "length (filter si_is_cpu_set infos) \<le> cpu_set_capacity infos"
    using cpu_set_capacity_enough[OF assms(1)] length_filter_le[of si_is_cpu_set infos] by (rule le_trans[rotated])
  moreover have "cpu_set_capacity infos < 2 ^ 32"
    using assms(2) unfolding cpu_set_capacity_def by simp
  ultimately have "cc_ok (cpu_insert_all infos coll) \<and> all_unselected (cpu_insert_all infos coll) \<and>
     unat (cc_size (cpu_insert_all infos coll)) = unat (cc_size coll) + length (filter si_is_cpu_set infos) \<and>
     mset (cpus (cpu_insert_all infos coll)) = mset (map made (filter si_is_cpu_set infos)) + mset (cpus coll)"
    unfolding coll_def by (intro cpu_insert_all_result fresh_ok) (simp_all add: fresh_collection_def)
  then show "cc_ok (cpu_collection_from_sets infos)" "all_unselected (cpu_collection_from_sets infos)"
    "mset (cpus (cpu_collection_from_sets infos)) = mset (map made (filter si_is_cpu_set infos))"
    "unat (cc_size (cpu_collection_from_sets infos)) = length (filter si_is_cpu_set infos)"
    using fresh_ok(3) by (simp_all add: cpu_collection_from_sets_def coll_def[symmetric] nref_irrelevant)
      (simp_all add: coll_def fresh_collection_def cpus_def)
qed

section \<open>The bits of the affinity mask\<close>

lemma find_filter: "find P xs = Some i \<Longrightarrow> distinct xs \<Longrightarrow> filter P xs = i # filter (\<lambda>j. P j \<and> j \<noteq> i) xs"
proof (induction xs)
  case (Cons x xs)
  show ?case
  proof (cases "P x")
    case True
    with Cons.prems have "x = i" "\<forall>y \<in> set xs. y \<noteq> i" by auto
    then have "filter (\<lambda>j. P j \<and> j \<noteq> i) xs = filter P xs" by (intro filter_cong) auto
    with True \<open>x = i\<close> show ?thesis by simp
  next
    case False
    with Cons show ?thesis by simp
  qed
qed simp

lemma bit_unat: "bit (w :: u64) j \<longleftrightarrow> odd (unat w div 2 ^ j)"
  by (simp add: bit_iff_odd[of "unat w", symmetric] bit_unsigned_iff)

text \<open>Clearing the lowest bit.\<close>

lemma clear_lowest:
  fixes m :: u64
  assumes "bit m i" "\<And>j. j < i \<Longrightarrow> \<not> bit m j"
  shows "bit (m AND (m - 1)) j \<longleftrightarrow> bit m j \<and> j \<noteq> i"
proof -
  define u where "u = unat m"
  have odd: "odd (u div 2 ^ i)" using assms(1) by (simp add: bit_unat u_def)
  then have "m \<noteq> 0" by (auto simp: u_def)
  from unat_minus_one'[OF this] have u1: "unat (m - 1) = u - 1" "0 < u" by (simp_all add: u_def)
  have low: "u mod 2 ^ i = 0"
  proof -
    have "\<not> bit (u mod 2 ^ i) k" for k
      using assms(2)[of k] unfolding take_bit_eq_mod[symmetric] bit_take_bit_iff
      by (auto simp: bit_unat u_def bit_iff_odd)
    then show ?thesis by (metis bit_eqI bit_0_eq bot_apply bot_bool_def)
  qed
  then have u: "u = 2 ^ i * (u div 2 ^ i)" by (metis add.right_neutral mult_div_mod_eq)
  obtain q where q: "u div 2 ^ i = 2 * q + 1" using odd by (auto elim: oddE)
  have pred: "(u - 1) div 2 ^ i = 2 * q"
  proof (rule div_nat_eqI)
    have u': "u = 2 ^ i * (2 * q) + 2 ^ i" using u q by simp
    moreover have "(0 :: nat) < 2 ^ i" by simp
    ultimately show "2 ^ i * (2 * q) \<le> u - 1" "u - 1 < 2 ^ i * Suc (2 * q)"
      unfolding mult_Suc_right by linarith+
  qed
  consider (less) "j < i" | (eq) "j = i" | (greater) "i < j" by linarith
  then show ?thesis
  proof cases
    case less
    with assms(2) show ?thesis by (simp add: bit_and_iff)
  next
    case eq
    have "\<not> bit (m - 1) i" using pred by (simp add: bit_unat u1)
    with eq show ?thesis by (simp add: bit_and_iff)
  next
    case greater
    then obtain d where d: "j = i + Suc d" by (metis add_Suc_right less_imp_Suc_add)
    have "(u - 1) div 2 ^ j = u div 2 ^ j"
    proof -
      have e: "x div 2 ^ j = x div 2 ^ i div 2 ^ Suc d" for x :: nat
        unfolding d power_add by (rule div_mult2_eq)
      show ?thesis unfolding e pred q by (simp add: div_mult2_eq)
    qed
    then show ?thesis using greater unfolding bit_and_iff unfolding bit_unat u1 u_def[symmetric] by simp
  qed
qed

definition mask_bits :: "uptr \<Rightarrow> nat list" where
  "mask_bits m = filter (bit m) [0..<64]"

lemma mask_bits_step:
  assumes "m \<noteq> 0"
  obtains i where "bit_scan_forward_ptr m = Some i" "mask_bits m = i # mask_bits (m AND (m - 1))" "i < 64"
proof -
  obtain j where "bit m j" using assms by (metis bit_eq_iff bit_0_eq bot_apply bot_bool_def)
  then have "j < 64" using bit_imp_le_length[of m j] by simp
  then have "\<exists>j \<in> set [0..<64]. bit m j" using \<open>bit m j\<close> by auto
  then obtain i where i: "find (bit m) [0..<64] = Some i"
    by (metis find_None_iff2 not_None_eq)
  then have b: "bit m i" "i < 64" "\<And>j. j < i \<Longrightarrow> \<not> bit m j"
    by (auto simp: find_Some_iff)
  have "mask_bits m = i # filter (\<lambda>j. bit m j \<and> j \<noteq> i) [0..<64]"
    unfolding mask_bits_def using i by (intro find_filter) simp_all
  moreover have "filter (bit (m AND (m - 1))) [0..<64] = filter (\<lambda>j. bit m j \<and> j \<noteq> i) [0..<64]"
    by (intro filter_cong) (simp_all add: clear_lowest[OF b(1,3)])
  ultimately show thesis using i b that[of i]
    by (simp add: bit_scan_forward_ptr_def mask_bits_def)
qed

lemma mask_bits_zero: "mask_bits m = [] \<longleftrightarrow> m = 0"
proof
  show "m = 0" if "mask_bits m = []"
  proof (rule ccontr)
    assume "m \<noteq> 0"
    then show False by (rule mask_bits_step) (use that in simp)
  qed
qed (simp add: mask_bits_def)

lemma cpu_append_all_result:
  assumes "length (mask_bits m) \<le> fuel" "unat (cc_size coll) + length (mask_bits m) \<le> length (cc_data coll)"
    "length (cc_data coll) = 64" "all_unselected coll"
  shows "\<exists>coll'. cpu_append_all fuel m grp coll = Some coll' \<and> all_unselected coll' \<and>
    cpu_ids coll' = cpu_ids coll @ map (\<lambda>i. of_nat (256 + i)) (mask_bits m) \<and>
    unat (cc_size coll') = unat (cc_size coll) + length (mask_bits m) \<and> length (cc_data coll') = 64"
  using assms
proof (induction fuel arbitrary: m coll)
  case 0
  then show ?case using mask_bits_zero[of m] by simp
next
  case (Suc fuel)
  show ?case
  proof (cases "m = 0")
    case True
    then show ?thesis using Suc.prems by (simp add: mask_bits_def)
  next
    case False
    then obtain i where i: "bit_scan_forward_ptr m = Some i" "mask_bits m = i # mask_bits (m AND (m - 1))" "i < 64"
      by (rule mask_bits_step)
    define coll1 where "coll1 = cpu_append i grp coll"
    have room: "unat (cc_size coll) < 64" using Suc.prems i(2) by simp
    then have sz: "unat (cc_size coll1) = Suc (unat (cc_size coll))"
      by (simp add: coll1_def cpu_append_def Let_def unat_plus_one)
    have len: "length (cc_data coll1) = 64" using Suc.prems(3) by (simp add: coll1_def cpu_append_def Let_def)
    have ids: "cpu_ids coll1 = cpu_ids coll @ [of_nat (256 + i)]"
      using room Suc.prems(3) sz
      by (simp add: cpu_ids_def cpus_def coll1_def cpu_append_def Let_def take_Suc_conv_app_nth)
    have "all_unselected coll1"
      using Suc.prems(3,4) room set_update_subset_insert[of "cc_data coll" "unat (cc_size coll)"]
      by (fastforce simp: all_unselected_def coll1_def cpu_append_def Let_def)
    with Suc.IH[of "m AND (m - 1)" coll1] Suc.prems i sz len ids show ?thesis
      using False by (simp add: coll1_def[symmetric])
  qed
qed

lemma sorted_mask_ids: "sorted (map (\<lambda>i. of_nat (256 + i) :: u32) (mask_bits m))"
proof -
  have le: "(of_nat (256 + i) :: u32) \<le> of_nat (256 + j)" if "i \<le> j" "j < 64" for i j
    using that by (simp add: word_le_nat_alt unat_of_nat del: of_nat_add)
  have "sorted_wrt (\<lambda>i j. i \<le> j) (mask_bits m)" by (simp add: mask_bits_def sorted_wrt_filter)
  then have "sorted_wrt (\<lambda>i j. (of_nat (256 + i) :: u32) \<le> of_nat (256 + j)) (mask_bits m)"
    by (rule sorted_wrt_mono_rel[rotated]) (rule le, auto simp: mask_bits_def)
  then show ?thesis by (simp add: sorted_wrt_map)
qed

lemma cpu_set_cores_result:
  "length (cc_data (cpu_set_cores infos grp coll)) = length (cc_data coll) \<and>
   cc_size (cpu_set_cores infos grp coll) = cc_size coll \<and>
   cpu_ids (cpu_set_cores infos grp coll) = cpu_ids coll \<and>
   (all_unselected coll \<longrightarrow> all_unselected (cpu_set_cores infos grp coll))"
proof (induction infos arbitrary: coll)
  case (Cons info infos)
  define coll1 where "coll1 = coll\<lparr>cc_data := map (cpu_set_core info grp) (take (unat (cc_size coll)) (cc_data coll)) @
      drop (unat (cc_size coll)) (cc_data coll)\<rparr>"
  have keeps: "ce_id (cpu_set_core info grp e) = ce_id e" "ce_selected (cpu_set_core info grp e) = ce_selected e" for e
    by (simp_all add: cpu_set_core_def split: option.splits)
  have "length (cc_data coll1) = length (cc_data coll)" "cc_size coll1 = cc_size coll"
    by (simp_all add: coll1_def)
  moreover have "cpu_ids coll1 = cpu_ids coll"
    by (simp add: coll1_def cpu_ids_def cpus_def keeps comp_def min_def)
  moreover have "all_unselected coll \<longrightarrow> all_unselected coll1"
    by (auto simp: coll1_def all_unselected_def keeps dest: in_set_takeD in_set_dropD)
  ultimately show ?case using Cons.IH[of coll1] Cons.IH[of coll]
    by (simp add: Let_def coll1_def[symmetric])
qed simp

lemma from_mask_result:
  "\<exists>coll. cpu_collection_from_mask infos m grp = Some coll \<and> cc_ok coll \<and> all_unselected coll \<and> cc_nref coll = 1 \<and>
    cpu_ids coll = map (\<lambda>i. of_nat (256 + i)) (mask_bits m) \<and> unat (cc_size coll) = length (mask_bits m)"
proof -
  have l: "length (mask_bits m) \<le> 64"
    unfolding mask_bits_def using length_filter_le[of "bit m" "[0..<64]"] by simp
  define fresh where "fresh = fresh_collection 64"
  have f: "unat (cc_size fresh) = 0" "length (cc_data fresh) = 64" "all_unselected fresh" "cpu_ids fresh = []"
    by (auto simp: fresh_def fresh_collection_def all_unselected_def zero_element_def cpu_ids_def cpus_def)
  from cpu_append_all_result[of m 64 fresh grp] l f obtain coll where
    c: "cpu_append_all 64 m grp fresh = Some coll" "all_unselected coll"
      "cpu_ids coll = map (\<lambda>i. of_nat (256 + i)) (mask_bits m)" "unat (cc_size coll) = length (mask_bits m)"
      "length (cc_data coll) = 64" by auto
  define coll' where "coll' = cpu_set_cores infos grp coll"
  note s = cpu_set_cores_result[of infos grp coll, folded coll'_def]
  have "cc_ok coll'" using s c l sorted_mask_ids[of m] by (simp add: cc_ok_def)
  with s c show ?thesis
    by (simp add: cpu_collection_from_mask_def fresh_def[symmetric] coll'_def[symmetric] nref_irrelevant)
qed

section \<open>The contract of a collection\<close>

text \<open>The identifiers that the system reports, and what is documented about the sizes of the
  records: each is at least as large as the structure, and they fit the buffer.\<close>

definition reported_ids :: "cpu_source \<Rightarrow> u32 multiset" where
  "reported_ids source =
     (case source of
        Cpu_sets first second \<Rightarrow>
          (case query_twice first second of
             Filled infos \<Rightarrow> mset (map si_id (filter si_is_cpu_set infos)) | Failed _ \<Rightarrow> {#})
      | Affinity first second mask_query grp \<Rightarrow>
          (case mask_query of
             Filled m \<Rightarrow> mset (map (\<lambda>i. of_nat (256 + i)) (mask_bits m)) | Failed _ \<Rightarrow> {#}))"

definition sizes_ok :: "cpu_set_info list query \<Rightarrow> bool" where
  "sizes_ok q =
     (case q of
        Failed _ \<Rightarrow> True
      | Filled infos \<Rightarrow> (\<forall>info \<in> set infos. 32 \<le> unat (si_size info)) \<and>
          sum_list (map (\<lambda>info. unat (si_size info)) infos) < 2 ^ 32)"

definition source_ok :: "cpu_source \<Rightarrow> bool" where
  "source_ok source =
     (case source of Cpu_sets first second \<Rightarrow> sizes_ok first \<and> sizes_ok second | Affinity _ _ _ _ \<Rightarrow> True)"

definition good_collection :: "cpu_source \<Rightarrow> cpu_collection \<Rightarrow> bool" where
  "good_collection source coll \<longleftrightarrow>
     cc_ok coll \<and> cc_nref coll = 1 \<and> (\<forall>e \<in> set (cpus coll). \<not> ce_selected e) \<and> mset (cpu_ids coll) = reported_ids source"

lemma unselected_cpus: "all_unselected coll \<Longrightarrow> e \<in> set (cpus coll) \<Longrightarrow> \<not> ce_selected e"
  by (auto simp: all_unselected_def cpus_def dest: in_set_takeD)

lemma assert_good:
  assumes "good_collection source coll"
  shows "case assert_not_empty coll of
      None \<Rightarrow> reported_ids source = {#} | Some (Inl err) \<Rightarrow> False | Some (Inr c) \<Rightarrow> c = coll \<and> 0 < cc_size coll"
proof (cases "cc_size coll = 0")
  case True
  with assms show ?thesis
    by (auto simp: assert_not_empty_def good_collection_def cpu_ids_def cpus_def)
next
  case False
  then show ?thesis by (simp add: assert_not_empty_def word_neq_0_conv)
qed

lemma query_twice_cases: "query_twice first second = Filled infos \<Longrightarrow> first = Filled infos \<or> second = Filled infos"
  by (auto simp: query_twice_def split: query.splits if_splits)

lemma from_sets_good:
  assumes "query_twice first second = Filled infos" "sizes_ok first" "sizes_ok second"
  shows "good_collection (Cpu_sets first second) (cpu_collection_from_sets infos)"
proof -
  have "sizes_ok (Filled infos)" using query_twice_cases[OF assms(1)] assms(2,3) by auto
  then have ok: "\<forall>info \<in> set infos. 32 \<le> unat (si_size info)"
    "sum_list (map (\<lambda>info. unat (si_size info)) infos) < 2 ^ 32" by (simp_all add: sizes_ok_def)
  note r = from_sets_result[OF ok]
  have "mset (cpu_ids (cpu_collection_from_sets infos)) = image_mset ce_id (mset (map made (filter si_is_cpu_set infos)))"
    by (simp only: cpu_ids_def mset_map r(3))
  also have "\<dots> = mset (map si_id (filter si_is_cpu_set infos))"
    by (simp add: made_def comp_def flip: mset_map)
  finally show ?thesis
    using r(1,2) assms(1) unselected_cpus[OF r(2)]
    by (simp add: good_collection_def reported_ids_def) (simp add: cpu_collection_from_sets_def)
qed

text \<open>C32. A new collection holds each processor that the system reports once, sorted by
  identifier as the search needs it, all of them unselected, with one reference. It is not
  made when a query fails (the error of the query is returned) or when there is no memory, and the
  assertion that it is not empty fails only if the system reports no processor.\<close>

theorem cpu_collection_new_sorted:
  assumes "source_ok source"
  shows "case MCF_cpu_collection_new memory source of
      None \<Rightarrow> reported_ids source = {#}
    | Some (Inl err) \<Rightarrow> memory \<longrightarrow> (case source of
          Cpu_sets first second \<Rightarrow> query_twice first second = Failed err
        | Affinity first second mask_query _ \<Rightarrow> query_twice first second = Failed err \<or> mask_query = Failed err)
    | Some (Inr coll) \<Rightarrow> good_collection source coll \<and> sorted (cpu_ids coll) \<and> 0 < cc_size coll"
proof (cases source)
  case (Cpu_sets first second)
  show ?thesis
  proof (cases "query_twice first second")
    case (Filled infos)
    have good: "good_collection source (cpu_collection_from_sets infos)"
      using from_sets_good[OF Filled] assms by (simp add: Cpu_sets source_ok_def)
    from assert_good[OF good] good Filled show ?thesis
      by (auto simp: MCF_cpu_collection_new_def Cpu_sets good_collection_def cc_ok_def
          split: option.splits sum.splits)
  qed (simp add: MCF_cpu_collection_new_def Cpu_sets)
next
  case (Affinity first second mask_query grp)
  show ?thesis
  proof (cases "query_twice first second")
    case Filled1: (Filled infos)
    show ?thesis
    proof (cases mask_query)
      case (Filled m)
      from from_mask_result[of infos m grp] obtain coll where
        c: "cpu_collection_from_mask infos m grp = Some coll" "cc_ok coll" "all_unselected coll" "cc_nref coll = 1"
          "cpu_ids coll = map (\<lambda>i. of_nat (256 + i)) (mask_bits m)" by blast
      have good: "good_collection source coll"
        using c unselected_cpus[OF c(3)] by (simp add: good_collection_def reported_ids_def Affinity Filled)
      from assert_good[OF good] good Filled Filled1 c(1) show ?thesis
        by (auto simp: MCF_cpu_collection_new_def Affinity good_collection_def cc_ok_def
            split: option.splits sum.splits)
    qed (use Filled1 in \<open>simp add: MCF_cpu_collection_new_def Affinity\<close>)
  qed (simp add: MCF_cpu_collection_new_def Affinity)
qed

definition sample_info :: "u32 \<Rightarrow> cpu_set_info" where
  "sample_info cid = \<lparr>si_size = 32, si_is_cpu_set = True, si_id = cid, si_group = 0, si_core = 0, si_effic = 0, si_sched = 0\<rparr>"

definition sample_source :: cpu_source where
  "sample_source = Cpu_sets (Failed 122) (Filled [sample_info 258, sample_info 256, sample_info 257])"

theorem cpu_collection_new_sorted_witness:
  "case MCF_cpu_collection_new True sample_source of
      None \<Rightarrow> reported_ids sample_source = {#}
    | Some (Inl err) \<Rightarrow> True \<longrightarrow> (case sample_source of
          Cpu_sets first second \<Rightarrow> query_twice first second = Failed err
        | Affinity first second mask_query _ \<Rightarrow> query_twice first second = Failed err \<or> mask_query = Failed err)
    | Some (Inr coll) \<Rightarrow> good_collection sample_source coll \<and> sorted (cpu_ids coll) \<and> 0 < cc_size coll"
proof -
  have "source_ok sample_source"
    by (simp add: sample_source_def source_ok_def sizes_ok_def sample_info_def)
  then show ?thesis by (rule cpu_collection_new_sorted)
qed

lemma same_search:
  assumes "\<And>j. ce_id (cc_data coll' ! j) = ce_id (cc_data coll ! j)" "cc_size coll' = cc_size coll"
  shows "do_find_cpu_opt coll' cid = do_find_cpu_opt coll cid"
proof -
  have "cpu_bsearch (cc_data coll') cid b e = cpu_bsearch (cc_data coll) cid b e" for b e
  proof (induction "cc_data coll" cid b e rule: cpu_bsearch.induct)
    case (1 x b e)
    then show ?case
      by (subst (1 2) cpu_bsearch.simps) (simp add: Let_def assms(1))
  qed
  then show ?thesis by (simp add: do_find_cpu_opt_def assms)
qed

text \<open>Selecting one processor, seen through the selection by identifier.\<close>

lemma set_selection_result:
  assumes "cc_ok coll"
  shows "case MCF_cpu_collection_set_selection coll cid sel of (old, coll') \<Rightarrow>
      cc_ok coll' \<and> cpu_ids coll' = cpu_ids coll \<and>
      old = (if cid \<in> set (cpu_ids coll) then of_bool (MCF_cpu_collection_get_selection coll cid) else - 1) \<and>
      (\<forall>x. MCF_cpu_collection_get_selection coll' x =
        (if x = cid then sel \<and> cid \<in> set (cpu_ids coll) else MCF_cpu_collection_get_selection coll x))"
proof (cases "do_find_cpu_opt coll cid")
  case None
  with find_cpu_result[OF assms, of cid] assms show ?thesis
    by (simp add: MCF_cpu_collection_set_selection_def MCF_cpu_collection_get_selection_def)
next
  case (Some i)
  with find_cpu_result[OF assms, of cid] have i: "i < cc_size coll" "cpu_ids coll ! unat i = cid" "cid \<in> set (cpu_ids coll)"
    by simp_all
  then have n: "unat i < length (cc_data coll)" using assms by (simp add: word_less_nat_alt cc_ok_def)
  define coll' where "coll' = cpu_select sel i coll"
  have data: "cc_size coll' = cc_size coll" "length (cc_data coll') = length (cc_data coll)"
    "\<And>j. ce_id (cc_data coll' ! j) = ce_id (cc_data coll ! j)"
    "\<And>j. ce_selected (cc_data coll' ! j) = (if j = unat i then sel else ce_selected (cc_data coll ! j))"
    using n by (auto simp: coll'_def cpu_select_def nth_list_update)
  have ids: "cpu_ids coll' = cpu_ids coll"
    using data(1-3) by (intro nth_equalityI) (simp_all add: cpu_ids_def cpus_def)
  have ok': "cc_ok coll'" using assms data(1,2) ids by (simp add: cc_ok_def)
  note find = same_search[of coll' coll, OF data(3,1)]
  have "MCF_cpu_collection_get_selection coll' x =
      (if x = cid then sel else MCF_cpu_collection_get_selection coll x)" for x
  proof (cases "x = cid \<or> do_find_cpu_opt coll x = None")
    case False
    then obtain j where j: "do_find_cpu_opt coll x = Some j" by auto
    with find_cpu_result[OF assms, of x] have "cpu_ids coll ! unat j = x" by simp
    with i(2) False have "unat j \<noteq> unat i" by auto
    with j False show ?thesis by (simp add: MCF_cpu_collection_get_selection_def find data(4))
  qed (use Some in \<open>auto simp: MCF_cpu_collection_get_selection_def find data(4)\<close>)
  moreover have "MCF_cpu_collection_set_selection coll cid sel = (of_bool (ce_selected (cc_data coll ! unat i)), coll')"
    using Some by (simp add: MCF_cpu_collection_set_selection_def coll'_def)
  ultimately show ?thesis
    using Some i(3) ids ok' by (simp add: MCF_cpu_collection_get_selection_def[of _ cid])
qed


definition sample_collection :: cpu_collection where
  "sample_collection = cpu_collection_from_sets [sample_info 258, sample_info 256, sample_info 300]"

lemma sample_collection_ok: "cc_ok sample_collection"
  unfolding sample_collection_def by (rule from_sets_result) (simp_all add: sample_info_def)


end
