(* ===== verification/Mcf_Thread.thy ===== *)
theory Mcf_Thread
  imports Mcf_Memory Mcf_Cxa Mcf_Tls Cpu_Collection Winnt_Timeout
begin

text \<open>
  Threads: \<open>thread.h\<close>, \<open>src/thread.c\<close> and \<open>__MCF_gthread_on_thread_exit\<close> of
  \<open>src/xglobals.c\<close>. The state is what one thread sees: the control structures by address, the
  one of the main thread and the static one for when there is no memory, the TLS slot of the
  calling thread, the keys, and the rest of the world, on which destructors act. What the system
  does (memory, thread creation, handles, identifiers, results of system calls) is an argument.
  \<open>None\<close> is a failed assertion or check, or a call that does not return.
\<close>

section \<open>The control structure\<close>

text \<open>The last two fields share a union: the event is used until the thread starts, when storing a
  null pointer to the other resets it.\<close>

record mcf_thread =
  th_nref :: i32
  th_tid :: i32
  th_handle :: uptr
  th_proc :: uptr
  th_data_opt :: uptr
  th_atexit_queue :: dtor_queue
  th_tls_table :: tls_table
  th_libobjc_tls_data :: uptr
  th_init_done :: u8

definition thread_zero :: mcf_thread where
  "thread_zero = \<lparr>th_nref = 0, th_tid = 0, th_handle = 0, th_proc = 0, th_data_opt = 0,
     th_atexit_queue = dtor_queue_zero, th_tls_table = tls_table_zero, th_libobjc_tls_data = 0,
     th_init_done = 0\<rparr>"

definition sizeof_thread_base :: uptr where
  "sizeof_thread_base = 1600"

definition MCF_THREAD_DATA_ALIGNMENT :: uptr where
  "MCF_THREAD_DATA_ALIGNMENT = 16"

definition MCF_THREAD_MAX_DATA_ALIGNMENT :: uptr where
  "MCF_THREAD_MAX_DATA_ALIGNMENT = 0x200000"

section \<open>Creating a thread\<close>

text \<open>Where the user-defined data go, and the size that the block keeps.\<close>

definition thread_data_place :: "uptr \<Rightarrow> uptr \<Rightarrow> uptr \<Rightarrow> uptr \<Rightarrow> uptr \<Rightarrow> (uptr \<times> uptr) option" where
  "thread_data_place thrd size_need size_request real_alignment data_size =
     (let data_addr = thrd + sizeof_thread_base in
      if size_need \<noteq> size_request then
        (let data_addr = ((data_addr - 1) OR (real_alignment - 1)) + 1;
             size_kept = data_addr + data_size - thrd
         in if data_addr mod real_alignment \<noteq> 0 then None
            else if \<not> size_need \<le> size_kept then None
            else Some (data_addr, size_kept))
      else Some (data_addr, size_request))"

text \<open>The errors are \<open>ERROR_INVALID_PARAMETER\<close> (87), \<open>ERROR_NOT_SUPPORTED\<close> (50),
  \<open>ERROR_ARITHMETIC_OVERFLOW\<close> (534), \<open>ERROR_NOT_ENOUGH_MEMORY\<close> (8) and what the creation of the
  thread reports. A new thread comes with its address, the memory and the size of its block.\<close>

definition MCF_thread_p_new :: "uptr \<Rightarrow> uptr \<Rightarrow> uptr \<Rightarrow> uptr \<Rightarrow> (uptr \<Rightarrow> uptr option) \<Rightarrow> (u32 + uptr \<times> i32) \<Rightarrow>
    memory \<Rightarrow> (u32 + uptr \<times> mcf_thread \<times> memory \<times> uptr) option" where
  "MCF_thread_p_new proc data_alignment data_opt data_size alloc create m =
     (if proc = 0 then Some (Inl 87)
      else if data_alignment AND (data_alignment - 1) \<noteq> 0 then Some (Inl 87)
      else if data_alignment > MCF_THREAD_MAX_DATA_ALIGNMENT then Some (Inl 50)
      else if data_size > 0x8000000 - MCF_THREAD_MAX_DATA_ALIGNMENT then Some (Inl 534)
      else
        (let size_need = sizeof_thread_base + data_size;
             real_alignment = (if data_size \<noteq> 0 then MCF_maxz MCF_THREAD_DATA_ALIGNMENT data_alignment else 0);
             size_request = (if data_size \<noteq> 0 then size_need + (real_alignment - 16) else size_need)
         in if data_size \<noteq> 0 \<and> \<not> size_need \<le> size_request then None
            else
              (case alloc size_request of
                 None \<Rightarrow> Some (Inl 8)
               | Some thrd \<Rightarrow> do {
                   let m = MCF_mzero thrd size_request m;
                   (data, size_kept, m) \<leftarrow>
                     (if data_size \<noteq> 0 then do {
                        (data, size_kept) \<leftarrow> thread_data_place thrd size_need size_request real_alignment data_size;
                        m \<leftarrow> (if data_opt \<noteq> 0 then MCF_mcopy data data_opt data_size m else Some m);
                        Some (data, size_kept, m) }
                      else Some (0, size_request, m));
                   (case create of
                      Inl err \<Rightarrow> Some (Inl err)
                    | Inr (handle, tid) \<Rightarrow>
                        Some (Inr (thrd,
                          thread_zero\<lparr>th_nref := 2, th_tid := tid, th_handle := handle, th_proc := proc,
                            th_data_opt := data, th_init_done := 1\<rparr>, m, size_kept))) })))"

definition MCF_thread_new_aligned :: "uptr \<Rightarrow> uptr \<Rightarrow> uptr \<Rightarrow> uptr \<Rightarrow> (uptr \<Rightarrow> uptr option) \<Rightarrow> (u32 + uptr \<times> i32) \<Rightarrow>
    memory \<Rightarrow> (u32 + uptr \<times> mcf_thread \<times> memory \<times> uptr) option" where
  "MCF_thread_new_aligned proc data_alignment data_opt data_size =
     MCF_thread_p_new proc data_alignment data_opt data_size"

definition MCF_thread_new :: "uptr \<Rightarrow> uptr \<Rightarrow> uptr \<Rightarrow> (uptr \<Rightarrow> uptr option) \<Rightarrow> (u32 + uptr \<times> i32) \<Rightarrow>
    memory \<Rightarrow> (u32 + uptr \<times> mcf_thread \<times> memory \<times> uptr) option" where
  "MCF_thread_new proc data_opt data_size = MCF_thread_p_new proc 0 data_opt data_size"

section \<open>The threads of a process\<close>

record 'w runtime =
  rt_threads :: "uptr \<Rightarrow> mcf_thread option"
  rt_main :: uptr
  rt_oom :: "uptr option"
  rt_oom_mtx :: MCF_mutex
  rt_slot :: uptr
  rt_keys :: key_heap
  rt_world :: 'w

definition MCF_BAD_PTR :: uptr where
  "MCF_BAD_PTR = - 127"

definition MCF_thread_drop_ref_nonnull :: "uptr \<Rightarrow> 'w runtime \<Rightarrow> 'w runtime option" where
  "MCF_thread_drop_ref_nonnull thrd s = do {
     t \<leftarrow> rt_threads s thrd;
     let old_ref = th_nref t;
     let s = s\<lparr>rt_threads := (rt_threads s)(thrd \<mapsto> t\<lparr>th_nref := old_ref - 1\<rparr>)\<rparr>;
     if \<not> 0 <s old_ref then None
     else if old_ref \<noteq> 1 then Some s
     else if thrd = rt_main s then Some s
     else if dq_prev (th_atexit_queue t) \<noteq> None then None
     else if tt_elems (th_tls_table t) \<noteq> [] then None
     else if rt_oom s = Some thrd then do {
       mtx \<leftarrow> unlock_alone (rt_oom_mtx s);
       Some (s\<lparr>rt_threads := (rt_threads s)(thrd \<mapsto> thread_zero), rt_oom_mtx := mtx\<rparr>) }
     else Some (s\<lparr>rt_threads := (rt_threads s)(thrd := None)\<rparr>) }"

definition MCF_thread_drop_ref :: "uptr \<Rightarrow> 'w runtime \<Rightarrow> 'w runtime option" where
  "MCF_thread_drop_ref thrd_opt s = (if thrd_opt \<noteq> 0 then MCF_thread_drop_ref_nonnull thrd_opt s else Some s)"

definition MCF_thread_get_ref :: "uptr \<Rightarrow> 'w runtime \<Rightarrow> i32 option" where
  "MCF_thread_get_ref thrd s = map_option th_nref (rt_threads s thrd)"

definition MCF_thread_add_ref :: "uptr \<Rightarrow> 'w runtime \<Rightarrow> 'w runtime option" where
  "MCF_thread_add_ref thrd s = do {
     t \<leftarrow> rt_threads s thrd;
     let old_ref = th_nref t;
     if old_ref <s 0x7FFFFFFF \<and> 0 <s old_ref
     then Some (s\<lparr>rt_threads := (rt_threads s)(thrd \<mapsto> t\<lparr>th_nref := old_ref + 1\<rparr>)\<rparr>) else None }"

definition MCF_thread_get_data :: "uptr \<Rightarrow> 'w runtime \<Rightarrow> uptr option" where
  "MCF_thread_get_data thrd s = map_option th_data_opt (rt_threads s thrd)"

definition MCF_thread_get_tid :: "uptr \<Rightarrow> 'w runtime \<Rightarrow> u32 option" where
  "MCF_thread_get_tid thrd s = map_option th_tid (rt_threads s thrd)"

definition MCF_thread_get_handle :: "uptr \<Rightarrow> 'w runtime \<Rightarrow> uptr option" where
  "MCF_thread_get_handle thrd s = map_option th_handle (rt_threads s thrd)"

text \<open>Attaching the calling thread, with its identifier and a duplicate of its handle.\<close>

definition MCF_thread_attach_foreign :: "i32 \<Rightarrow> uptr \<Rightarrow> uptr \<Rightarrow> 'w runtime \<Rightarrow> (uptr \<times> 'w runtime) option" where
  "MCF_thread_attach_foreign tid handle thrd s = do {
     t \<leftarrow> rt_threads s thrd;
     if th_nref t \<noteq> 0 \<or> th_tid t \<noteq> 0 \<or> th_handle t \<noteq> 0 \<or> handle = 0 then None
     else Some (thrd, s\<lparr>rt_threads := (rt_threads s)(thrd \<mapsto> t\<lparr>th_tid := tid, th_handle := handle, th_nref := 1\<rparr>),
                        rt_slot := thrd\<rparr>) }"

definition do_thread_self_slow :: "uptr option \<Rightarrow> i32 \<Rightarrow> uptr \<Rightarrow> 'w runtime \<Rightarrow> (uptr \<times> 'w runtime) option" where
  "do_thread_self_slow place tid handle s =
     (if rt_slot s \<noteq> 0 then Some (rt_slot s, s)
      else
        (case place of
           Some self \<Rightarrow>
             MCF_thread_attach_foreign tid handle self (s\<lparr>rt_threads := (rt_threads s)(self \<mapsto> thread_zero)\<rparr>)
         | None \<Rightarrow> do {
             self \<leftarrow> rt_oom s;
             mtx \<leftarrow> lock_alone (rt_oom_mtx s);
             MCF_thread_attach_foreign tid handle self (s\<lparr>rt_oom_mtx := mtx\<rparr>) }))"

text \<open>The slots below 64 are read from the environment block of the thread.\<close>

definition MCF_thread_self :: "uptr \<Rightarrow> uptr option \<Rightarrow> i32 \<Rightarrow> uptr \<Rightarrow> 'w runtime \<Rightarrow> (uptr \<times> 'w runtime) option" where
  "MCF_thread_self tls_index place tid handle s =
     (if tls_index < 64 \<and> rt_slot s \<noteq> 0 then Some (rt_slot s, s)
      else do_thread_self_slow place tid handle s)"

section \<open>Thread-local values of the calling thread\<close>

definition MCF_tls_get :: "uptr \<Rightarrow> uptr \<Rightarrow> 'w runtime \<Rightarrow> uptr option" where
  "MCF_tls_get self key s = do {
     t \<leftarrow> rt_threads s self;
     MCF_tls_table_get (th_tls_table t) key (rt_keys s) }"

definition MCF_tls_xset :: "(nat \<Rightarrow> nat option) \<Rightarrow> uptr \<Rightarrow> uptr \<Rightarrow> uptr \<Rightarrow> 'w runtime \<Rightarrow> (int \<times> uptr \<times> 'w runtime) option" where
  "MCF_tls_xset alloc self key value_opt s = do {
     t \<leftarrow> rt_threads s self;
     (err, old, table, keys) \<leftarrow> MCF_tls_table_xset alloc (th_tls_table t) key value_opt (rt_keys s);
     Some (err, old, s\<lparr>rt_threads := (rt_threads s)(self \<mapsto> t\<lparr>th_tls_table := table\<rparr>), rt_keys := keys\<rparr>) }"

definition MCF_tls_set :: "(nat \<Rightarrow> nat option) \<Rightarrow> uptr \<Rightarrow> uptr \<Rightarrow> uptr \<Rightarrow> 'w runtime \<Rightarrow> (int \<times> 'w runtime) option" where
  "MCF_tls_set alloc self key value_opt s = do {
     (err, old, s) \<leftarrow> MCF_tls_xset alloc self key value_opt s;
     Some (err, s) }"

section \<open>The end of a thread\<close>

text \<open>A destructor and its argument act on the state.\<close>

type_synonym 'w dtor_call = "uptr \<Rightarrow> uptr \<Rightarrow> 'w runtime \<Rightarrow> 'w runtime"

definition pop_self_atexit :: "uptr \<Rightarrow> 'w runtime \<Rightarrow> (dtor_element option \<times> 'w runtime) option" where
  "pop_self_atexit self s = do {
     t \<leftarrow> rt_threads s self;
     let (err, elem, queue) = MCF_dtor_queue_pop True (th_atexit_queue t) 0;
     Some (if err = 0 then elem else None,
           s\<lparr>rt_threads := (rt_threads s)(self \<mapsto> t\<lparr>th_atexit_queue := queue\<rparr>)\<rparr>) }"

partial_function (option) tls_drain :: "'w dtor_call \<Rightarrow> uptr \<Rightarrow> uptr \<Rightarrow> 'w runtime \<Rightarrow> 'w runtime option" where
  "tls_drain call self hint s =
     (case rt_threads s self of
        None \<Rightarrow> None
      | Some t \<Rightarrow>
          (case MCF_tls_table_pop (Some hint) (th_tls_table t) (rt_keys s) of
             None \<Rightarrow> None
           | Some (err, elem, table, keys) \<Rightarrow>
               (let s' = s\<lparr>rt_threads := (rt_threads s)(self \<mapsto> t\<lparr>th_tls_table := table\<rparr>), rt_keys := keys\<rparr> in
                if err \<noteq> 0 then Some s'
                else
                  (case elem of
                     None \<Rightarrow> None
                   | Some p \<Rightarrow>
                       (case keys (pe_key p) of
                          None \<Rightarrow> None
                        | Some k \<Rightarrow>
                            tls_drain call self (pe_hint p)
                              (if key_dtor k \<noteq> 0 then call (key_dtor k) (pe_value p) s' else s'))))))"

text \<open>The hint is what the uninitialised \<open>tls_elem\<close> holds at first.\<close>

definition MCF_gthread_on_thread_exit :: "'w dtor_call \<Rightarrow> uptr \<Rightarrow> 'w runtime \<Rightarrow> 'w runtime option" where
  "MCF_gthread_on_thread_exit call hint s =
     (let self = rt_slot s in
      if self = 0 then Some s
      else if self = MCF_BAD_PTR then Some s
      else do {
        s \<leftarrow> drain (pop_self_atexit self) (\<lambda>e. call (dtor_fn e) (dtor_this e)) s;
        s \<leftarrow> tls_drain call self hint s;
        MCF_thread_drop_ref_nonnull self (s\<lparr>rt_slot := MCF_BAD_PTR\<rparr>) })"

text \<open>\<open>_MCF_thread_exit\<close> ends the thread with the code 0 after that.\<close>

definition MCF_thread_exit :: "'w dtor_call \<Rightarrow> uptr \<Rightarrow> 'w runtime \<Rightarrow> (u32 \<times> 'w runtime) option" where
  "MCF_thread_exit call hint s = do {
     s \<leftarrow> MCF_gthread_on_thread_exit call hint s;
     Some (0, s) }"

text \<open>What a new thread does, once \<open>__init_done\<close> has changed: it takes over what the loader or other
  modules registered for it before (\<open>foreign\<close>), then runs its procedure and its destructors.\<close>

definition do_win32_thread_routine :: "u8 \<Rightarrow> ('w runtime \<Rightarrow> 'w runtime option) \<Rightarrow> 'w dtor_call \<Rightarrow> uptr \<Rightarrow> uptr \<Rightarrow>
    'w runtime \<Rightarrow> (u32 \<times> 'w runtime) option" where
  "do_win32_thread_routine init_done proc call hint thrd s =
     (if init_done \<noteq> 1 then Some (0, s)
      else do {
        t \<leftarrow> rt_threads s thrd;
        let t = t\<lparr>th_libobjc_tls_data := 0, th_init_done := 0\<rparr>;
        let s = s\<lparr>rt_threads := (rt_threads s)(thrd \<mapsto> t)\<rparr>;
        if th_tid t = 0 \<or> th_handle t = 0 \<or> dq_size (th_atexit_queue t) \<noteq> 0 \<or> tt_size_hint (th_tls_table t) \<noteq> 0
        then None
        else do {
          s \<leftarrow> (if rt_slot s \<noteq> 0 then do {
                 f \<leftarrow> rt_threads s (rt_slot s);
                 if th_tid f \<noteq> th_tid t then None
                 else MCF_thread_drop_ref_nonnull (rt_slot s)
                   (s\<lparr>rt_threads := (rt_threads s)
                      (thrd \<mapsto> t\<lparr>th_atexit_queue := th_atexit_queue f, th_tls_table := th_tls_table f\<rparr>,
                       rt_slot s \<mapsto> f\<lparr>th_atexit_queue := dtor_queue_zero, th_tls_table := tls_table_zero\<rparr>)\<rparr>) }
               else Some s);
          s \<leftarrow> proc (s\<lparr>rt_slot := thrd\<rparr>);
          s \<leftarrow> MCF_gthread_on_thread_exit call hint s;
          Some (0, s) } })"

section \<open>Waiting, priorities and sleeping\<close>

text \<open>The system call gets the handle and the timeout; its status is \<open>STATUS_WAIT_0\<close> (0) or not.\<close>

definition NtCurrentThread :: uptr where
  "NtCurrentThread = - 2"

definition thread_handle :: "uptr \<Rightarrow> 'w runtime \<Rightarrow> uptr option" where
  "thread_handle thrd_opt s =
     (if thrd_opt \<noteq> 0 then map_option th_handle (rt_threads s thrd_opt) else Some NtCurrentThread)"

definition MCF_thread_wait :: "(uptr \<Rightarrow> i64 \<Rightarrow> u32) \<Rightarrow> uptr \<Rightarrow> i64 option \<Rightarrow> u64 \<Rightarrow> 'w runtime \<Rightarrow> int option" where
  "MCF_thread_wait NtWaitForSingleObject thrd_opt timeout_opt now s = do {
     handle \<leftarrow> thread_handle thrd_opt s;
     Some (if NtWaitForSingleObject handle (QuadPart (initialize_winnt_timeout_v3 timeout_opt now)) \<noteq> 0
           then - 1 else 0) }"

definition MCF_thread_get_priority :: "(uptr \<Rightarrow> i32) \<Rightarrow> uptr \<Rightarrow> 'w runtime \<Rightarrow> i32 option" where
  "MCF_thread_get_priority GetThreadPriority thrd_opt s = do {
     handle \<leftarrow> thread_handle thrd_opt s;
     Some (GetThreadPriority handle) }"

definition MCF_thread_set_priority :: "(uptr \<Rightarrow> i32 \<Rightarrow> bool) \<Rightarrow> uptr \<Rightarrow> i32 \<Rightarrow> 'w runtime \<Rightarrow> int option" where
  "MCF_thread_set_priority SetThreadPriority thrd_opt priority s =
     (if priority <s - 15 \<or> 15 <s priority then Some (- 1)
      else do {
        handle \<leftarrow> thread_handle thrd_opt s;
        Some (if SetThreadPriority handle priority then 0 else - 2) })"

definition MCF_sleep_noninterruptible :: "(i64 \<Rightarrow> i32) \<Rightarrow> i64 option \<Rightarrow> u64 \<Rightarrow> unit option" where
  "MCF_sleep_noninterruptible NtDelayExecution timeout_opt now =
     (if 0 \<le>s NtDelayExecution (QuadPart (initialize_winnt_timeout_v3 timeout_opt now)) then Some () else None)"

section \<open>Affinity\<close>

text \<open>What the system reports: the identifiers of the selected CPU sets, or a mask.\<close>

datatype affinity_answer = Set_ids "u32 list query" | Group_mask "uptr query"

fun select_ids :: "u32 list \<Rightarrow> cpu_collection \<Rightarrow> cpu_collection" where
  "select_ids [] coll = coll"
| "select_ids (cid # ids) coll = select_ids ids (snd (MCF_cpu_collection_set_selection coll cid True))"

fun select_mask :: "nat list \<Rightarrow> uptr \<Rightarrow> cpu_collection \<Rightarrow> cpu_collection" where
  "select_mask [] bits coll = coll"
| "select_mask (k # ks) bits coll =
     select_mask ks bits
       (if bits AND push_bit k 1 \<noteq> 0 then snd (MCF_cpu_collection_set_selection coll (256 + of_nat k) True) else coll)"

definition MCF_thread_get_affinity :: "affinity_answer \<Rightarrow> cpu_collection option \<Rightarrow> int \<times> cpu_collection option" where
  "MCF_thread_get_affinity answer coll_opt =
     (case coll_opt of
        None \<Rightarrow> (- 1, None)
      | Some coll \<Rightarrow>
          (let coll = MCF_cpu_collection_set_all_selections coll False in
           case answer of
             Set_ids (Failed _) \<Rightarrow> (- 2, Some coll)
           | Set_ids (Filled ids) \<Rightarrow>
               (0, Some (if ids = [] then MCF_cpu_collection_set_all_selections coll True else select_ids ids coll))
           | Group_mask (Failed _) \<Rightarrow> (- 2, Some coll)
           | Group_mask (Filled bits) \<Rightarrow> (0, Some (select_mask [0..<64] bits coll))))"

text \<open>The identifiers, and the mask, that are passed to the system.\<close>

fun selected_ids :: "nat list \<Rightarrow> cpu_collection \<Rightarrow> u32 list" where
  "selected_ids [] coll = []"
| "selected_ids (k # ks) coll =
     (if MCF_cpu_collection_get_selection_by_index coll (of_nat k) = Some True
      then the (MCF_cpu_collection_get_id_by_index coll (of_nat k)) # selected_ids ks coll
      else selected_ids ks coll)"

fun selected_mask :: "nat list \<Rightarrow> cpu_collection \<Rightarrow> uptr \<Rightarrow> uptr" where
  "selected_mask [] coll bits = bits"
| "selected_mask (k # ks) coll bits =
     selected_mask ks coll
       (if MCF_cpu_collection_get_selection_by_index coll (of_nat k) = Some True
        then bits OR push_bit (unat (the (MCF_cpu_collection_get_id_by_index coll (of_nat k)) - 256)) 1 else bits)"

datatype affinity_call = Set_selected "u32 list \<Rightarrow> bool" | Set_mask "uptr \<Rightarrow> bool"

definition MCF_thread_set_affinity :: "affinity_call \<Rightarrow> cpu_collection option \<Rightarrow> int" where
  "MCF_thread_set_affinity sys coll_opt =
     (case coll_opt of
        None \<Rightarrow> - 1
      | Some coll \<Rightarrow>
          (let indices = [0..<unat (MCF_cpu_collection_get_size coll)] in
           case sys of
             Set_selected apply_ids \<Rightarrow>
               (let ids = selected_ids indices coll in
                if ids = [] then - 1 else if \<not> apply_ids ids then - 2 else 0)
           | Set_mask apply_bits \<Rightarrow>
               (let bits = selected_mask indices coll 0 in
                if bits = 0 then - 1 else if \<not> apply_bits bits then - 2 else 0)))"

end
