(* ===== verification/Thread_Layout.thy ===== *)
theory Thread_Layout
  imports Mcf_Thread
begin

text \<open>
  The block of a new thread: the theorem about \<open>_MCF_thread_p_new\<close>, the arithmetic of the
  rounding to a power of two, and that the data are inside the memory that was requested.
\<close>

unbundle bit_operations_syntax

section \<open>Where the data of a new thread are\<close>

lemma power_of_two:
  fixes a :: uptr
  assumes "a AND (a - 1) = 0" "a \<noteq> 0"
  shows "\<exists>k<64. a = 2 ^ k"
proof -
  define i where "i = (LEAST i. bit a i)"
  have "\<exists>i. bit a i" using assms(2) by (auto simp: bit_eq_iff)
  then have i: "bit a i" "\<And>j. j < i \<Longrightarrow> \<not> bit a j"
    unfolding i_def by (auto intro: LeastI_ex dest: not_less_Least)
  have "bit a j \<longleftrightarrow> j = i" for j
    using clear_lowest[OF i, of j] assms(1) i(1) by auto
  moreover have "i < 64" using bit_imp_le_length[OF i(1)] by simp
  ultimately have "a = 2 ^ i" by (intro bit_word_eqI) (auto simp: bit_exp_iff)
  with \<open>i < 64\<close> show ?thesis by blast
qed

lemma mod_eq_0_unat: "(x :: uptr) mod a = 0 \<longleftrightarrow> unat a dvd unat x"
proof -
  have "unat (x mod a) = unat x mod unat a" by (rule unat_mod_distrib)
  then show ?thesis by (metis dvd_eq_mod_eq_0 unsigned_eq_0_iff)
qed

lemma unat_exp: "k < 64 \<Longrightarrow> unat (2 ^ k :: uptr) = 2 ^ k"
  by (rule bit_eqI) (auto simp: bit_simps)

lemma or_low_bits: "unat ((y :: uptr) OR (2 ^ k - 1)) = unat y div 2 ^ k * 2 ^ k + (2 ^ k - 1)" if "k < 64"
proof -
  have "unat (2 ^ k - 1 :: uptr) = mask k"
    unfolding mask_eq_exp_minus_1[symmetric] by (rule bit_eqI) (use that in \<open>auto simp: bit_simps\<close>)
  then have "unat (y OR (2 ^ k - 1)) = unat y OR mask k" by (simp add: unsigned_or_eq)
  also have "\<dots> = push_bit k (drop_bit k (unat y OR mask k)) + take_bit k (unat y OR mask k)"
    by (rule bits_ident[symmetric])
  also have "drop_bit k (unat y OR mask k) = drop_bit k (unat y)"
    by (rule bit_eqI) (auto simp: bit_simps)
  also have "take_bit k (unat y OR mask k) = mask k"
    by (rule bit_eqI) (auto simp: bit_simps)
  finally show ?thesis by (simp add: push_bit_eq_mult drop_bit_eq_div mask_eq_exp_minus_1)
qed

lemma round_up:
  fixes x :: uptr
  assumes k: "4 \<le> k" "k < 64" and x: "16 dvd unat x" "0 < unat x" "unat x + 2 ^ k < 2 ^ 64"
  defines "r \<equiv> ((x - 1) OR (2 ^ k - 1)) + 1"
  shows "2 ^ k dvd unat r" "unat x \<le> unat r" "unat r + 16 \<le> unat x + 2 ^ k"
proof -
  define n where "n = unat x - 1"
  have n: "unat (x - 1) = n" "unat x = Suc n" using x(2) unat_minus_one'[of x] by (auto simp: n_def unat_gt_0)
  have v: "unat ((x - 1) OR (2 ^ k - 1)) = n div 2 ^ k * 2 ^ k + (2 ^ k - 1)"
    using or_low_bits[OF k(2), of "x - 1"] n(1) by simp
  have le: "n div 2 ^ k * 2 ^ k \<le> n" by simp
  then have "n div 2 ^ k * 2 ^ k + (2 ^ k - 1) + 1 < 2 ^ 64" using x(3) n(2) by linarith
  then have r: "unat r = (n div 2 ^ k + 1) * 2 ^ k"
    unfolding r_def using v unat_plus_one[of "(x - 1) OR (2 ^ k - 1)"] by simp
  then show "2 ^ k dvd unat r" by simp
  have "n < (n div 2 ^ k + 1) * 2 ^ k" using dividend_less_div_times[of "2 ^ k" n] by (simp add: algebra_simps)
  then show "unat x \<le> unat r" using r n(2) by simp
  have "16 dvd (2 :: nat) ^ k" using k(1) le_imp_power_dvd[of 4 k "2 :: nat"] by simp
  then have "16 dvd unat r" unfolding r by simp
  moreover have "unat r = n div 2 ^ k * 2 ^ k + 2 ^ k" unfolding r by (simp add: add_mult_distrib)
  then have "unat r < unat x + 2 ^ k" using le n(2) by linarith
  ultimately show "unat r + 16 \<le> unat x + 2 ^ k"
    using x(1) \<open>16 dvd (2 :: nat) ^ k\<close> by (auto elim!: dvdE) presburger
qed

text \<open>What the allocator promises, for a source of \<open>n\<close> bytes that are not in the new block.\<close>

definition fresh_block :: "(uptr \<Rightarrow> uptr option) \<Rightarrow> uptr \<Rightarrow> uptr \<Rightarrow> bool" where
  "fresh_block alloc src n \<longleftrightarrow>
     (\<forall>size p. alloc size = Some p \<longrightarrow>
        16 dvd unat p \<and> unat p + unat size < 2 ^ 63 \<and> (\<forall>k < unat n. outside p (unat size) (src + of_nat k)))"

lemma fresh_copy:
  assumes "\<forall>k < unat n. outside p z (src + of_nat k)" "unat p \<le> unat d" "unat d + unat n \<le> unat p + z"
  shows "n \<le> d - src"
proof (rule ccontr)
  assume "\<not> n \<le> d - src"
  then have "unat (d - src) < unat n" by (simp add: word_less_nat_alt not_le)
  with assms(1) have "outside p z (src + of_nat (unat (d - src)))" by blast
  then have "outside p z d" by simp
  moreover have "unat (d - p) < z"
  proof -
    have "unat (d - p) = unat d - unat p" using assms(2) by (simp add: unat_sub word_le_nat_alt)
    then show ?thesis using assms(2,3) \<open>unat (d - src) < unat n\<close> by linarith
  qed
  ultimately show False unfolding outside_def by (auto dest!: spec[of _ "unat (d - p)"])
qed

lemma new_data_size:
  fixes al n :: uptr
  assumes al: "al = 2 ^ k" "4 \<le> k" "k \<le> 21" and n: "n \<le> 0x7E00000"
    and sizes: "size_need = sizeof_thread_base + n" "size_request = size_need + (al - 16)"
  shows "unat al = 2 ^ k" "unat n \<le> 0x7E00000" "unat size_need = 1600 + unat n"
    "unat size_request = 1600 + unat n + (2 ^ k - 16)" "size_need \<le> size_request"
proof -
  have al_nat: "unat al = 2 ^ k" "(2 :: nat) ^ k \<le> 2 ^ 21" "16 \<le> (2 :: nat) ^ k"
    using al power_increasing[of 4 k "2 :: nat"] power_increasing[of k 21 "2 :: nat"]
    by (simp_all add: unat_exp)
  then show "unat al = 2 ^ k" by blast
  show n_nat: "unat n \<le> 0x7E00000" using n by (simp add: word_le_nat_alt)
  show need: "unat size_need = 1600 + unat n"
    unfolding sizes(1) sizeof_thread_base_def using n_nat by (simp add: unat_word_ariths)
  have al16: "unat (al - 16) = 2 ^ k - 16" using al_nat by (simp add: unat_sub word_le_nat_alt)
  show req: "unat size_request = 1600 + unat n + (2 ^ k - 16)"
    unfolding sizes(2) using n_nat need al16 al_nat(2) by (subst unat_word_ariths) simp
  then show "size_need \<le> size_request" using need by (simp add: word_le_nat_alt)
qed

lemma data_place_result:
  fixes thrd size_need size_request al n :: uptr
  assumes al: "al = 2 ^ k" "4 \<le> k" "k \<le> 21" and n: "n \<noteq> 0" "n \<le> 0x7E00000"
    and thrd: "16 dvd unat thrd" "unat thrd + unat size_request < 2 ^ 63"
    and sizes: "size_need = sizeof_thread_base + n" "size_request = size_need + (al - 16)"
  shows "\<exists>data size. thread_data_place thrd size_need size_request al n = Some (data, size) \<and>
    data mod al = 0 \<and> unat thrd + 1600 \<le> unat data \<and> unat data + unat n = unat thrd + unat size \<and>
    unat size_need \<le> unat size \<and> unat size \<le> unat size_request"
proof -
  note al_nat = new_data_size(1)[OF al n(2) sizes] and need = new_data_size(3)[OF al n(2) sizes]
    and req = new_data_size(4)[OF al n(2) sizes]
  have k16: "16 \<le> (2 :: nat) ^ k" using al(2) power_increasing[of 4 k "2 :: nat"] by simp
  define x where "x = thrd + sizeof_thread_base"
  have x: "unat x = unat thrd + 1600"
    unfolding x_def sizeof_thread_base_def using thrd(2) req by (subst unat_word_ariths) simp
  have rnd: "\<exists>data. data = ((x - 1) OR (al - 1)) + 1 \<and> 2 ^ k dvd unat data \<and>
      unat x \<le> unat data \<and> unat data + 16 \<le> unat x + 2 ^ k"
    using round_up[of k x] al x thrd req by simp
  show ?thesis
  proof (cases "size_need = size_request")
    case True
    then have "unat al = 16" using need req al_nat k16 by simp
    then have "data mod al = 0 \<longleftrightarrow> 16 dvd unat data" for data
      by (simp add: mod_eq_0_unat)
    moreover have "16 dvd unat x" using x thrd(1) by simp
    ultimately show ?thesis
      using True need x unfolding thread_data_place_def x_def[symmetric] by simp
  next
    case False
    obtain data where d: "data = ((x - 1) OR (al - 1)) + 1" "2 ^ k dvd unat data"
      "unat x \<le> unat data" "unat data + 16 \<le> unat x + 2 ^ k" using rnd by blast
    define size where "size = data + n - thrd"
    have "unat (data + n) = unat data + unat n"
    proof -
      have "unat thrd + unat size_request < 9223372036854775808" using thrd(2) by simp
      then have "unat data + unat n < 18446744073709551616" using d(4) x req k16 by linarith
      then show ?thesis by (simp add: unat_word_ariths)
    qed
    then have sz: "unat size = unat data + unat n - unat thrd"
      unfolding size_def using d(3) x by (simp add: unat_sub word_le_nat_alt)
    have "data mod al = 0" using d(2) al_nat by (simp add: mod_eq_0_unat)
    moreover have "size_need \<le> size" using sz d(3) x need by (simp add: word_le_nat_alt)
    moreover have "unat size \<le> unat size_request" using sz d(4) x req k16 by simp
    ultimately show ?thesis
      using False sz d(3) x unfolding thread_data_place_def Let_def x_def[symmetric] d(1)[symmetric] size_def[symmetric]
      by (simp add: word_le_nat_alt)
  qed
qed

lemma real_alignment:
  assumes "al AND (al - 1) = 0" "al \<le> MCF_THREAD_MAX_DATA_ALIGNMENT"
  shows "\<exists>k. MCF_maxz MCF_THREAD_DATA_ALIGNMENT al = 2 ^ k \<and> 4 \<le> k \<and> k \<le> 21"
proof (cases "al \<le> 16")
  case True
  then have "MCF_maxz MCF_THREAD_DATA_ALIGNMENT al = 2 ^ 4"
    by (auto simp: MCF_maxz_max MCF_THREAD_DATA_ALIGNMENT_def max_def)
  then show ?thesis by (intro exI[of _ 4]) simp
next
  case False
  then have "al \<noteq> 0" by auto
  with assms(1) obtain k where k: "k < 64" "al = 2 ^ k" using power_of_two by blast
  then have "(2 :: nat) ^ k \<le> 2 ^ 21" "\<not> (2 :: nat) ^ k \<le> 2 ^ 4"
    using assms(2) False unat_exp[of k] by (simp_all add: MCF_THREAD_MAX_DATA_ALIGNMENT_def word_le_nat_alt)
  then have "k \<le> 21" "4 \<le> k"
    using power_le_imp_le_exp[of "2 :: nat" k 21] power_less_imp_less_exp[of "2 :: nat" 4 k] by simp_all
  moreover have "MCF_maxz MCF_THREAD_DATA_ALIGNMENT al = 2 ^ k"
    using False k(2) by (auto simp: MCF_maxz_max MCF_THREAD_DATA_ALIGNMENT_def max_def)
  ultimately show ?thesis by blast
qed

lemma mzero_inside:
  assumes "\<not> outside p (unat n) a"
  shows "MCF_mzero p n m a = 0"
proof -
  obtain k where k: "k < unat n" "a = p + of_nat k" using assms by (auto simp: outside_def)
  have "block (MCF_mzero p n m) p (unat n) ! k = replicate (unat n) 0 ! k" by (simp only: mzero_fills)
  with k show ?thesis by (simp add: block_def)
qed

lemma block_cong: "(\<And>k. k < n \<Longrightarrow> m' (p + of_nat k) = m (p + of_nat k)) \<Longrightarrow> block m' p n = block m p n"
  by (simp add: block_def)

lemma inside_block:
  assumes "unat p \<le> unat d" "unat d + n \<le> unat p + z" "k < n" "unat p + z < 2 ^ 64"
  shows "\<not> outside p z (d + of_nat k)"
proof -
  have "p + of_nat (unat d - unat p + k) = d + of_nat k"
    using assms(1) by (simp add: of_nat_diff)
  moreover have "unat d - unat p + k < z" using assms by linarith
  ultimately show ?thesis unfolding outside_def by metis
qed

text \<open>The data part of a new block, once its size has been requested.\<close>

lemma new_data_result:
  fixes thrd n src :: uptr
  assumes al: "al = 2 ^ k" "4 \<le> k" "k \<le> 21" and n: "n \<noteq> 0" "n \<le> 0x7E00000"
    and sizes: "size_need = sizeof_thread_base + n" "size_request = size_need + (al - 16)"
    and fresh: "fresh_block alloc src n" "alloc size_request = Some thrd"
  shows "size_need \<le> size_request \<and>
    (\<exists>data size. thread_data_place thrd size_need size_request al n = Some (data, size) \<and>
      data mod al = 0 \<and> unat thrd + 1600 \<le> unat data \<and> unat data + unat n = unat thrd + unat size \<and>
      unat size \<le> unat size_request \<and>
      block (MCF_mzero thrd size_request m) data (unat n) = replicate (unat n) 0 \<and>
      (\<exists>m'. MCF_mcopy data src n (MCF_mzero thrd size_request m) = Some m' \<and>
        block m' data (unat n) = block m src (unat n) \<and>
        (\<forall>a. outside thrd (unat size_request) a \<longrightarrow> m' a = m a)))"
proof -
  have thrd: "16 dvd unat thrd" "unat thrd + unat size_request < 2 ^ 63"
    and away: "\<forall>j < unat n. outside thrd (unat size_request) (src + of_nat j)"
    using fresh unfolding fresh_block_def by blast+
  obtain data :: uptr and size :: uptr where p: "thread_data_place thrd size_need size_request al n = Some (data, size)"
    "data mod al = 0" "unat thrd + 1600 \<le> unat data" "unat data + unat n = unat thrd + unat size"
    "unat size_need \<le> unat size" "unat size \<le> unat size_request"
    using data_place_result[OF al n thrd sizes] by (elim exE conjE) (rule that)
  have inside: "\<not> outside thrd (unat size_request) (data + of_nat j)" if "j < unat n" for j
    by (rule inside_block[OF _ _ that]) (use p(3,4,6) thrd(2) in simp_all)
  have "block (MCF_mzero thrd size_request m) data (unat n) = replicate (unat n) 0"
    using mzero_inside inside by (auto simp: block_def intro!: nth_equalityI)
  moreover
  obtain m' where m': "MCF_mcopy data src n (MCF_mzero thrd size_request m) = Some m'"
    "block m' data (unat n) = block (MCF_mzero thrd size_request m) src (unat n)"
    "\<And>a. outside data (unat n) a \<Longrightarrow> m' a = MCF_mzero thrd size_request m a"
    using mcopy_moves[OF fresh_copy[OF away, of data]] p(3,4,6) by auto
  moreover have "block (MCF_mzero thrd size_request m) src (unat n) = block m src (unat n)"
    using away by (intro block_cong) (simp add: mzero_fills(2))
  moreover have "m' a = m a" if "outside thrd (unat size_request) a" for a
  proof -
    have "outside data (unat n) a" using inside that by (auto simp: outside_def[of data])
    with m'(3) that show ?thesis by (simp add: mzero_fills(2))
  qed
  ultimately show ?thesis using p new_data_size(5)[OF al n(2) sizes] by simp
qed

text \<open>The whole of \<open>_MCF_thread_p_new\<close>, once the arguments are accepted and there is memory.\<close>

lemma new_thread_some:
  fixes proc al data_opt data_size request :: uptr
  assumes "proc \<noteq> 0" "al AND (al - 1) = 0" "al \<le> MCF_THREAD_MAX_DATA_ALIGNMENT" "data_size \<noteq> 0" "data_size \<le> 0x7E00000"
    and request: "request = 1600 + data_size + (MCF_maxz 16 al - 16)" "alloc request = Some thrd"
    and fresh: "fresh_block alloc data_opt data_size"
  shows "\<exists>data kept m'.
    MCF_thread_p_new proc al data_opt data_size alloc create m =
      Some (case create of Inl err \<Rightarrow> Inl err | Inr (handle, tid) \<Rightarrow> Inr (thrd, thread_zero\<lparr>th_nref := 2, th_tid := tid,
        th_handle := handle, th_proc := proc, th_data_opt := data, th_init_done := 1\<rparr>, m', kept)) \<and>
    data mod MCF_maxz 16 al = 0 \<and> unat thrd + 1600 \<le> unat data \<and> unat data + unat data_size = unat thrd + unat kept \<and>
    unat kept \<le> unat request \<and>
    block m' data (unat data_size) = (if data_opt \<noteq> 0 then block m data_opt (unat data_size) else replicate (unat data_size) 0) \<and>
    (\<forall>a. outside thrd (unat request) a \<longrightarrow> m' a = m a)"
proof -
  obtain k where k: "MCF_maxz MCF_THREAD_DATA_ALIGNMENT al = 2 ^ k" "4 \<le> k" "k \<le> 21"
    using real_alignment[OF assms(2,3)] by blast
  define need where "need = sizeof_thread_base + data_size"
  have req: "request = need + (2 ^ k - 16)"
    using k(1) by (simp add: request(1) need_def sizeof_thread_base_def MCF_THREAD_DATA_ALIGNMENT_def)
  from new_data_result[OF refl k(2,3) assms(4,5) need_def req fresh request(2), of m]
  obtain data :: uptr and kept :: uptr and m' where n: "need \<le> request"
    "thread_data_place thrd need request (2 ^ k) data_size = Some (data, kept)"
    "data mod 2 ^ k = 0" "unat thrd + 1600 \<le> unat data" "unat data + unat data_size = unat thrd + unat kept"
    "unat kept \<le> unat request" "block (MCF_mzero thrd request m) data (unat data_size) = replicate (unat data_size) 0"
    "MCF_mcopy data data_opt data_size (MCF_mzero thrd request m) = Some m'"
    "block m' data (unat data_size) = block m data_opt (unat data_size)"
    "\<forall>a. outside thrd (unat request) a \<longrightarrow> m' a = m a"
    by (elim exE conjE) (rule that)
  define m'' where "m'' = (if data_opt \<noteq> 0 then m' else MCF_mzero thrd request m)"
  have "MCF_thread_p_new proc al data_opt data_size alloc create m =
      Some (case create of Inl err \<Rightarrow> Inl err | Inr (handle, tid) \<Rightarrow> Inr (thrd, thread_zero\<lparr>th_nref := 2, th_tid := tid,
        th_handle := handle, th_proc := proc, th_data_opt := data, th_init_done := 1\<rparr>, m'', kept))"
    using assms(1-5) n(1,2,8) request(2)
    by (auto simp: MCF_thread_p_new_def Let_def need_def[symmetric] k(1) req[symmetric] m''_def
        MCF_THREAD_MAX_DATA_ALIGNMENT_def not_less split: sum.splits)
  moreover have "block m'' data (unat data_size) =
      (if data_opt \<noteq> 0 then block m data_opt (unat data_size) else replicate (unat data_size) 0)"
    using n(7,9) by (simp add: m''_def)
  moreover have "\<forall>a. outside thrd (unat request) a \<longrightarrow> m'' a = m a"
    using n(10) mzero_fills(2)[of thrd request] by (simp add: m''_def)
  ultimately show ?thesis
    using n(3-6) k(1) unfolding MCF_THREAD_DATA_ALIGNMENT_def by metis
qed

text \<open>C17. Creating a thread either fails, with the error that belongs to the argument, to the
  memory or to the system, or gives a structure with two references whose block holds the
  control structure and then the user-defined data: these start at a multiple of the greater of 16
  and the requested alignment, end where the block that is kept ends, and are a copy of the
  source or zeroes. Nothing outside the block that was requested is written, no assertion fails,
  and no size overflows.\<close>

theorem thread_new_layout:
  fixes proc al data_opt data_size request :: uptr
  assumes "fresh_block alloc data_opt data_size"
  defines "request \<equiv> 1600 + data_size + (if data_size \<noteq> 0 then MCF_maxz 16 al - 16 else 0)"
  shows "case MCF_thread_p_new proc al data_opt data_size alloc create m of
      None \<Rightarrow> False
    | Some (Inl err) \<Rightarrow>
        err = 87 \<and> (proc = 0 \<or> al AND (al - 1) \<noteq> 0) \<or> err = 50 \<and> 0x200000 < al \<or>
        err = 534 \<and> 0x7E00000 < data_size \<or> err = 8 \<and> alloc request = None \<or> create = Inl err
    | Some (Inr (thrd, t, m', kept)) \<Rightarrow>
        proc \<noteq> 0 \<and> al AND (al - 1) = 0 \<and> al \<le> 0x200000 \<and> data_size \<le> 0x7E00000 \<and>
        create = Inr (th_handle t, th_tid t) \<and> th_nref t = 2 \<and> th_proc t = proc \<and>
        alloc request = Some thrd \<and> unat kept \<le> unat request \<and>
        (\<forall>a. outside thrd (unat request) a \<longrightarrow> m' a = m a) \<and>
        (if data_size = 0 then th_data_opt t = 0
         else th_data_opt t mod MCF_maxz 16 al = 0 \<and> unat thrd + 1600 \<le> unat (th_data_opt t) \<and>
           unat (th_data_opt t) + unat data_size = unat thrd + unat kept \<and>
           block m' (th_data_opt t) (unat data_size) =
             (if data_opt \<noteq> 0 then block m data_opt (unat data_size) else replicate (unat data_size) 0))"
proof (cases "proc = 0 \<or> al AND (al - 1) \<noteq> 0 \<or> 0x200000 < al \<or> 0x7E00000 < data_size")
  case True
  then show ?thesis by (auto simp: MCF_thread_p_new_def MCF_THREAD_MAX_DATA_ALIGNMENT_def)
next
  case False
  then have ok: "proc \<noteq> 0" "al AND (al - 1) = 0" "al \<le> MCF_THREAD_MAX_DATA_ALIGNMENT" "data_size \<le> 0x7E00000"
    by (auto simp: MCF_THREAD_MAX_DATA_ALIGNMENT_def)
  show ?thesis
  proof (cases "data_size = 0")
    case True
    then show ?thesis
      using ok mzero_fills(2)
      by (auto simp: MCF_thread_p_new_def MCF_THREAD_MAX_DATA_ALIGNMENT_def not_less thread_zero_def request_def
          sizeof_thread_base_def split: option.splits sum.splits)
  next
    case False
    have req: "request = 1600 + data_size + (MCF_maxz 16 al - 16)" using False by (simp add: request_def)
    show ?thesis
    proof (cases "alloc request")
      case None
      obtain k where k: "MCF_maxz MCF_THREAD_DATA_ALIGNMENT al = 2 ^ k" "4 \<le> k" "k \<le> 21"
        using real_alignment[OF ok(2,3)] by blast
      have "sizeof_thread_base + data_size \<le> request"
        by (rule new_data_size(5)[OF refl k(2,3) ok(4) refl])
          (use k(1) in \<open>simp add: req sizeof_thread_base_def MCF_THREAD_DATA_ALIGNMENT_def\<close>)
      then show ?thesis using None ok False
        by (auto simp: MCF_thread_p_new_def Let_def MCF_THREAD_MAX_DATA_ALIGNMENT_def MCF_THREAD_DATA_ALIGNMENT_def
            sizeof_thread_base_def req not_less)
    next
      case (Some thrd)
      obtain data kept m' where new: "MCF_thread_p_new proc al data_opt data_size alloc create m =
          Some (case create of Inl err \<Rightarrow> Inl err | Inr (handle, tid) \<Rightarrow> Inr (thrd, thread_zero\<lparr>th_nref := 2, th_tid := tid,
            th_handle := handle, th_proc := proc, th_data_opt := data, th_init_done := 1\<rparr>, m', kept))"
        "data mod MCF_maxz 16 al = 0 \<and> unat thrd + 1600 \<le> unat data \<and> unat data + unat data_size = unat thrd + unat kept \<and>
          unat kept \<le> unat request \<and>
          block m' data (unat data_size) = (if data_opt \<noteq> 0 then block m data_opt (unat data_size) else replicate (unat data_size) 0) \<and>
          (\<forall>a. outside thrd (unat request) a \<longrightarrow> m' a = m a)"
        using new_thread_some[OF ok(1-3) False ok(4) req Some assms(1), of create m] by (elim exE) (erule conjE, rule that)
      show ?thesis unfolding new(1)
        using new(2) ok Some False by (cases create) (simp_all add: thread_zero_def MCF_THREAD_MAX_DATA_ALIGNMENT_def split: prod.splits)
    qed
  qed
qed

definition sample_alloc :: "uptr \<Rightarrow> uptr option" where
  "sample_alloc n = (if n \<le> 0x10000 then Some 0x30000 else None)"

theorem thread_new_layout_witness:
  "case MCF_thread_p_new 5 64 0x100000 40 sample_alloc (Inr (9, 3)) (\<lambda>a. of_bool (a \<noteq> 0x30640)) of
      Some (Inr (thrd, t, m', kept)) \<Rightarrow>
        thrd = 0x30000 \<and> th_data_opt t mod 64 = 0 \<and> unat (th_data_opt t) + 40 = 0x30000 + unat kept \<and> unat kept \<le> 1688 \<and>
        block m' (th_data_opt t) 40 = block (\<lambda>a. of_bool (a \<noteq> 0x30640)) 0x100000 40
    | _ \<Rightarrow> False"
proof -
  have "outside 0x30000 (unat n) (0x100000 + of_nat k)" if "n \<le> 0x10000" "k < 40" for n :: uptr and k
  proof (rule outside_far)
    have "unat (0x100000 + of_nat k - 0x30000 :: uptr) = 0xD0000 + k" using that(2) by (simp add: unat_word_ariths unat_of_nat)
    then show "unat n \<le> unat (0x100000 + of_nat k - 0x30000 :: uptr)" using that(1) by (simp add: word_le_nat_alt)
  qed
  then have "fresh_block sample_alloc 0x100000 40"
    by (auto simp: fresh_block_def sample_alloc_def word_le_nat_alt)
  have "MCF_maxz 16 64 = (64 :: uptr)" "(1640 :: uptr) + (64 - 16) = 1688" by (simp_all add: MCF_maxz_def)
  with thread_new_layout[OF \<open>fresh_block sample_alloc 0x100000 40\<close>, of 5 64 "Inr (9, 3)" "\<lambda>a. of_bool (a \<noteq> 0x30640)"]
  show ?thesis
    by (auto simp: sample_alloc_def split: option.splits sum.splits prod.splits)
qed

end
