(* ===== verification/Thread_Exit.thy ===== *)
theory Thread_Exit
  imports Mcf_Thread
begin

text \<open>
  What runs when a thread ends: \<open>__MCF_gthread_on_thread_exit\<close> with destructors that act on the
  rest of the world alone. The queue of a thread meets the contract of a list of callbacks, and
  emptying the table of thread-local values is an induction on the number of live values.
\<close>

definition quiet_call :: "(uptr \<Rightarrow> uptr \<Rightarrow> 'w \<Rightarrow> 'w) \<Rightarrow> 'w dtor_call" where
  "quiet_call act f this s = s\<lparr>rt_world := act f this (rt_world s)\<rparr>"

section \<open>The callbacks of the thread\<close>

definition self_good :: "uptr \<Rightarrow> 'w runtime \<Rightarrow> bool" where
  "self_good self s \<longleftrightarrow> (\<exists>t. rt_threads s self = Some t \<and> dq_ok (th_atexit_queue t))"

definition self_callbacks :: "uptr \<Rightarrow> 'w runtime \<Rightarrow> dtor_element list" where
  "self_callbacks self s = callbacks (th_atexit_queue (the (rt_threads s self)))"

definition without_queue :: "uptr \<Rightarrow> 'w runtime \<Rightarrow> 'w runtime" where
  "without_queue self s =
     s\<lparr>rt_threads := (rt_threads s)(self := map_option (\<lambda>t. t\<lparr>th_atexit_queue := dtor_queue_zero\<rparr>) (rt_threads s self))\<rparr>"

lemma pop_all_none: "fst (dtor_queue_pop_common 0 q) = None \<Longrightarrow> dq_prev (snd (dtor_queue_pop_common 0 q)) = None"
proof (induction q)
  case (Dtor_queue prev sz data)
  then show ?case by (cases prev) (auto simp: dtor_queue_pop_common.simps Let_def split: if_splits)
qed

lemma pop_self_result:
  assumes "rt_threads s self = Some t"
  shows "pop_self_atexit self s =
     (case dtor_queue_pop_common 0 (th_atexit_queue t) of (r, q) \<Rightarrow>
        Some (r, s\<lparr>rt_threads := (rt_threads s)(self \<mapsto> t\<lparr>th_atexit_queue := q\<rparr>)\<rparr>))"
  using assms by (cases "dtor_queue_pop_common 0 (th_atexit_queue t)")
    (auto simp: pop_self_atexit_def MCF_dtor_queue_pop_def do_pop_element_common_def split: option.splits)

lemma drain_last: "drain pop call s = Some s' \<Longrightarrow> \<exists>s0. pop s0 = Some (None, s')"
  by (rule drain.raw_induct[of "\<lambda>pop call s s'. \<exists>s0. pop s0 = Some (None, s')"])
    (auto split: option.splits prod.splits)

interpretation self_list: quiet_dtors "pop_self_atexit self" "self_callbacks self" "self_good self"
    "without_queue self" 0 "\<lambda>e. quiet_call act (dtor_fn e) (dtor_this e)"
    "\<lambda>e. quiet_call act (dtor_fn e) (dtor_this e)" for self and act :: "uptr \<Rightarrow> uptr \<Rightarrow> 'w \<Rightarrow> 'w"
proof unfold_locales
  fix s :: "'w runtime"
  assume "self_good self s"
  then obtain t where t: "rt_threads s self = Some t" "dq_ok (th_atexit_queue t)"
    by (auto simp: self_good_def)
  from pop_refines[OF t(2), of 0] show "\<exists>r s'. pop_self_atexit self s = Some (r, s') \<and> self_good self s' \<and>
      without_queue self s' = without_queue self s \<and>
      take_newest 0 (self_callbacks self s) = (r, self_callbacks self s')"
    by (cases "dtor_queue_pop_common 0 (th_atexit_queue t)")
      (simp add: pop_self_result[OF t(1)] self_good_def self_callbacks_def without_queue_def t)
qed (auto simp: quiet_call_def self_good_def self_callbacks_def without_queue_def)

lemma fold_quiet_call:
  "fold (\<lambda>e. quiet_call act (f e) (g e)) xs s = s\<lparr>rt_world := fold (\<lambda>e. act (f e) (g e)) xs (rt_world s)\<rparr>"
  by (induction xs arbitrary: s) (simp_all add: quiet_call_def)

lemma same_but_queue:
  assumes w: "without_queue self s' = (without_queue self s)\<lparr>rt_world := w\<rparr>"
    and t: "Some t' = rt_threads s' self" "Some t = rt_threads s self"
  shows "s' = s\<lparr>rt_threads := (rt_threads s)(self \<mapsto> t\<lparr>th_atexit_queue := th_atexit_queue t'\<rparr>), rt_world := w\<rparr>"
proof -
  from arg_cong[OF w, of "\<lambda>s. rt_threads s self"] t
  have t': "t' = t\<lparr>th_atexit_queue := th_atexit_queue t'\<rparr>"
    by (cases t, cases t') (simp add: without_queue_def t[symmetric])
  have "rt_threads s' k = ((rt_threads s)(self \<mapsto> t')) k" for k
    using arg_cong[OF w, of "\<lambda>s. rt_threads s k"] t(1) by (cases "k = self") (auto simp: without_queue_def)
  then have "rt_threads s' = (rt_threads s)(self \<mapsto> t')" by blast
  with w t' show ?thesis by (cases s, cases s') (simp add: without_queue_def)
qed

lemma self_callbacks_run:
  assumes t: "rt_threads s self = Some t" "dq_ok (th_atexit_queue t)"
  shows "\<exists>q. dq_prev q = None \<and> drain (pop_self_atexit self) (\<lambda>e. quiet_call act (dtor_fn e) (dtor_this e)) s =
    Some (s\<lparr>rt_threads := (rt_threads s)(self \<mapsto> t\<lparr>th_atexit_queue := q\<rparr>),
            rt_world := fold (\<lambda>e. act (dtor_fn e) (dtor_this e)) (rev (callbacks (th_atexit_queue t))) (rt_world s)\<rparr>)"
proof -
  have "self_good self s" using t by (simp add: self_good_def)
  from self_list.drain_order[OF this, of act] obtain s' where
    d: "drain (pop_self_atexit self) (\<lambda>e. quiet_call act (dtor_fn e) (dtor_this e)) s = Some s'" "self_good self s'"
    "without_queue self s' = fold (\<lambda>e. quiet_call act (dtor_fn e) (dtor_this e))
       (rev (filter (belongs 0) (self_callbacks self s))) (without_queue self s)" by blast
  obtain t' where t': "rt_threads s' self = Some t'" using d(2) by (auto simp: self_good_def)
  from drain_last[OF d(1)] obtain s0 where s0: "pop_self_atexit self s0 = Some (None, s')" by blast
  then obtain t0 where "rt_threads s0 self = Some t0" by (auto simp: pop_self_atexit_def bind_eq_Some_conv)
  from s0[unfolded pop_self_result[OF this]] t' have "dq_prev (th_atexit_queue t') = None"
    using pop_all_none[of "th_atexit_queue t0"] by (auto split: prod.splits)
  moreover have "filter (belongs 0) xs = xs" for xs by (simp add: belongs_def)
  with d(3) have w: "without_queue self s' = (without_queue self s)
      \<lparr>rt_world := fold (\<lambda>e. act (dtor_fn e) (dtor_this e)) (rev (callbacks (th_atexit_queue t))) (rt_world s)\<rparr>"
    using t by (simp add: fold_quiet_call self_callbacks_def) (simp add: without_queue_def)
  have "s' = s\<lparr>rt_threads := (rt_threads s)(self \<mapsto> t\<lparr>th_atexit_queue := th_atexit_queue t'\<rparr>),
      rt_world := fold (\<lambda>e. act (dtor_fn e) (dtor_this e)) (rev (callbacks (th_atexit_queue t))) (rt_world s)\<rparr>"
    by (rule same_but_queue[OF w t'[symmetric] t(1)[symmetric]])
  ultimately show ?thesis using d(1) by blast
qed

section \<open>The thread-local values\<close>

definition pending :: "tls_table \<Rightarrow> key_heap \<Rightarrow> uptr set" where
  "pending t h = {k. k \<noteq> 0 \<and> key_is_deleted h k = Some False \<and> tls_lookup t k \<noteq> 0}"

definition run_dtors :: "(uptr \<Rightarrow> uptr \<Rightarrow> 'w \<Rightarrow> 'w) \<Rightarrow> key_heap \<Rightarrow> (uptr \<Rightarrow> uptr) \<Rightarrow> uptr list \<Rightarrow> 'w \<Rightarrow> 'w" where
  "run_dtors act h value ks =
     fold (\<lambda>k w. if key_dtor (the (h k)) \<noteq> 0 then act (key_dtor (the (h k))) (value k) w else w) ks"

lemma nothing_pending:
  assumes "tls_ok t" "live_values t h = 0"
  shows "pending t h = {}"
proof -
  have dead: "\<not> (is_live h e \<and> te_value e \<noteq> 0)" if "e \<in> set (tt_elems t)" for e
    using assms(2) that by (auto simp: live_values_def)
  have "tls_lookup t k = 0" if k: "k \<noteq> 0" "key_is_deleted h k = Some False" for k
  proof (cases "k \<in> tls_keys (tt_elems t)")
    case True
    then obtain e where "e \<in> set (tt_elems t)" "te_key e = k" by (auto simp: tls_keys_def)
    with dead[of e] k have "(k, 0) \<in> entries (tt_elems t)" by (auto simp: is_live_def entries_def)
    with assms(1) show ?thesis by (auto simp: tls_ok_def intro: lookup_entry)
  next
    case False
    with assms(1) k(1) show ?thesis by (auto simp: tls_ok_def intro: lookup_absent)
  qed
  then show ?thesis by (auto simp: pending_def)
qed

lemma tls_drain_quiet:
  assumes "tls_ok (th_tls_table t)" "tls_alive (tls_keys (tt_elems (th_tls_table t))) (rt_keys s)"
    and "rt_threads s self = Some t"
  shows "\<exists>ks h'. distinct ks \<and> set ks = pending (th_tls_table t) (rt_keys s) \<and>
    (\<forall>k. outer_refs tls_table_zero h' k = outer_refs (th_tls_table t) (rt_keys s) k) \<and>
    tls_drain (quiet_call act) self hint s =
      Some (s\<lparr>rt_threads := (rt_threads s)(self \<mapsto> t\<lparr>th_tls_table := tls_table_zero\<rparr>), rt_keys := h',
              rt_world := run_dtors act (rt_keys s) (tls_lookup (th_tls_table t)) ks (rt_world s)\<rparr>)"
  using assms
proof (induction "live_values (th_tls_table t) (rt_keys s)" arbitrary: s t hint rule: less_induct)
  case less
  define table h where "table = th_tls_table t" and "h = rt_keys s"
  note pop = pop_result[OF less(2,3), of "Some hint", folded table_def h_def]
  then obtain err elem t' h' where
    p: "MCF_tls_table_pop (Some hint) table h = Some (err, elem, t', h')" by (auto split: option.splits)
  show ?case
  proof (cases elem)
    case None
    with pop p have n: "err = - 1" "t' = tls_table_zero" "live_values table h = 0"
      "\<forall>k. outer_refs t' h' k = outer_refs table h k" by auto
    with less(2) have "pending table h = {}" by (simp add: nothing_pending table_def)
    with n p less(4) show ?thesis
      by (intro exI[of _ "[]"] exI[of _ h']) (subst tls_drain.simps, simp add: run_dtors_def table_def h_def)
  next
    case (Some q)
    let ?k = "pe_key q"
    from pop p Some have e: "err = 0" "h' = h" "tls_ok t'" "tls_alive (tls_keys (tt_elems t')) h"
      "\<And>k. outer_refs t' h k = outer_refs table h k" "pe_value q \<noteq> 0" "?k \<noteq> 0" "key_is_deleted h ?k = Some False"
      "tls_lookup table ?k = pe_value q" "tls_lookup t' ?k = 0" "\<And>k. k \<noteq> ?k \<Longrightarrow> tls_lookup t' k = tls_lookup table k"
      "live_values table h = Suc (live_values t' h)" by auto
    obtain r where r: "h ?k = Some r" using e(8) by (auto simp: key_is_deleted_def)
    define s' where "s' = s\<lparr>rt_threads := (rt_threads s)(self \<mapsto> t\<lparr>th_tls_table := t'\<rparr>), rt_keys := h\<rparr>"
    define s2 where "s2 = (if key_dtor r \<noteq> 0 then quiet_call act (key_dtor r) (pe_value q) s' else s')"
    have s2: "rt_threads s2 self = Some (t\<lparr>th_tls_table := t'\<rparr>)" "rt_keys s2 = h"
      by (simp_all add: s2_def s'_def quiet_call_def)
    have "\<exists>ks h'. distinct ks \<and> set ks = pending t' h \<and>
        (\<forall>k. outer_refs tls_table_zero h' k = outer_refs t' h k) \<and>
        tls_drain (quiet_call act) self (pe_hint q) s2 =
          Some (s2\<lparr>rt_threads := (rt_threads s2)(self \<mapsto> t\<lparr>th_tls_table := tls_table_zero\<rparr>), rt_keys := h',
                  rt_world := run_dtors act h (tls_lookup t') ks (rt_world s2)\<rparr>)"
      using less(1)[of "t\<lparr>th_tls_table := t'\<rparr>" s2 "pe_hint q"] e s2 by (simp add: table_def h_def)
    then obtain ks h2 where ih: "distinct ks" "set ks = pending t' h"
        "\<forall>k. outer_refs tls_table_zero h2 k = outer_refs t' h k"
        "tls_drain (quiet_call act) self (pe_hint q) s2 =
          Some (s2\<lparr>rt_threads := (rt_threads s2)(self \<mapsto> t\<lparr>th_tls_table := tls_table_zero\<rparr>), rt_keys := h2,
                  rt_world := run_dtors act h (tls_lookup t') ks (rt_world s2)\<rparr>)" by blast
    have here: "?k \<notin> set ks" "set (?k # ks) = pending table h"
    proof -
      show nk: "?k \<notin> set ks" using e(10) ih(2) by (simp add: pending_def)
      have "k \<in> pending t' h \<longleftrightarrow> k \<in> pending table h" if "k \<noteq> ?k" for k
        using e(11)[OF that] by (simp add: pending_def)
      moreover have "?k \<in> pending table h" using e(6-9) by (simp add: pending_def)
      ultimately show "set (?k # ks) = pending table h" using ih(2) nk by (auto; metis)
    qed
    then have "tls_lookup t' k = tls_lookup table k" if "k \<in> set ks" for k
      using that e(11)[of k] by metis
    then have "run_dtors act h (tls_lookup t') ks = run_dtors act h (tls_lookup table) ks"
      unfolding run_dtors_def by (intro ext fold_cong) simp_all
    then have w: "run_dtors act h (tls_lookup t') ks (rt_world s2) = run_dtors act h (tls_lookup table) (?k # ks) (rt_world s)"
      using r e(9) by (simp add: run_dtors_def s2_def s'_def quiet_call_def)
    have "tls_drain (quiet_call act) self hint s = tls_drain (quiet_call act) self (pe_hint q) s2"
      using p Some r e(1,2) less(4)
      by (subst tls_drain.simps) (simp add: s2_def s'_def table_def h_def Let_def)
    also have "\<dots> = Some (s\<lparr>rt_threads := (rt_threads s)(self \<mapsto> t\<lparr>th_tls_table := tls_table_zero\<rparr>), rt_keys := h2,
              rt_world := run_dtors act h (tls_lookup table) (?k # ks) (rt_world s)\<rparr>)"
      unfolding ih(4) w by (simp add: s2_def s'_def quiet_call_def)
    finally show ?thesis
      using ih(1,3) here e(5) unfolding table_def h_def
      by (intro exI[of _ "?k # ks"] exI[of _ h2]) simp
  qed
qed

section \<open>The whole\<close>

text \<open>A thread that has run nothing of its end yet.\<close>

definition thread_ready :: "'w runtime \<Rightarrow> mcf_thread \<Rightarrow> bool" where
  "thread_ready s t \<longleftrightarrow>
     rt_slot s \<noteq> 0 \<and> rt_slot s \<noteq> MCF_BAD_PTR \<and> rt_threads s (rt_slot s) = Some t \<and> 0 <s th_nref t \<and>
     dq_ok (th_atexit_queue t) \<and> tls_ok (th_tls_table t) \<and>
     tls_alive (tls_keys (tt_elems (th_tls_table t))) (rt_keys s) \<and>
     (rt_oom s = Some (rt_slot s) \<longrightarrow> mtx_locked (rt_oom_mtx s) = 1)"

lemma drop_last_ref:
  assumes "rt_threads s self = Some t" "0 <s th_nref t" "dq_prev (th_atexit_queue t) = None"
    "tt_elems (th_tls_table t) = []" "rt_oom s = Some self \<longrightarrow> mtx_locked (rt_oom_mtx s) = 1"
  shows "\<exists>s'. MCF_thread_drop_ref_nonnull self s = Some s' \<and>
    rt_threads s' = (rt_threads s)(self :=
      (if th_nref t \<noteq> 1 \<or> self = rt_main s then Some (t\<lparr>th_nref := th_nref t - 1\<rparr>)
       else if rt_oom s = Some self then Some thread_zero else None)) \<and>
    rt_slot s' = rt_slot s \<and> rt_keys s' = rt_keys s \<and> rt_world s' = rt_world s"
proof -
  have "\<exists>m. unlock_alone (rt_oom_mtx s) = Some m" if "rt_oom s = Some self"
    using that assms(5) by (simp add: unlock_alone_def mutex_unlock_try_def Let_def)
  with assms show ?thesis by (auto simp: MCF_thread_drop_ref_nonnull_def Let_def)
qed

text \<open>C16. A thread that ends runs each callback that it has registered, newest first, and then the
  destructor of each key that has one and for which it has a value, once, with that value; it
  then gives up the references of its table to the keys, marks its slot so that a second call
  does nothing, and drops one reference to its structure, which is freed if it was the last.
  This is for callbacks and destructors that register and set nothing; no assertion fails.\<close>

theorem thread_exit_runs_all:
  assumes "thread_ready s t"
  defines "table \<equiv> th_tls_table t" and "keys \<equiv> rt_keys s" and "self \<equiv> rt_slot s"
  shows "\<exists>ks s'. MCF_gthread_on_thread_exit (quiet_call act) hint s = Some s' \<and>
    distinct ks \<and> set ks = {k. k \<noteq> 0 \<and> key_is_deleted keys k = Some False \<and> tls_lookup table k \<noteq> 0} \<and>
    rt_world s' =
      fold (\<lambda>k w. if key_dtor (the (keys k)) \<noteq> 0 then act (key_dtor (the (keys k))) (tls_lookup table k) w else w) ks
        (fold (\<lambda>e. act (dtor_fn e) (dtor_this e)) (rev (callbacks (th_atexit_queue t))) (rt_world s)) \<and>
    (\<forall>k. key_refs (rt_keys s') k = key_refs keys k - of_bool (k \<in> tls_keys (tt_elems table))) \<and>
    rt_slot s' = MCF_BAD_PTR \<and> MCF_gthread_on_thread_exit (quiet_call act) hint s' = Some s' \<and>
    (if th_nref t \<noteq> 1 \<or> self = rt_main s then map_option th_nref (rt_threads s' self) = Some (th_nref t - 1)
     else rt_threads s' self = (if rt_oom s = Some self then Some thread_zero else None))"
proof -
  note ok = assms(1)[unfolded thread_ready_def, folded self_def]
  obtain q where q: "dq_prev q = None"
    "drain (pop_self_atexit self) (\<lambda>e. quiet_call act (dtor_fn e) (dtor_this e)) s =
    Some (s\<lparr>rt_threads := (rt_threads s)(self \<mapsto> t\<lparr>th_atexit_queue := q\<rparr>),
            rt_world := fold (\<lambda>e. act (dtor_fn e) (dtor_this e)) (rev (callbacks (th_atexit_queue t))) (rt_world s)\<rparr>)"
    using self_callbacks_run[of s self t act] ok by blast
  define s1 where "s1 = s\<lparr>rt_threads := (rt_threads s)(self \<mapsto> t\<lparr>th_atexit_queue := q\<rparr>),
            rt_world := fold (\<lambda>e. act (dtor_fn e) (dtor_this e)) (rev (callbacks (th_atexit_queue t))) (rt_world s)\<rparr>"
  obtain ks h' where k: "distinct ks" "set ks = pending table keys"
    "\<forall>k. outer_refs tls_table_zero h' k = outer_refs table keys k"
    "tls_drain (quiet_call act) self hint s1 =
      Some (s1\<lparr>rt_threads := (rt_threads s1)(self \<mapsto> t\<lparr>th_atexit_queue := q, th_tls_table := tls_table_zero\<rparr>), rt_keys := h',
              rt_world := run_dtors act keys (tls_lookup table) ks (rt_world s1)\<rparr>)"
    using tls_drain_quiet[of "t\<lparr>th_atexit_queue := q\<rparr>" s1 self act hint] ok
    by (auto simp: s1_def table_def keys_def)
  define s2 where "s2 = s1\<lparr>rt_threads := (rt_threads s1)(self \<mapsto> t\<lparr>th_atexit_queue := q, th_tls_table := tls_table_zero\<rparr>),
      rt_keys := h', rt_world := run_dtors act keys (tls_lookup table) ks (rt_world s1), rt_slot := MCF_BAD_PTR\<rparr>"
  obtain s' where d: "MCF_thread_drop_ref_nonnull self s2 = Some s'"
    "rt_threads s' self = (if th_nref t \<noteq> 1 \<or> self = rt_main s
       then Some (t\<lparr>th_atexit_queue := q, th_tls_table := tls_table_zero, th_nref := th_nref t - 1\<rparr>)
       else if rt_oom s = Some self then Some thread_zero else None)"
    "rt_slot s' = MCF_BAD_PTR" "rt_keys s' = h'" "rt_world s' = run_dtors act keys (tls_lookup table) ks (rt_world s1)"
    using drop_last_ref[of s2 self "t\<lparr>th_atexit_queue := q, th_tls_table := tls_table_zero\<rparr>"] ok q(1)
    by (auto simp: s2_def s1_def tls_table_zero_def)
  have run: "MCF_gthread_on_thread_exit (quiet_call act) hint s = Some s'"
    using ok q(2) k(4) d(1) by (simp add: MCF_gthread_on_thread_exit_def Let_def self_def s1_def s2_def)
  have again: "MCF_gthread_on_thread_exit (quiet_call act) hint s' = Some s'"
    using d(3) by (simp add: MCF_gthread_on_thread_exit_def Let_def)
  show ?thesis
    using run again k(1,2,3) d(2-5)
    by (intro exI[of _ ks] exI[of _ s'])
      (simp add: pending_def run_dtors_def s1_def outer_refs_def tls_table_zero_def tls_keys_def)
qed

definition sample_thread :: mcf_thread where
  "sample_thread = thread_zero\<lparr>th_nref := 1, th_tid := 3, th_atexit_queue := sample_queue, th_tls_table := one_value\<rparr>"

definition sample_runtime :: "(uptr \<times> uptr) list runtime" where
  "sample_runtime = \<lparr>rt_threads = [0x1000 \<mapsto> sample_thread], rt_main = 0x2000, rt_oom = None,
     rt_oom_mtx = MCF_mutex_init, rt_slot = 0x1000,
     rt_keys = [64 \<mapsto> \<lparr>key_nref = 1, key_deleted = False, key_dtor = 9\<rparr>], rt_world = []\<rparr>"

definition log_dtor :: "uptr \<Rightarrow> uptr \<Rightarrow> (uptr \<times> uptr) list \<Rightarrow> (uptr \<times> uptr) list" where
  "log_dtor f this w = w @ [(f, this)]"

lemma sample_runtime_ready: "thread_ready sample_runtime sample_thread"
  using one_value_ok sample_queue_ok
  by (auto simp: thread_ready_def sample_runtime_def sample_thread_def MCF_BAD_PTR_def word_sless_alt
      tls_alive_def one_key_def split: if_splits)

theorem thread_exit_runs_all_witness:
  "\<exists>s'. MCF_gthread_on_thread_exit (quiet_call log_dtor) 0 sample_runtime = Some s' \<and>
    rt_world s' = [(3, 0), (2, 0), (1, 0), (9, 5)] \<and> rt_threads s' 0x1000 = None \<and> key_refs (rt_keys s') 64 = 0"
proof -
  have keys: "key_is_deleted (rt_keys sample_runtime) k = Some False \<longleftrightarrow> k = 64" for k
    by (simp add: key_is_deleted_def sample_runtime_def)
  have five: "tls_lookup (th_tls_table sample_thread) 64 = 5"
    by (simp add: sample_thread_def tls_lookup_def slot_def one_value_def probe_order_def tls_origin_def empty_element_def)
  have ks: "ks = [64]" if "distinct ks" "set ks = {64 :: uptr}" for ks
    using that by (cases ks; cases "tl ks") auto
  have cb: "callbacks (th_atexit_queue sample_thread) = [sample_element 1 7, sample_element 2 8, sample_element 3 8]"
    by (simp add: sample_thread_def sample_queue_def MCF_dtor_queue_push_def MCF_dtor_queue_reserve_and_push_def
      dtor_queue_zero_def dq_capacity_def sample_element_def)
      (simp add: take_Suc_conv_app_nth numeral_2_eq_2)
  have set64: "{k :: uptr. k \<noteq> 0 \<and> k = 64 \<and> tls_lookup (th_tls_table sample_thread) k \<noteq> 0} = {64}"
    using five by auto
  obtain ks s' where r: "MCF_gthread_on_thread_exit (quiet_call log_dtor) 0 sample_runtime = Some s'"
    "distinct ks" "set ks = {64}"
    "rt_world s' = fold (\<lambda>k w. if key_dtor (the (rt_keys sample_runtime k)) \<noteq> 0
        then log_dtor (key_dtor (the (rt_keys sample_runtime k))) (tls_lookup (th_tls_table sample_thread) k) w else w) ks
        (fold (\<lambda>e. log_dtor (dtor_fn e) (dtor_this e)) (rev (callbacks (th_atexit_queue sample_thread))) (rt_world sample_runtime))"
    "\<forall>k. key_refs (rt_keys s') k = key_refs (rt_keys sample_runtime) k - of_bool (k \<in> tls_keys (tt_elems (th_tls_table sample_thread)))"
    "if th_nref sample_thread \<noteq> 1 \<or> rt_slot sample_runtime = rt_main sample_runtime
     then map_option th_nref (rt_threads s' (rt_slot sample_runtime)) = Some (th_nref sample_thread - 1)
     else rt_threads s' (rt_slot sample_runtime) = (if rt_oom sample_runtime = Some (rt_slot sample_runtime) then Some thread_zero else None)"
    using thread_exit_runs_all[OF sample_runtime_ready, of log_dtor 0, unfolded keys set64] by blast
  have "64 \<in> tls_keys (tt_elems (th_tls_table sample_thread))"
    by (auto simp: tls_keys_def sample_thread_def one_value_def
        intro!: exI[of _ "\<lparr>te_key = 64, te_value = 5\<rparr>"])
  then have "key_refs (rt_keys s') 64 = 0" using r(5) by (simp add: key_refs_def sample_runtime_def)
  moreover have "rt_world s' = [(3, 0), (2, 0), (1, 0), (9, 5)]"
    using r(4) five unfolding ks[OF r(2,3)] cb by (simp add: sample_runtime_def log_dtor_def sample_element_def)
  moreover have "rt_threads s' 0x1000 = None" using r(6) by (simp add: sample_runtime_def sample_thread_def)
  ultimately show ?thesis using r(1) by blast
qed

end
