(* ===== verification/Thread_Affinity.thy ===== *)
theory Thread_Affinity
  imports Mcf_Thread
begin

text \<open>
  The affinity of a thread: what \<open>_MCF_thread_set_affinity\<close> passes to the system, read back by
  \<open>_MCF_thread_get_affinity\<close>, gives the selection again, with either interface of the system.
\<close>

unbundle bit_operations_syntax

abbreviation selected :: "cpu_collection \<Rightarrow> u32 \<Rightarrow> bool" where
  "selected \<equiv> MCF_cpu_collection_get_selection"

section \<open>Selections by index and by identifier\<close>

lemma selected_at:
  assumes ok: "cc_ok coll" and distinct: "distinct (cpu_ids coll)" and i: "i < unat (cc_size coll)"
  shows "selected coll (ce_id (cc_data coll ! i)) = ce_selected (cc_data coll ! i)"
proof -
  have len: "length (cpu_ids coll) = unat (cc_size coll)" using length_cpus[OF ok] by (simp add: cpu_ids_def)
  note ci = nth_cpu_ids[OF ok i]
  with nth_mem[of i "cpu_ids coll"] len i have "ce_id (cc_data coll ! i) \<in> set (cpu_ids coll)" by simp
  with find_cpu_result[OF ok, of "ce_id (cc_data coll ! i)"] obtain j where
    j: "do_find_cpu_opt coll (ce_id (cc_data coll ! i)) = Some j" "j < cc_size coll"
      "cpu_ids coll ! unat j = ce_id (cc_data coll ! i)"
    by (auto split: option.splits)
  then have "cpu_ids coll ! unat j = cpu_ids coll ! i" "unat j < length (cpu_ids coll)"
    using ci len by (simp_all add: word_less_nat_alt)
  then have "unat j = i" using distinct i len by (simp add: nth_eq_iff_index_eq)
  with j show ?thesis by (simp add: MCF_cpu_collection_get_selection_def)
qed

lemma selected_is_cpu: "cc_ok coll \<Longrightarrow> selected coll x \<Longrightarrow> x \<in> set (cpu_ids coll)"
  using find_cpu_result[of coll x] by (auto simp: MCF_cpu_collection_get_selection_def split: option.splits)

lemma select_upto_result:
  "n \<le> unat (cc_size coll) \<Longrightarrow> cc_ok coll \<Longrightarrow>
   cc_size (cpu_select_upto n sel coll) = cc_size coll \<and>
   length (cc_data (cpu_select_upto n sel coll)) = length (cc_data coll) \<and>
   (\<forall>j. ce_id (cc_data (cpu_select_upto n sel coll) ! j) = ce_id (cc_data coll ! j) \<and>
        ce_selected (cc_data (cpu_select_upto n sel coll) ! j) = (if j < n then sel else ce_selected (cc_data coll ! j)))"
proof (induction n)
  case (Suc n)
  have "unat (of_nat n :: u32) = n" using Suc.prems(1) unat_less_bound[of "cc_size coll"] by (simp add: unat_of_nat)
  moreover have "n < length (cc_data coll)" using Suc.prems by (simp add: cc_ok_def)
  ultimately show ?case using Suc by (auto simp: cpu_select_def nth_list_update less_Suc_eq)
qed simp

lemma select_all_result:
  assumes "cc_ok coll"
  shows "cc_ok (MCF_cpu_collection_set_all_selections coll sel)"
    "cpu_ids (MCF_cpu_collection_set_all_selections coll sel) = cpu_ids coll"
    "selected (MCF_cpu_collection_set_all_selections coll sel) x = (sel \<and> x \<in> set (cpu_ids coll))"
proof -
  define c where "c = MCF_cpu_collection_set_all_selections coll sel"
  note r = select_upto_result[OF order_refl assms, of sel, folded MCF_cpu_collection_set_all_selections_def, folded c_def]
  show ids: "cpu_ids c = cpu_ids coll"
    using r by (intro nth_equalityI) (simp_all add: cpu_ids_def cpus_def)
  show "cc_ok c" using assms r ids by (simp add: cc_ok_def)
  have "do_find_cpu_opt c x = do_find_cpu_opt coll x" using r by (intro same_search) simp_all
  with find_cpu_result[OF assms, of x] r show "selected c x = (sel \<and> x \<in> set (cpu_ids coll))"
    by (auto simp: MCF_cpu_collection_get_selection_def word_less_nat_alt split: option.splits)
qed

lemma select_one:
  fixes cid :: u32
  assumes "cc_ok coll"
  defines "c \<equiv> snd (MCF_cpu_collection_set_selection coll cid True)"
  shows "cc_ok c" "cpu_ids c = cpu_ids coll" "selected c x = (x = cid \<and> cid \<in> set (cpu_ids coll) \<or> x \<noteq> cid \<and> selected coll x)"
  using set_selection_result[OF assms(1), of cid True] unfolding c_def by (auto split: prod.splits)

lemma select_ids_result:
  "cc_ok coll \<Longrightarrow> cc_ok (select_ids ids coll) \<and> cpu_ids (select_ids ids coll) = cpu_ids coll \<and>
    (\<forall>x. selected (select_ids ids coll) x = (x \<in> set (cpu_ids coll) \<and> x \<in> set ids \<or> selected coll x))"
proof (induction ids arbitrary: coll)
  case (Cons cid ids)
  from Cons(1)[OF select_one(1)[OF Cons(2), of cid]] select_one[OF Cons(2), of cid] selected_is_cpu[OF Cons(2)]
  show ?case by auto
qed simp

lemma selected_ids_result:
  assumes "cc_ok coll" "distinct (cpu_ids coll)" "set ks \<subseteq> {..<unat (cc_size coll)}"
  shows "set (selected_ids ks coll) = {x. \<exists>k \<in> set ks. x = ce_id (cc_data coll ! k) \<and> selected coll x}"
  using assms(3)
proof (induction ks)
  case (Cons k ks)
  then have k: "k < unat (cc_size coll)" by simp
  then have "unat (of_nat k :: u32) = k" using unat_less_bound[of "cc_size coll"] by (simp add: unat_of_nat)
  with Cons k selected_at[OF assms(1,2) k] show ?case
    by (auto simp: MCF_cpu_collection_get_selection_by_index_def MCF_cpu_collection_get_id_by_index_def
        cpu_at_def word_less_nat_alt)
qed simp

lemma all_selected_ids:
  assumes "cc_ok coll" "distinct (cpu_ids coll)"
  shows "{x. \<exists>k \<in> set [0..<unat (cc_size coll)]. x = ce_id (cc_data coll ! k) \<and> selected coll x} = {x. selected coll x}"
proof -
  have len: "length (cpu_ids coll) = unat (cc_size coll)" using length_cpus[OF assms(1)] by (simp add: cpu_ids_def)
  have "\<exists>k < unat (cc_size coll). x = ce_id (cc_data coll ! k)" if "selected coll x" for x
    using selected_is_cpu[OF assms(1) that] nth_cpu_ids[OF assms(1)] len by (auto simp: in_set_conv_nth)
  then show ?thesis by (auto simp: Bex_def)
qed

section \<open>Masks\<close>

lemma bit_test: "m AND push_bit k 1 \<noteq> 0 \<longleftrightarrow> bit m k" if "k < 64" for m :: uptr
proof -
  have "m AND push_bit k 1 = (if bit m k then push_bit k 1 else 0)"
    by (rule bit_word_eqI) (auto simp: bit_simps)
  moreover have "push_bit k (1 :: uptr) \<noteq> 0" using that by (auto simp: bit_eq_iff bit_simps)
  ultimately show ?thesis by simp
qed

lemma select_mask_result:
  "cc_ok coll \<Longrightarrow> set ks \<subseteq> {..<64} \<Longrightarrow>
    cc_ok (select_mask ks m coll) \<and> cpu_ids (select_mask ks m coll) = cpu_ids coll \<and>
    (\<forall>x. selected (select_mask ks m coll) x =
      (x \<in> set (cpu_ids coll) \<and> (\<exists>k \<in> set ks. bit m k \<and> x = 256 + of_nat k) \<or> selected coll x))"
proof (induction ks arbitrary: coll)
  case (Cons k ks)
  define c where "c = (if bit m k then snd (MCF_cpu_collection_set_selection coll (256 + of_nat k) True) else coll)"
  have c: "cc_ok c" "cpu_ids c = cpu_ids coll"
    "\<And>x. selected c x = (x \<in> set (cpu_ids coll) \<and> bit m k \<and> x = 256 + of_nat k \<or> selected coll x)"
    using select_one[OF Cons(2), of "256 + of_nat k"] Cons(2) selected_is_cpu[OF Cons(2)] by (auto simp: c_def)
  have "select_mask (k # ks) m coll = select_mask ks m c" using Cons(3) bit_test[of k m] by (simp add: c_def)
  with Cons(1)[OF c(1)] Cons(3) c(2,3) show ?case by auto
qed simp

lemma selected_mask_result:
  assumes "cc_ok coll" "distinct (cpu_ids coll)" "set ks \<subseteq> {..<unat (cc_size coll)}"
  shows "bit (selected_mask ks coll m) j \<longleftrightarrow> bit m j \<or>
    j < 64 \<and> (\<exists>k \<in> set ks. selected coll (ce_id (cc_data coll ! k)) \<and> j = unat (ce_id (cc_data coll ! k) - 256))"
  using assms(3)
proof (induction ks arbitrary: m)
  case (Cons k ks)
  then have k: "k < unat (cc_size coll)" by simp
  then have "unat (of_nat k :: u32) = k" using unat_less_bound[of "cc_size coll"] by (simp add: unat_of_nat)
  with Cons k selected_at[OF assms(1,2) k] show ?case
    by (auto simp: MCF_cpu_collection_get_selection_by_index_def MCF_cpu_collection_get_id_by_index_def
        cpu_at_def word_less_nat_alt bit_simps)
qed simp

section \<open>The round trip\<close>

lemma mask_of_selection:
  assumes "cc_ok coll" "distinct (cpu_ids coll)" "\<forall>x \<in> set (cpu_ids coll). 256 \<le> x \<and> x < 320"
  shows "(\<exists>k \<in> set [0..<64]. bit (selected_mask [0..<unat (cc_size coll)] coll 0) k \<and> x = 256 + of_nat k) \<longleftrightarrow> selected coll x"
proof -
  define M where "M = selected_mask [0..<unat (cc_size coll)] coll 0"
  have off: "unat (y - 256) < 64" "256 + of_nat (unat (y - 256)) = y" if "selected coll y" for y
  proof -
    have y: "256 \<le> y" "y < 320" using assms(3) selected_is_cpu[OF assms(1) that] by auto
    then have "unat (y - 256) = unat y - 256" by (simp add: unat_sub)
    then show "unat (y - 256) < 64" using y by (simp add: word_less_nat_alt)
    show "256 + of_nat (unat (y - 256)) = y" by simp
  qed
  have M: "bit M j \<longleftrightarrow> (\<exists>y. selected coll y \<and> j = unat (y - 256))" for j
  proof -
    have "bit M j \<longleftrightarrow> j < 64 \<and> (\<exists>y. y \<in> {x. \<exists>k \<in> set [0..<unat (cc_size coll)]. x = ce_id (cc_data coll ! k) \<and> selected coll x} \<and>
        j = unat (y - 256))"
    proof -
      have "set [0..<unat (cc_size coll)] \<subseteq> {..<unat (cc_size coll)}" by auto
      from selected_mask_result[OF assms(1,2) this, of 0 j] show ?thesis unfolding M_def by auto
    qed
    with off(1) show ?thesis unfolding all_selected_ids[OF assms(1,2)] by auto
  qed
  show ?thesis unfolding M_def[symmetric] M using off by (auto simp: Bex_def; metis)
qed

text \<open>C18. The selection that \<open>_MCF_thread_set_affinity\<close> passes to the system, as identifiers or as a
  mask, is read back unchanged by \<open>_MCF_thread_get_affinity\<close> into any collection of the same
  processors, whatever was selected in it before; and a collection without a selected
  processor is refused by both interfaces with -1, before the system is called.\<close>

theorem affinity_roundtrip:
  assumes "cc_ok coll" "distinct (cpu_ids coll)" "\<forall>x \<in> set (cpu_ids coll). 256 \<le> x \<and> x < 320"
    and "cc_ok old" "cpu_ids old = cpu_ids coll"
  shows "(\<forall>ids. MCF_thread_set_affinity (Set_selected (\<lambda>passed. passed = ids)) (Some coll) = 0 \<longrightarrow>
      (\<exists>c. MCF_thread_get_affinity (Set_ids (Filled ids)) (Some old) = (0, Some c) \<and> cpu_ids c = cpu_ids coll \<and>
        (\<forall>x. MCF_cpu_collection_get_selection c x = MCF_cpu_collection_get_selection coll x))) \<and>
    (\<forall>m. MCF_thread_set_affinity (Set_mask (\<lambda>passed. passed = m)) (Some coll) = 0 \<longrightarrow>
      (\<exists>c. MCF_thread_get_affinity (Group_mask (Filled m)) (Some old) = (0, Some c) \<and> cpu_ids c = cpu_ids coll \<and>
        (\<forall>x. MCF_cpu_collection_get_selection c x = MCF_cpu_collection_get_selection coll x))) \<and>
    (MCF_thread_set_affinity (Set_selected accept) (Some coll) = - 1 \<longleftrightarrow> (\<forall>x. \<not> MCF_cpu_collection_get_selection coll x)) \<and>
    (MCF_thread_set_affinity (Set_mask accept_mask) (Some coll) = - 1 \<longleftrightarrow> (\<forall>x. \<not> MCF_cpu_collection_get_selection coll x))"
proof -
  define I M where "I = selected_ids [0..<unat (cc_size coll)] coll" and "M = selected_mask [0..<unat (cc_size coll)] coll 0"
  have I: "set I = {x. selected coll x}"
  proof -
    have "set [0..<unat (cc_size coll)] \<subseteq> {..<unat (cc_size coll)}" by auto
    from selected_ids_result[OF assms(1,2) this] show ?thesis unfolding I_def all_selected_ids[OF assms(1,2)] .
  qed
  then have I0: "I = [] \<longleftrightarrow> (\<forall>x. \<not> selected coll x)" by (metis empty_Collect_eq set_empty)
  have M: "(\<exists>k \<in> set [0..<64]. bit M k \<and> x = 256 + of_nat k) \<longleftrightarrow> selected coll x" for x
    unfolding M_def by (rule mask_of_selection[OF assms(1-3)])
  have "M = 0 \<longleftrightarrow> (\<forall>k < 64. \<not> bit M k)" by (auto intro: bit_word_eqI)
  with M have M0: "M = 0 \<longleftrightarrow> (\<forall>x. \<not> selected coll x)" by (auto; metis atLeastLessThan_iff le0 set_upt)
  define z where "z = MCF_cpu_collection_set_all_selections old False"
  have z: "cc_ok z" "cpu_ids z = cpu_ids coll" "\<And>x. \<not> selected z x"
    using select_all_result[OF assms(4), of False] assms(5) by (simp_all add: z_def)
  have sub: "set [0..<64] \<subseteq> {..<64 :: nat}" by auto
  have again: "selected (select_ids I z) x = selected coll x" "cpu_ids (select_ids I z) = cpu_ids coll"
      "selected (select_mask [0..<64] M z) x = selected coll x" "cpu_ids (select_mask [0..<64] M z) = cpu_ids coll" for x
    using select_ids_result[OF z(1), of I] select_mask_result[OF z(1) sub, of M] z(2,3) I M selected_is_cpu[OF assms(1)]
    by auto
  note defs = MCF_thread_set_affinity_def MCF_thread_get_affinity_def MCF_cpu_collection_get_size_def Let_def
  show ?thesis
    using I0 M0 again by (auto simp: defs I_def[symmetric] M_def[symmetric] z_def[symmetric])
qed

definition two_cpus :: "bool \<Rightarrow> bool \<Rightarrow> cpu_collection" where
  "two_cpus a b = \<lparr>cc_nref = 1, cc_size = 2, cc_data =
     [zero_element\<lparr>ce_id := 256, ce_selected := a\<rparr>, zero_element\<lparr>ce_id := 258, ce_selected := b\<rparr>]\<rparr>"

theorem affinity_roundtrip_witness:
  "\<exists>c. MCF_thread_get_affinity (Group_mask (Filled 4)) (Some (two_cpus True False)) = (0, Some c) \<and>
     MCF_cpu_collection_get_selection c 258 \<and> \<not> MCF_cpu_collection_get_selection c 256"
proof -
  have ids: "cpu_ids (two_cpus a b) = [256, 258]" for a b
    by (simp add: cpu_ids_def cpus_def two_cpus_def)
  have ok: "cc_ok (two_cpus a b)" for a b using ids[of a b] by (simp add: cc_ok_def) (simp add: two_cpus_def)
  have set: "MCF_thread_set_affinity (Set_mask (\<lambda>passed. passed = 4)) (Some (two_cpus False True)) = 0"
    by (simp add: MCF_thread_set_affinity_def two_cpus_def MCF_cpu_collection_get_size_def Let_def upt_rec[of 0] upt_rec[of "Suc 0"]
        MCF_cpu_collection_get_selection_by_index_def MCF_cpu_collection_get_id_by_index_def cpu_at_def)
  have sel: "MCF_cpu_collection_get_selection (two_cpus False True) 258" "\<not> MCF_cpu_collection_get_selection (two_cpus False True) 256"
    using selected_at[OF ok, of False True 1] selected_at[OF ok, of False True 0]
    by (simp_all add: ids) (simp_all add: two_cpus_def)
  have "\<exists>c. MCF_thread_get_affinity (Group_mask (Filled 4)) (Some (two_cpus True False)) = (0, Some c) \<and>
      cpu_ids c = cpu_ids (two_cpus False True) \<and>
      (\<forall>x. MCF_cpu_collection_get_selection c x = MCF_cpu_collection_get_selection (two_cpus False True) x)"
    using affinity_roundtrip[OF ok _ _ ok, of False True True False] set by (simp add: ids)
  with sel show ?thesis by auto
qed

end
