(* ===== verification/Thread_Sleep.thy ===== *)
theory Thread_Sleep
  imports Mcf_Cond
begin

text \<open>
  \<open>_MCF_sleep\<close> of \<open>src/thread.c\<close>: a wait on the condition variable of the process for interruptions,
  \<open>interrupt_cond\<close>, whose callbacks register a handler for Ctrl-C and remove it. The state of the client is
  the number of times that the handler is registered; whether the system registers it, is
  an argument.
\<close>

type_synonym sleep_mem = "MCF_cond \<times> nat cond_env"

definition do_sleep_interrupt :: "sleep_mem schedule \<Rightarrow> sleep_mem \<Rightarrow> (bool \<times> sleep_mem \<times> sleep_mem schedule) option" where
  "do_sleep_interrupt sch m = map_option (\<lambda>(_, m, sch). (False, m, sch)) (run_signal MCF_cond_signal_all sch m SFast)"

definition do_set_ctrl_c_handler :: "(nat \<Rightarrow> bool) \<Rightarrow> nat unlock_callback" where
  "do_set_ctrl_c_handler accepted handlers = (if accepted handlers then (handlers + 1, 1) else (handlers, 0))"

definition do_remove_ctrl_c_handler :: "nat relock_callback" where
  "do_remove_ctrl_c_handler handlers added = (if added \<noteq> 0 then handlers - 1 else handlers)"

definition MCF_sleep :: "nat \<Rightarrow> (nat \<Rightarrow> bool) \<Rightarrow> i64 option \<Rightarrow> sleep_mem schedule \<Rightarrow> sleep_mem \<Rightarrow>
    (int \<times> sleep_mem \<times> sleep_mem schedule) option" where
  "MCF_sleep tid accepted timeout_opt sch m =
     map_option (\<lambda>(err, m, sch). (err XOR - 1, m, sch))
       (MCF_cond_wait tid (Some (do_set_ctrl_c_handler accepted)) (Some do_remove_ctrl_c_handler) timeout_opt sch m)"

lemma sleep_run:
  assumes run: "run_wait (do_unlock_and_wait tid (Some (do_set_ctrl_c_handler accepted))) sch m (WInit timeout_opt) = Some (err, m1, sch')"
    and others: "\<forall>(e, g) \<in> set sch. \<forall>m. unlocked (snd (g m)) tid = unlocked (snd m) tid \<and> user (snd (g m)) = user (snd m)"
  shows "user (snd m1) = user (snd m) + (if unlocked (snd m1) tid \<noteq> 0 then 1 else 0)"
proof -
  let ?ops = "do_unlock_and_wait tid (Some (do_set_ctrl_c_handler accepted))"
  define added where "added = (\<lambda>m1 :: sleep_mem. user (snd m1) = user (snd m) + (if unlocked (snd m1) tid \<noteq> 0 then 1 else 0))"
  define I where "I = (\<lambda>(m1 :: sleep_mem) (pc :: (MCF_cond, unit) wpc).
    case pc of
      WFast t \<Rightarrow> False | WFTry t old \<Rightarrow> False | WAdjust nt \<Rightarrow> False
    | WInit t \<Rightarrow> user (snd m1) = user (snd m) | WLoad nt \<Rightarrow> user (snd m1) = user (snd m)
    | WTry nt old \<Rightarrow> user (snd m1) = user (snd m) | WExt nt x \<Rightarrow> user (snd m1) = user (snd m)
    | _ \<Rightarrow> added m1)"
  have "\<exists>pc'. w_returned pc' = Some err \<and> I m1 pc'"
  proof (rule run_call_invariant[OF run])
    show "I m (WInit timeout_opt)" by (simp add: I_def)
  next
    fix e g m1 pc m' pc'
    assume e: "(e, g) \<in> set sch" and I: "I m1 pc" and st: "wait_step ?ops e (g m1) pc = Some (m', pc')"
    have "unlocked (snd (g m1)) tid = unlocked (snd m1) tid \<and> user (snd (g m1)) = user (snd m1)"
      using bspec[OF others e] by (cases m1) simp
    then have Ig: "I (g m1) pc" using I by (cases pc) (auto simp: I_def added_def)
    have ul: "user f = user (snd m) \<Longrightarrow> added (w, cond_unlock tid (Some (do_set_ctrl_c_handler accepted)) f)" for w f
      by (auto simp: added_def cond_unlock_def do_set_ctrl_c_handler_def)
    show "I m' pc'"
      using st Ig ul
      by (cases pc) (auto simp: I_def added_def cond_defs woken_def cas_iff split: env.splits if_splits option.splits)
  qed
  then show ?thesis by (auto simp: I_def added_def w_returned_iff)
qed

text \<open>The contract of \<open>_MCF_sleep\<close>, when the other threads leave the number of registered handlers as it
  is: the number is the same afterwards, whether the handler could be registered or not; the result
  is 0, after the time is over, or -1 after an interruption, which is the only end of a sleep without a
  timeout.\<close>

theorem sleep_results:
  assumes "MCF_sleep tid accepted timeout_opt sch m = Some (r, m', sch')"
    and others: "\<forall>(e, g) \<in> set sch. \<forall>m. unlocked (snd (g m)) tid = unlocked (snd m) tid \<and> user (snd (g m)) = user (snd m)"
  shows "user (snd m') = user (snd m) \<and> (r = - 1 \<or> r = 0 \<and> timeout_opt \<noteq> None)"
proof -
  obtain err m1 where run: "run_wait (do_unlock_and_wait tid (Some (do_set_ctrl_c_handler accepted))) sch m (WInit timeout_opt) = Some (err, m1, sch')"
    and m': "m' = (fst m1, (snd m1)\<lparr>user := do_remove_ctrl_c_handler (user (snd m1)) (unlocked (snd m1) tid)\<rparr>)" "r = err XOR - 1"
    using assms(1) by (auto simp: MCF_sleep_def MCF_cond_wait_def split: option.splits)
  have "\<forall>(e, g) \<in> set sch. \<forall>m. unlocked (snd (g m)) tid = unlocked (snd m) tid" using others by fast
  from cond_wait_run[OF run this] sleep_run[OF run others] m' show ?thesis
    by (auto simp: do_remove_ctrl_c_handler_def)
qed

end
