(* ===== verification/Gthr_Codes.thy ===== *)
theory Gthr_Codes
  imports Mcf_Prelude
begin

text \<open>
  Numbers that the interfaces return: the error numbers of \<open>errno.h\<close> that \<open>gthr.h\<close> and
  \<open>libcxx.h\<close> use, with their values on Windows, and the \<open>enum __MCF_thrd_error\<close> of \<open>c11.h\<close>.
\<close>

definition EAGAIN :: int where "EAGAIN = 11"
definition ENOMEM :: int where "ENOMEM = 12"
definition EBUSY :: int where "EBUSY = 16"
definition EINVAL :: int where "EINVAL = 22"
definition ETIMEDOUT :: int where "ETIMEDOUT = 138"

definition thrd_success :: int where "thrd_success = 0"
definition thrd_busy :: int where "thrd_busy = 1"
definition thrd_error :: int where "thrd_error = 2"
definition thrd_nomem :: int where "thrd_nomem = 3"
definition thrd_timedout :: int where "thrd_timedout = 4"

lemmas gthr_codes = EAGAIN_def ENOMEM_def EBUSY_def EINVAL_def ETIMEDOUT_def
  thrd_success_def thrd_busy_def thrd_error_def thrd_nomem_def thrd_timedout_def

end
