(* ===== verification/Gthr_Rc_Mutex.thy ===== *)
theory Gthr_Rc_Mutex
  imports Mcf_Mutex Gthr_Codes Cxx_Time
begin

text \<open>
  The recursive mutex of \<open>gthr_aux.h\<close> and \<open>src/gthr_aux.c\<close>, and the interfaces of \<open>gthr.h\<close>, \<open>c11.h\<close>,
  \<open>libcxx.h\<close> and \<open>cxx11.hpp\<close> that lock it. Its state is the machine of the mutex inside it (\<open>Mcf_Mutex\<close>) and two
  words, the owner and the depth; every load and store of a word is a step of its own, and a
  call of the mutex is a run of that machine. So the test for recursion of one thread may
  fall between any two stores of another.
\<close>

section \<open>The words\<close>

record MCF_gthr_rc_mutex =
  rc_owner :: i32
  rc_depth :: i32

definition MCF_gthr_rc_mutex_init :: MCF_gthr_rc_mutex where
  "MCF_gthr_rc_mutex_init = \<lparr>rc_owner = 0, rc_depth = 0\<rparr>"

section \<open>The interfaces\<close>

text \<open>What became of a call: the thread was the owner and went one level down, or was the owner of a
  mutex that is not recursive, or called \<open>__MCF_gthr_rc_mutex_wait\<close>, which returned a number. An
  interface differs in the timeout and in what it returns; \<open>None\<close> is a failed assertion.\<close>

datatype rc_outcome = Recursed | Undone | Waited int

record rc_call =
  rc_timeout :: "i64 option"
  rc_recursive :: bool
  rc_result :: "rc_outcome \<Rightarrow> int option"

definition mtx_recursive :: u8 where "mtx_recursive = 1"
definition mtx_timed :: u8 where "mtx_timed = 2"

definition MCF_gthr_recursive_mutex_lock :: rc_call where
  "MCF_gthr_recursive_mutex_lock = \<lparr>rc_timeout = None, rc_recursive = True,
     rc_result = (\<lambda>out. case out of Waited err \<Rightarrow> if err = 0 then Some 0 else None | _ \<Rightarrow> Some 0)\<rparr>"

definition MCF_gthr_recursive_mutex_trylock :: rc_call where
  "MCF_gthr_recursive_mutex_trylock = \<lparr>rc_timeout = Some 0, rc_recursive = True,
     rc_result = (\<lambda>out. case out of Waited err \<Rightarrow> Some (if err \<noteq> 0 then EBUSY else 0) | _ \<Rightarrow> Some 0)\<rparr>"

definition MCF_gthr_recursive_mutex_timedlock :: "i64 \<Rightarrow> rc_call" where
  "MCF_gthr_recursive_mutex_timedlock timeout = \<lparr>rc_timeout = Some timeout, rc_recursive = True,
     rc_result = (\<lambda>out. case out of Waited err \<Rightarrow> Some (if err \<noteq> 0 then ETIMEDOUT else 0) | _ \<Rightarrow> Some 0)\<rparr>"

text \<open>\<open>__MCF_c11_mtx_check_recursion\<close> gives \<open>thrd_busy\<close> when the thread is not the owner, and the
  callers then wait.\<close>

definition MCF_c11_mtx_check_recursion :: "rc_outcome \<Rightarrow> int" where
  "MCF_c11_mtx_check_recursion out =
     (case out of Recursed \<Rightarrow> thrd_success | Undone \<Rightarrow> thrd_error | Waited _ \<Rightarrow> thrd_busy)"

definition c11_call :: "u8 \<Rightarrow> i64 option \<Rightarrow> (int \<Rightarrow> int option) \<Rightarrow> rc_call" where
  "c11_call type timeout waited = \<lparr>rc_timeout = timeout, rc_recursive = (type AND mtx_recursive \<noteq> 0),
     rc_result = (\<lambda>out. if MCF_c11_mtx_check_recursion out \<noteq> thrd_busy then Some (MCF_c11_mtx_check_recursion out)
       else (case out of Waited err \<Rightarrow> waited err | _ \<Rightarrow> None))\<rparr>"

definition MCF_c11_mtx_lock :: "u8 \<Rightarrow> rc_call" where
  "MCF_c11_mtx_lock type = c11_call type None (\<lambda>err. if err = 0 then Some thrd_success else None)"

definition MCF_c11_mtx_timedlock :: "u8 \<Rightarrow> i64 \<Rightarrow> int + rc_call" where
  "MCF_c11_mtx_timedlock type timeout =
     (if type AND mtx_timed = 0 then Inl thrd_error
      else Inr (c11_call type (Some timeout) (\<lambda>err. Some (if err \<noteq> 0 then thrd_timedout else thrd_success))))"

definition MCF_c11_mtx_trylock :: "u8 \<Rightarrow> rc_call" where
  "MCF_c11_mtx_trylock type = c11_call type (Some 0) (\<lambda>err. Some (if err \<noteq> 0 then thrd_busy else thrd_success))"

definition MCF_c11_mtx_init :: "u8 \<Rightarrow> i32 \<Rightarrow> MCF_gthr_rc_mutex \<Rightarrow> int \<times> u8 \<times> MCF_gthr_rc_mutex" where
  "MCF_c11_mtx_init old_type type m =
     (if type \<in> {0, 2, 1, 3} then (thrd_success, ucast type, MCF_gthr_rc_mutex_init) else (thrd_error, old_type, m))"

definition MCF_libcxx_recursive_mutex_lock :: rc_call where
  "MCF_libcxx_recursive_mutex_lock = \<lparr>rc_timeout = None, rc_recursive = True,
     rc_result = (\<lambda>out. case out of Waited err \<Rightarrow> if err = 0 then Some 0 else None | _ \<Rightarrow> Some 0)\<rparr>"

text \<open>This one returns a \<open>bool\<close>.\<close>

definition MCF_libcxx_recursive_mutex_trylock :: rc_call where
  "MCF_libcxx_recursive_mutex_trylock = \<lparr>rc_timeout = Some 0, rc_recursive = True,
     rc_result = (\<lambda>out. case out of Waited err \<Rightarrow> Some (of_bool (err = 0)) | _ \<Rightarrow> Some 1)\<rparr>"

text \<open>The class \<open>recursive_mutex\<close>, with times of the system clock.\<close>

definition cxx_recursive_mutex_lock :: rc_call where
  "cxx_recursive_mutex_lock = \<lparr>rc_timeout = None, rc_recursive = True,
     rc_result = (\<lambda>out. let err = (case out of Waited err \<Rightarrow> err | _ \<Rightarrow> 0) in if err = 0 then Some 0 else None)\<rparr>"

definition cxx_recursive_mutex_try_lock :: rc_call where
  "cxx_recursive_mutex_try_lock = \<lparr>rc_timeout = Some 0, rc_recursive = True,
     rc_result = (\<lambda>out. let err = (case out of Waited err \<Rightarrow> err | _ \<Rightarrow> 0) in Some (of_bool (err = 0)))\<rparr>"

definition cxx_recursive_mutex_try_lock_until :: "i64 \<Rightarrow> rc_call" where
  "cxx_recursive_mutex_try_lock_until abs_time = cxx_wait_until abs_time
     (\<lambda>timeout. \<lparr>rc_timeout = Some timeout, rc_recursive = True,
        rc_result = (\<lambda>out. let err = (case out of Waited err \<Rightarrow> err | _ \<Rightarrow> 0) in Some (of_bool (err = 0)))\<rparr>)"

definition cxx_recursive_mutex_try_lock_for :: "i64 \<Rightarrow> rc_call" where
  "cxx_recursive_mutex_try_lock_for rel_time = cxx_wait_for rel_time
     (\<lambda>timeout. \<lparr>rc_timeout = Some timeout, rc_recursive = True,
        rc_result = (\<lambda>out. let err = (case out of Waited err \<Rightarrow> err | _ \<Rightarrow> 0) in Some (of_bool (err = 0)))\<rparr>)"

lemmas cxx_recursive_mutex_defs = cxx_recursive_mutex_lock_def cxx_recursive_mutex_try_lock_def
  cxx_recursive_mutex_try_lock_until_def cxx_recursive_mutex_try_lock_for_def cxx_wait_until_def cxx_wait_for_def Let_def

datatype rc_interface =
    Gthr_lock | Gthr_trylock | Gthr_timedlock i64
  | C11_lock u8 | C11_trylock u8 | C11_timedlock u8 i64
  | Libcxx_lock | Libcxx_trylock
  | Cxx_lock | Cxx_try_lock | Cxx_try_lock_until i64 | Cxx_try_lock_for i64

fun interface_call :: "rc_interface \<Rightarrow> int + rc_call" where
  "interface_call Gthr_lock = Inr MCF_gthr_recursive_mutex_lock"
| "interface_call Gthr_trylock = Inr MCF_gthr_recursive_mutex_trylock"
| "interface_call (Gthr_timedlock t) = Inr (MCF_gthr_recursive_mutex_timedlock t)"
| "interface_call (C11_lock type) = Inr (MCF_c11_mtx_lock type)"
| "interface_call (C11_trylock type) = Inr (MCF_c11_mtx_trylock type)"
| "interface_call (C11_timedlock type t) = MCF_c11_mtx_timedlock type t"
| "interface_call Libcxx_lock = Inr MCF_libcxx_recursive_mutex_lock"
| "interface_call Libcxx_trylock = Inr MCF_libcxx_recursive_mutex_trylock"
| "interface_call Cxx_lock = Inr cxx_recursive_mutex_lock"
| "interface_call Cxx_try_lock = Inr cxx_recursive_mutex_try_lock"
| "interface_call (Cxx_try_lock_until t) = Inr (cxx_recursive_mutex_try_lock_until t)"
| "interface_call (Cxx_try_lock_for t) = Inr (cxx_recursive_mutex_try_lock_for t)"

section \<open>One thread\<close>

text \<open>
  The position of a thread, with the number of levels that its client has taken: outside (and
  what the last call returned), locking, unlocking, in the callbacks of a condition
  variable with the depth that was stored away, or stopped by an assertion; \<open>Rc_too_deep\<close> is the
  assertion that the depth does not overflow.
\<close>

datatype rc_pc =
    Rc_out nat "int option"
  | Rc_test nat rc_call | Rc_deepen nat rc_call | Rc_undo nat rc_call
  | Rc_lock nat rc_call | Rc_locking nat rc_call | Rc_take nat rc_call | Rc_first nat rc_call
  | Rc_release nat | Rc_check nat | Rc_disown nat | Rc_unlock nat | Rc_unlocking nat
  | Cw_read nat | Cw_zero nat i64 | Cw_disown nat i64 | Cw_unlock nat i64 | Cw_unlocking nat i64
  | Cw_sleep nat i64 | Cw_relocking nat i64 | Cw_take nat i64 | Cw_restore nat i64
  | Rc_too_deep | Rc_fault

definition rc_finish :: "nat \<Rightarrow> int option \<Rightarrow> rc_pc" where
  "rc_finish n r = (if r = None then Rc_fault else Rc_out n r)"

fun MCF_gthr_rc_mutex_recurse :: "i32 \<Rightarrow> MCF_gthr_rc_mutex \<Rightarrow> rc_pc \<Rightarrow> (MCF_gthr_rc_mutex \<times> rc_pc) option" where
  "MCF_gthr_rc_mutex_recurse me m (Rc_test n c) =
     Some (m, if rc_owner m \<noteq> me then Rc_lock n c else Rc_deepen n c)"
| "MCF_gthr_rc_mutex_recurse me m (Rc_deepen n c) =
     (if rc_depth m <s 0x7FFFFFFF
      then Some (m\<lparr>rc_depth := rc_depth m + 1\<rparr>,
                 if rc_recursive c then rc_finish (Suc n) (rc_result c Recursed) else Rc_undo n c)
      else Some (m, Rc_too_deep))"
| "MCF_gthr_rc_mutex_recurse me m _ = None"

fun c11_undo :: "MCF_gthr_rc_mutex \<Rightarrow> rc_pc \<Rightarrow> (MCF_gthr_rc_mutex \<times> rc_pc) option" where
  "c11_undo m (Rc_undo n c) = Some (m\<lparr>rc_depth := rc_depth m - 1\<rparr>, rc_finish n (rc_result c Undone))"
| "c11_undo m _ = None"

fun MCF_gthr_rc_mutex_wait :: "i32 \<Rightarrow> MCF_gthr_rc_mutex \<Rightarrow> rc_pc \<Rightarrow> (MCF_gthr_rc_mutex \<times> rc_pc) option" where
  "MCF_gthr_rc_mutex_wait me m (Rc_take n c) =
     Some (if rc_owner m = 0 then (m\<lparr>rc_owner := me\<rparr>, Rc_first n c) else (m, Rc_fault))"
| "MCF_gthr_rc_mutex_wait me m (Rc_first n c) =
     Some (if rc_depth m = 0 then (m\<lparr>rc_depth := 1\<rparr>, rc_finish (Suc n) (rc_result c (Waited 0))) else (m, Rc_fault))"
| "MCF_gthr_rc_mutex_wait me m _ = None"

fun MCF_gthr_rc_mutex_release :: "MCF_gthr_rc_mutex \<Rightarrow> rc_pc \<Rightarrow> (MCF_gthr_rc_mutex \<times> rc_pc) option" where
  "MCF_gthr_rc_mutex_release m (Rc_release n) =
     Some (if rc_owner m \<noteq> 0 \<and> 0 <s rc_depth m then (m\<lparr>rc_depth := rc_depth m - 1\<rparr>, Rc_check (n - 1)) else (m, Rc_fault))"
| "MCF_gthr_rc_mutex_release m (Rc_check n) = Some (m, if rc_depth m \<noteq> 0 then Rc_out n (Some 0) else Rc_disown n)"
| "MCF_gthr_rc_mutex_release m (Rc_disown n) = Some (m\<lparr>rc_owner := 0\<rparr>, Rc_unlock n)"
| "MCF_gthr_rc_mutex_release m _ = None"

fun MCF_gthr_recursive_mutex_unlock_callback ::
    "MCF_gthr_rc_mutex \<Rightarrow> rc_pc \<Rightarrow> (MCF_gthr_rc_mutex \<times> rc_pc) option" where
  "MCF_gthr_recursive_mutex_unlock_callback m (Cw_read n) =
     (let unlocked = scast (rc_depth m) in Some (m, if 0 <s unlocked then Cw_zero n unlocked else Rc_fault))"
| "MCF_gthr_recursive_mutex_unlock_callback m (Cw_zero n unlocked) = Some (m\<lparr>rc_depth := 0\<rparr>, Cw_disown n unlocked)"
| "MCF_gthr_recursive_mutex_unlock_callback m (Cw_disown n unlocked) = Some (m\<lparr>rc_owner := 0\<rparr>, Cw_unlock n unlocked)"
| "MCF_gthr_recursive_mutex_unlock_callback m _ = None"

fun MCF_gthr_recursive_mutex_relock_callback ::
    "i32 \<Rightarrow> MCF_gthr_rc_mutex \<Rightarrow> rc_pc \<Rightarrow> (MCF_gthr_rc_mutex \<times> rc_pc) option" where
  "MCF_gthr_recursive_mutex_relock_callback me m (Cw_take n unlocked) =
     Some (if rc_owner m = 0 then (m\<lparr>rc_owner := me\<rparr>, Cw_restore n unlocked) else (m, Rc_fault))"
| "MCF_gthr_recursive_mutex_relock_callback me m (Cw_restore n unlocked) =
     Some (if 0 <s unlocked then (m\<lparr>rc_depth := ucast unlocked\<rparr>, Rc_out n (Some 0)) else (m, Rc_fault))"
| "MCF_gthr_recursive_mutex_relock_callback me m _ = None"

definition rc_instr :: "i32 \<Rightarrow> MCF_gthr_rc_mutex \<Rightarrow> rc_pc \<Rightarrow> (MCF_gthr_rc_mutex \<times> rc_pc) option" where
  "rc_instr me m pc =
     (case MCF_gthr_rc_mutex_recurse me m pc of Some r \<Rightarrow> Some r | None \<Rightarrow>
      case c11_undo m pc of Some r \<Rightarrow> Some r | None \<Rightarrow>
      case MCF_gthr_rc_mutex_wait me m pc of Some r \<Rightarrow> Some r | None \<Rightarrow>
      case MCF_gthr_rc_mutex_release m pc of Some r \<Rightarrow> Some r | None \<Rightarrow>
      case MCF_gthr_recursive_mutex_unlock_callback m pc of Some r \<Rightarrow> Some r | None \<Rightarrow>
      MCF_gthr_recursive_mutex_relock_callback me m pc)"

text \<open>Calls of the mutex, and what follows their return.\<close>

fun rc_mutex_call :: "rc_pc \<Rightarrow> ((unit, unit) input \<times> rc_pc) option" where
  "rc_mutex_call (Rc_lock n c) = Some (CallWait True () (rc_timeout c), Rc_locking n c)"
| "rc_mutex_call (Rc_unlock n) = Some (CallSignal True (), Rc_unlocking n)"
| "rc_mutex_call (Cw_unlock n d) = Some (CallSignal False (), Cw_unlocking n d)"
| "rc_mutex_call (Cw_sleep n d) = Some (CallWait False () None, Cw_relocking n d)"
| "rc_mutex_call _ = None"

fun rc_mutex_return :: "int \<Rightarrow> rc_pc \<Rightarrow> rc_pc option" where
  "rc_mutex_return err (Rc_locking n c) =
     Some (if err \<noteq> 0 then rc_finish n (rc_result c (Waited err)) else Rc_take n c)"
| "rc_mutex_return err (Rc_unlocking n) = Some (Rc_out n (Some 0))"
| "rc_mutex_return err (Cw_unlocking n d) = Some (Cw_sleep n d)"
| "rc_mutex_return err (Cw_relocking n d) = Some (Cw_take n d)"
| "rc_mutex_return err _ = None"

section \<open>Threads that share one recursive mutex\<close>

record rc_sys =
  rc_mutex :: "(MCF_mutex \<times> spin_field, mutex_thread) sys"
  rc_words :: MCF_gthr_rc_mutex
  rc_pcs :: "rc_pc list"

text \<open>
  \<open>Rc_mutex\<close> is a step inside the mutex; \<open>Rc_enter\<close>, \<open>Rc_leave\<close> and \<open>Rc_cond\<close> are calls by the
  client: to lock, to unlock and to wait on a condition variable. The client locks whenever it
  likes, and unlocks and waits only when it has taken a level. The wait on the condition variable
  itself is \<open>Cw_sleep\<close>, and may end at any time.
\<close>

datatype rc_event =
    Rc_mutex "(unit, unit) input move"
  | Rc_enter nat rc_interface | Rc_leave nat | Rc_cond nat
  | Rc_instr nat | Rc_call nat | Rc_return nat

fun inside_mutex :: "(unit, unit) input move \<Rightarrow> bool" where
  "inside_mutex (Local i (Act e)) = True"
| "inside_mutex (Local i _) = False"
| "inside_mutex _ = True"

definition rc_goto :: "nat \<Rightarrow> rc_pc \<Rightarrow> rc_sys \<Rightarrow> rc_sys" where
  "rc_goto i pc s = s\<lparr>rc_pcs := (rc_pcs s)[i := pc]\<rparr>"

fun mutex_result :: "mutex_thread \<Rightarrow> int option" where
  "mutex_result (Waits c a pc) = w_returned pc"
| "mutex_result (Signals c b pc) = s_returned pc"
| "mutex_result (Idle c) = None"

fun rc_move :: "(ke_event \<Rightarrow> bool) \<Rightarrow> uptr \<Rightarrow> u32 \<Rightarrow> (nat \<Rightarrow> i32) \<Rightarrow> rc_event \<Rightarrow> rc_sys \<Rightarrow> rc_sys option" where
  "rc_move K mtx quantum tid (Rc_mutex mv) s =
     (if inside_mutex mv
      then map_option (\<lambda>m. s\<lparr>rc_mutex := m\<rparr>) (sys_move K (thread_step (mutex_object mtx quantum)) mv (rc_mutex s))
      else None)"
| "rc_move K mtx quantum tid (Rc_enter i f) s =
     (if i < length (rc_pcs s) then
        (case rc_pcs s ! i of
           Rc_out n _ \<Rightarrow> Some (rc_goto i (case interface_call f of Inl r \<Rightarrow> Rc_out n (Some r) | Inr c \<Rightarrow> Rc_test n c) s)
         | _ \<Rightarrow> None)
      else None)"
| "rc_move K mtx quantum tid (Rc_leave i) s =
     (if i < length (rc_pcs s) then
        (case rc_pcs s ! i of Rc_out (Suc n) _ \<Rightarrow> Some (rc_goto i (Rc_release (Suc n)) s) | _ \<Rightarrow> None)
      else None)"
| "rc_move K mtx quantum tid (Rc_cond i) s =
     (if i < length (rc_pcs s) then
        (case rc_pcs s ! i of Rc_out (Suc n) _ \<Rightarrow> Some (rc_goto i (Cw_read (Suc n)) s) | _ \<Rightarrow> None)
      else None)"
| "rc_move K mtx quantum tid (Rc_instr i) s =
     (if i < length (rc_pcs s) then
        map_option (\<lambda>(m, pc). rc_goto i pc (s\<lparr>rc_words := m\<rparr>)) (rc_instr (tid i) (rc_words s) (rc_pcs s ! i))
      else None)"
| "rc_move K mtx quantum tid (Rc_call i) s =
     (if i < length (rc_pcs s) then
        (case rc_mutex_call (rc_pcs s ! i) of
           None \<Rightarrow> None
         | Some (inp, pc) \<Rightarrow>
             map_option (\<lambda>m. rc_goto i pc (s\<lparr>rc_mutex := m\<rparr>))
               (sys_move K (thread_step (mutex_object mtx quantum)) (Local i inp) (rc_mutex s)))
      else None)"
| "rc_move K mtx quantum tid (Rc_return i) s =
     (if i < length (rc_pcs s) then
        (case Option.bind (mutex_result (thr (rc_mutex s) ! i)) (\<lambda>r. rc_mutex_return r (rc_pcs s ! i)) of
           None \<Rightarrow> None
         | Some pc \<Rightarrow>
             map_option (\<lambda>m. rc_goto i pc (s\<lparr>rc_mutex := m\<rparr>))
               (sys_move K (thread_step (mutex_object mtx quantum)) (Local i Leave) (rc_mutex s)))
      else None)"

definition rc_begin :: "nat \<Rightarrow> spin_field \<Rightarrow> rc_sys" where
  "rc_begin n field = \<lparr>rc_mutex = mutex_begin n field, rc_words = MCF_gthr_rc_mutex_init,
     rc_pcs = replicate n (Rc_out 0 None)\<rparr>"

inductive rc_reach :: "(ke_event \<Rightarrow> bool) \<Rightarrow> uptr \<Rightarrow> u32 \<Rightarrow> (nat \<Rightarrow> i32) \<Rightarrow> rc_sys \<Rightarrow> rc_sys \<Rightarrow> bool"
  for K mtx quantum tid s0 where
  rc_start: "rc_reach K mtx quantum tid s0 s0"
| rc_next: "rc_reach K mtx quantum tid s0 s \<Longrightarrow> rc_move K mtx quantum tid ev s = Some s' \<Longrightarrow>
    rc_reach K mtx quantum tid s0 s'"

section \<open>What the words must be\<close>

text \<open>For a thread that holds the mutex: what the owner and the depth are; \<open>None\<close> otherwise.\<close>

fun rc_expect :: "i32 \<Rightarrow> rc_pc \<Rightarrow> (i32 \<times> i32) option" where
  "rc_expect me (Rc_out n r) = (if n = 0 then None else Some (me, of_nat n))"
| "rc_expect me (Rc_test n c) = (if n = 0 then None else Some (me, of_nat n))"
| "rc_expect me (Rc_deepen n c) = Some (me, of_nat n)"
| "rc_expect me (Rc_undo n c) = Some (me, of_nat (Suc n))"
| "rc_expect me (Rc_take n c) = Some (0, 0)"
| "rc_expect me (Rc_first n c) = Some (me, 0)"
| "rc_expect me (Rc_release n) = Some (me, of_nat n)"
| "rc_expect me (Rc_check n) = Some (me, of_nat n)"
| "rc_expect me (Rc_disown n) = Some (me, 0)"
| "rc_expect me (Rc_unlock n) = Some (0, 0)"
| "rc_expect me (Cw_read n) = Some (me, of_nat n)"
| "rc_expect me (Cw_zero n d) = Some (me, of_nat n)"
| "rc_expect me (Cw_disown n d) = Some (me, 0)"
| "rc_expect me (Cw_unlock n d) = Some (0, 0)"
| "rc_expect me (Cw_take n d) = Some (0, 0)"
| "rc_expect me (Cw_restore n d) = Some (me, 0)"
| "rc_expect me Rc_too_deep = Some (me, 0x7FFFFFFF)"
| "rc_expect me _ = None"

definition max_depth :: nat where
  "max_depth = 0x7FFFFFFF"

definition call_ok :: "rc_call \<Rightarrow> bool" where
  "call_ok c \<longleftrightarrow> rc_result c Recursed \<noteq> None \<and> (\<not> rc_recursive c \<longrightarrow> rc_result c Undone \<noteq> None) \<and>
     rc_result c (Waited 0) \<noteq> None \<and> (rc_timeout c \<noteq> None \<longrightarrow> (\<forall>r. rc_result c (Waited r) \<noteq> None))"

definition stored :: "nat \<Rightarrow> i64 \<Rightarrow> bool" where
  "stored n d \<longleftrightarrow> 0 < n \<and> n \<le> max_depth \<and> d = scast (of_nat n :: i32)"

fun rc_pc_ok :: "rc_pc \<Rightarrow> bool" where
  "rc_pc_ok (Rc_out n r) = (n \<le> max_depth)"
| "rc_pc_ok (Rc_test n c) = (n \<le> max_depth \<and> call_ok c)"
| "rc_pc_ok (Rc_deepen n c) = (0 < n \<and> n \<le> max_depth \<and> call_ok c)"
| "rc_pc_ok (Rc_undo n c) = (0 < n \<and> n < max_depth \<and> \<not> rc_recursive c \<and> call_ok c)"
| "rc_pc_ok (Rc_lock n c) = (n = 0 \<and> call_ok c)"
| "rc_pc_ok (Rc_locking n c) = (n = 0 \<and> call_ok c)"
| "rc_pc_ok (Rc_take n c) = (n = 0 \<and> call_ok c)"
| "rc_pc_ok (Rc_first n c) = (n = 0 \<and> call_ok c)"
| "rc_pc_ok (Rc_release n) = (0 < n \<and> n \<le> max_depth)"
| "rc_pc_ok (Rc_check n) = (n \<le> max_depth)"
| "rc_pc_ok (Rc_disown n) = (n = 0)"
| "rc_pc_ok (Rc_unlock n) = (n = 0)"
| "rc_pc_ok (Rc_unlocking n) = (n = 0)"
| "rc_pc_ok (Cw_read n) = (0 < n \<and> n \<le> max_depth)"
| "rc_pc_ok (Cw_zero n d) = stored n d"
| "rc_pc_ok (Cw_disown n d) = stored n d"
| "rc_pc_ok (Cw_unlock n d) = stored n d"
| "rc_pc_ok (Cw_unlocking n d) = stored n d"
| "rc_pc_ok (Cw_sleep n d) = stored n d"
| "rc_pc_ok (Cw_relocking n d) = stored n d"
| "rc_pc_ok (Cw_take n d) = stored n d"
| "rc_pc_ok (Cw_restore n d) = stored n d"
| "rc_pc_ok Rc_too_deep = True"
| "rc_pc_ok Rc_fault = False"

text \<open>Where the thread is in the machine of the mutex. A call without a timeout returns 0.\<close>

definition endless :: "(MCF_mutex, spin) wpc \<Rightarrow> bool" where
  "endless pc \<longleftrightarrow> unexpired pc \<and> (\<forall>r. pc = WRet r \<longrightarrow> r = 0)"

fun rc_phase :: "rc_pc \<Rightarrow> mutex_thread \<Rightarrow> bool" where
  "rc_phase (Rc_locking n c) t = (\<exists>h a pc. t = Waits h a pc \<and> (rc_timeout c = None \<longrightarrow> endless pc))"
| "rc_phase (Cw_relocking n d) t = (\<exists>h a pc. t = Waits h a pc \<and> endless pc)"
| "rc_phase (Rc_unlocking n) t = (\<exists>h b pc. t = Signals h b pc)"
| "rc_phase (Cw_unlocking n d) t = (\<exists>h b pc. t = Signals h b pc)"
| "rc_phase pc t = (t = Idle (rc_expect 0 pc \<noteq> None))"

definition rc_inv :: "nat \<Rightarrow> (nat \<Rightarrow> i32) \<Rightarrow> rc_sys \<Rightarrow> bool" where
  "rc_inv n tid s \<longleftrightarrow> length (rc_pcs s) = n \<and> length (thr (rc_mutex s)) = n \<and>
     (\<forall>i < n. rc_pc_ok (rc_pcs s ! i) \<and> rc_phase (rc_pcs s ! i) (thr (rc_mutex s) ! i)) \<and>
     (\<forall>i < n. \<forall>e. rc_expect (tid i) (rc_pcs s ! i) = Some e \<longrightarrow> (rc_owner (rc_words s), rc_depth (rc_words s)) = e) \<and>
     ((\<forall>i < n. rc_expect (tid i) (rc_pcs s ! i) = None) \<longrightarrow> rc_words s = MCF_gthr_rc_mutex_init)"

lemma expect_holds: "rc_expect me pc \<noteq> None \<longleftrightarrow> rc_expect 0 pc \<noteq> None"
  by (cases pc) auto

lemma expect_phase: "rc_phase pc t \<Longrightarrow> rc_expect me pc \<noteq> None \<Longrightarrow> t = Idle True"
  using expect_holds[of me pc] by (cases pc) auto

lemma holds_idle [simp]: "holds_mutex (Idle h) = h"
  by (simp add: holds_mutex_def)

lemma interface_call_ok: "interface_call f = Inr c \<Longrightarrow> call_ok c"
  by (cases f) (auto simp: call_ok_def MCF_gthr_recursive_mutex_lock_def MCF_gthr_recursive_mutex_trylock_def
      MCF_gthr_recursive_mutex_timedlock_def MCF_c11_mtx_lock_def MCF_c11_mtx_timedlock_def MCF_c11_mtx_trylock_def
      MCF_libcxx_recursive_mutex_lock_def MCF_libcxx_recursive_mutex_trylock_def c11_call_def cxx_recursive_mutex_defs
      MCF_c11_mtx_check_recursion_def thrd_success_def thrd_busy_def thrd_error_def split: if_splits)

text \<open>Depths as numbers.\<close>

lemma unat_depth: "n \<le> max_depth \<Longrightarrow> unat (of_nat n :: i32) = n"
  by (simp add: max_depth_def unat_of_nat)

lemma sint_depth: "n \<le> max_depth \<Longrightarrow> sint (of_nat n :: i32) = int n"
  using signed_take_bit_int_eq_self[of 31 "int n"] by (simp add: signed_of_nat max_depth_def)

lemma depth_pos: "0 < n \<Longrightarrow> n \<le> max_depth \<Longrightarrow> 0 <s (of_nat n :: i32)"
  by (simp add: word_sless_alt sint_depth)

lemma depth_less: "n \<le> max_depth \<Longrightarrow> (of_nat n :: i32) <s 0x7FFFFFFF \<longleftrightarrow> n < max_depth"
  by (auto simp: word_sless_alt sint_depth max_depth_def)

lemma depth_zero: "n \<le> max_depth \<Longrightarrow> (of_nat n :: i32) = 0 \<longleftrightarrow> n = 0"
  using unat_depth[of n] by (auto simp: unsigned_eq_0_iff)

lemma stored_back: "stored n d \<Longrightarrow> 0 <s d \<and> (ucast d :: i32) = of_nat n"
proof -
  assume "stored n d"
  then have n: "0 < n" "n \<le> max_depth" "d = scast (of_nat n :: i32)" by (simp_all add: stored_def)
  then have "sint d = int n" using sint_depth[of n] signed_take_bit_int_eq_self[of 63 "int n"]
    by (simp add: max_depth_def signed_scast_eq)
  moreover have "(ucast d :: i32) = of_nat n" unfolding n(3) by (rule bit_word_eqI) (simp add: bit_simps)
  ultimately show ?thesis using n(1) by (simp add: word_sless_alt)
qed

section \<open>Steps inside the mutex\<close>

lemma act_phase:
  assumes "thread_step (mutex_object mtx quantum) (Act e) m t = Some (m', t')" "rc_phase pc t"
  shows "rc_phase pc t'"
proof (cases t)
  case (Waits h a w)
  with assms(1) obtain w' where w: "wait_step (MCF_mutex_lock_slow mtx quantum) e m w = Some (m', w')" "t' = Waits h a w'"
    by (auto simp: mutex_object_def)
  then have "w_returned w = None" by (cases w) auto
  with mutex_forever_step[OF w(1)] have "endless w \<Longrightarrow> endless w'" by (auto simp: endless_def)
  with assms(2) Waits w(2) show ?thesis by (cases pc) auto
next
  case (Signals h b w)
  with assms show ?thesis by (cases pc) auto
qed (use assms in simp)

lemma at_thread_phase:
  assumes "at_thread (thread_step (mutex_object mtx quantum) (Act e)) i m = Some m'" "j < length (thr m)"
    and "rc_phase pc (thr m ! j)"
  shows "rc_phase pc (thr m' ! j) \<and> length (thr m') = length (thr m)"
proof -
  obtain mem' t' where t: "thread_step (mutex_object mtx quantum) (Act e) (mem m) (thr m ! i) = Some (mem', t')"
    "m' = \<lparr>mem = mem', thr = (thr m)[i := t']\<rparr>"
    using assms(1) by (auto simp: at_thread_def split: if_splits)
  with act_phase[OF t(1)] assms(2,3) show ?thesis by (cases "j = i") simp_all
qed

lemma inside_phase:
  assumes "sys_move K (thread_step (mutex_object mtx quantum)) mv m = Some m'" "inside_mutex mv"
    and "j < length (thr m)" "rc_phase pc (thr m ! j)"
  shows "rc_phase pc (thr m' ! j) \<and> length (thr m') = length (thr m)"
proof (cases mv)
  case (Local i inp)
  with assms show ?thesis by (cases inp) (auto split: if_splits dest: at_thread_phase)
next
  case (Pair i k)
  with assms(1) obtain m1 where "at_thread (thread_step (mutex_object mtx quantum) (Act Wake)) i m = Some m1"
    "at_thread (thread_step (mutex_object mtx quantum) (Act Rel)) k m1 = Some m'"
    by (auto simp: Option.bind_eq_Some_conv split: if_splits)
  with at_thread_phase[OF this(1) assms(3,4)] at_thread_phase[OF this(2), of j pc] assms(3) show ?thesis by simp
next
  case (Kernel i e)
  with assms show ?thesis by (auto split: if_splits dest: at_thread_phase)
qed

lemma outside_call:
  assumes "sys_move K (thread_step (mutex_object mtx quantum)) (Local i inp) m = Some m'"
  shows "i < length (thr m)" "length (thr m') = length (thr m)" "j \<noteq> i \<Longrightarrow> thr m' ! j = thr m ! j"
    "\<exists>mem'. thread_step (mutex_object mtx quantum) inp (mem m) (thr m ! i) = Some (mem', thr m' ! i)"
  using assms by (auto simp: at_thread_def split: if_splits)

lemma rc_projects:
  "rc_reach K mtx quantum tid (rc_begin n field) s \<Longrightarrow>
    reach K (thread_step (mutex_object mtx quantum)) (mutex_begin n field) (rc_mutex s)"
proof (induction rule: rc_reach.induct)
  case rc_start
  then show ?case by (simp add: rc_begin_def reach_refl)
next
  case (rc_next s ev s')
  show ?case
    using rc_next(2,3)
    by (cases ev) (auto simp: rc_goto_def simp del: sys_move.simps intro: reach_move[OF rc_next(3)] split: if_splits rc_pc.splits nat.splits option.splits)
qed

section \<open>The invariant is kept\<close>

text \<open>A step of thread \<open>i\<close>: the others are where they were, and the words fit its new position.\<close>

lemma rc_inv_update:
  assumes inv: "rc_inv n tid s" and i: "i < n"
    and mutex: "length (thr m) = n" "\<And>j. j < n \<Longrightarrow> j \<noteq> i \<Longrightarrow> thr m ! j = thr (rc_mutex s) ! j"
    and pc: "rc_pc_ok pc" "rc_phase pc (thr m ! i)"
    and one: "\<And>j. j < n \<Longrightarrow> j \<noteq> i \<Longrightarrow> rc_expect (tid i) pc \<noteq> None \<or> rc_expect (tid i) (rc_pcs s ! i) \<noteq> None \<Longrightarrow>
      rc_expect (tid j) (rc_pcs s ! j) = None"
    and words: "rc_expect (tid i) pc = None \<Longrightarrow> rc_expect (tid i) (rc_pcs s ! i) \<noteq> None \<Longrightarrow> w = MCF_gthr_rc_mutex_init"
      "rc_expect (tid i) pc = None \<Longrightarrow> rc_expect (tid i) (rc_pcs s ! i) = None \<Longrightarrow> w = rc_words s"
      "\<And>e. rc_expect (tid i) pc = Some e \<Longrightarrow> (rc_owner w, rc_depth w) = e"
  shows "rc_inv n tid (rc_goto i pc (s\<lparr>rc_mutex := m, rc_words := w\<rparr>))"
proof -
  let ?s = "rc_goto i pc (s\<lparr>rc_mutex := m, rc_words := w\<rparr>)"
  have len: "length (rc_pcs s) = n" using inv by (simp add: rc_inv_def)
  have at: "rc_pcs ?s ! j = (if j = i then pc else rc_pcs s ! j)" if "j < n" for j
    using that len by (simp add: rc_goto_def nth_list_update)
  have "(rc_owner w, rc_depth w) = e" if "j < n" "rc_expect (tid j) (rc_pcs ?s ! j) = Some e" for j e
  proof (cases "j = i")
    case True
    with that at words(3) show ?thesis by simp
  next
    case False
    with that at[OF that(1)] have j: "rc_expect (tid j) (rc_pcs s ! j) = Some e" by simp
    with one[OF that(1) False] have "rc_expect (tid i) pc = None" "rc_expect (tid i) (rc_pcs s ! i) = None"
      by (metis option.distinct(1))+
    with words(2) have "w = rc_words s" by blast
    with inv that(1) j show ?thesis by (cases e) (auto simp: rc_inv_def)
  qed
  moreover have "w = MCF_gthr_rc_mutex_init" if none: "\<forall>j < n. rc_expect (tid j) (rc_pcs ?s ! j) = None"
  proof (cases "rc_expect (tid i) (rc_pcs s ! i) = None")
    case True
    have "rc_expect (tid j) (rc_pcs s ! j) = None" if "j < n" for j
      using none that at[OF that] True by (auto split: if_splits)
    then have "rc_words s = MCF_gthr_rc_mutex_init" using inv by (simp add: rc_inv_def)
    with words(2) True none i at[OF i] show ?thesis by auto
  qed (use words(1) none i at[OF i] in auto)
  moreover have "rc_pc_ok (rc_pcs ?s ! j) \<and> rc_phase (rc_pcs ?s ! j) (thr m ! j)" if "j < n" for j
    using inv pc mutex(2)[OF that] that at[OF that] by (cases "j = i") (auto simp: rc_inv_def)
  ultimately show ?thesis
    using len mutex(1) unfolding rc_inv_def by (simp add: rc_goto_def)
qed

lemma rc_finish_some: "r \<noteq> None \<Longrightarrow> rc_finish n r = Rc_out n r"
  by (simp add: rc_finish_def)

text \<open>An instruction, seen by its own thread.\<close>

lemma instr_result:
  assumes "rc_instr me m pc = Some (m', pc')" "rc_pc_ok pc" "me \<noteq> 0"
    and some: "\<And>e. rc_expect me pc = Some e \<Longrightarrow> (rc_owner m, rc_depth m) = e"
    and none: "rc_expect me pc = None \<Longrightarrow> rc_owner m \<noteq> me"
  shows "rc_pc_ok pc' \<and> (rc_expect me pc = None \<longrightarrow> m' = m) \<and> (rc_expect me pc' = None \<longleftrightarrow> rc_expect me pc = None) \<and>
    (\<forall>e. rc_expect me pc' = Some e \<longrightarrow> (rc_owner m', rc_depth m') = e) \<and> (\<forall>t. rc_phase pc t \<longrightarrow> rc_phase pc' t)"
proof (cases pc)
  case (Rc_deepen n c)
  then have n: "0 < n" "n \<le> max_depth" "call_ok c" "rc_owner m = me" "rc_depth m = of_nat n"
    using assms(2) some by auto
  with Rc_deepen assms(1) depth_less[of n] show ?thesis
    by (cases "n < max_depth"; cases "rc_recursive c")
      (auto simp: rc_instr_def call_ok_def rc_finish_some max_depth_def ac_simps)
next
  case (Rc_check n)
  then have "n \<le> max_depth" "rc_depth m = of_nat n" "rc_owner m = me" using assms(2) some by auto
  with Rc_check assms(1) depth_zero[of n] show ?thesis by (auto simp: rc_instr_def)
next
  case (Rc_release n)
  then have n: "0 < n" "n \<le> max_depth" "rc_depth m = of_nat n" "rc_owner m = me" using assms(2) some by auto
  with Rc_release assms(1,3) depth_pos[of n] show ?thesis by (auto simp: rc_instr_def of_nat_diff)
next
  case (Cw_read n)
  then have n: "0 < n" "n \<le> max_depth" "rc_depth m = of_nat n" "rc_owner m = me" using assms(2) some by auto
  then have "stored n (scast (rc_depth m))" by (simp add: stored_def)
  with stored_back[OF this] Cw_read assms(1) n show ?thesis by (auto simp: rc_instr_def Let_def)
next
  case (Cw_restore n d)
  then have "stored n d" "rc_owner m = me" using assms(2) some by auto
  with stored_back[OF this(1)] Cw_restore assms(1) show ?thesis by (auto simp: rc_instr_def stored_def)
qed (use assms in \<open>auto simp: rc_instr_def rc_finish_some call_ok_def stored_def max_depth_def split: if_splits\<close>)

definition tids_ok :: "nat \<Rightarrow> (nat \<Rightarrow> i32) \<Rightarrow> bool" where
  "tids_ok n tid \<longleftrightarrow> inj_on tid {..<n} \<and> (\<forall>i < n. tid i \<noteq> 0)"

text \<open>The owner word names a thread only while that thread holds the mutex.\<close>

lemma owner_expects:
  assumes "rc_inv n tid s" "tids_ok n tid" "i < n" "rc_owner (rc_words s) = tid i"
  shows "rc_expect (tid i) (rc_pcs s ! i) \<noteq> None"
proof
  assume none: "rc_expect (tid i) (rc_pcs s ! i) = None"
  have "tid i \<noteq> 0" using assms(2,3) by (simp add: tids_ok_def)
  with assms(4) have "rc_words s \<noteq> MCF_gthr_rc_mutex_init" by (auto simp: MCF_gthr_rc_mutex_init_def)
  with assms(1) obtain j e where j: "j < n" "rc_expect (tid j) (rc_pcs s ! j) = Some e"
    by (auto simp: rc_inv_def)
  with assms(1) have "rc_owner (rc_words s) = fst e" by (cases e) (auto simp: rc_inv_def)
  moreover have "fst e = 0 \<or> fst e = tid j" using j(2) by (cases "rc_pcs s ! j") (auto split: if_splits)
  ultimately have "tid j = tid i" using assms(4) \<open>tid i \<noteq> 0\<close> by auto
  then have "j = i" using assms(2,3) j(1) by (auto simp: tids_ok_def inj_on_def)
  with none j(2) show False by simp
qed

lemma rc_alone:
  assumes "reach K (thread_step (mutex_object mtx quantum)) (mutex_begin n field) (rc_mutex s)" "n < 2 ^ 55"
    and "rc_inv n tid s" "i < n" "j < n" "j \<noteq> i" "holds_mutex (thr (rc_mutex s) ! i)"
  shows "rc_expect (tid j) (rc_pcs s ! j) = None"
proof (rule ccontr)
  assume "rc_expect (tid j) (rc_pcs s ! j) \<noteq> None"
  with assms(3,5) have "thr (rc_mutex s) ! j = Idle True" by (auto simp: rc_inv_def intro!: expect_phase)
  then have "holds_mutex (thr (rc_mutex s) ! j)" by simp
  with mutex_one_holder[OF assms(1,2,4,5,7)] assms(6) show False by simp
qed

lemma goto_same: "rc_goto i pc s = rc_goto i pc (s\<lparr>rc_mutex := rc_mutex s, rc_words := rc_words s\<rparr>)"
  by (simp add: rc_goto_def)

text \<open>A call of the mutex and its return, seen by their thread.\<close>

lemma call_result:
  assumes "rc_mutex_call pc = Some (inp, pc')" "rc_pc_ok pc" "rc_phase pc t"
    and "thread_step (mutex_object mtx quantum) inp m t = Some (m', t')"
  shows "rc_pc_ok pc' \<and> rc_phase pc' t' \<and> rc_expect me pc' = None \<and>
    (rc_expect me pc = None \<or> rc_expect me pc = Some (0, 0))"
proof (cases pc)
  case (Rc_lock n c)
  with assms show ?thesis by (auto simp: endless_def mutex_object_def ex_bool_eq)
next
  case (Rc_unlock n)
  with assms show ?thesis by (auto simp: mutex_object_def ex_bool_eq)
next
  case (Cw_unlock n d)
  with assms show ?thesis by (auto simp: mutex_object_def ex_bool_eq)
next
  case (Cw_sleep n d)
  with assms show ?thesis by (auto simp: endless_def mutex_object_def ex_bool_eq)
qed (use assms(1) in simp_all)

lemma holds_returned: "holds_mutex (Waits c a (WRet r)) \<longleftrightarrow> r = 0"
  by (simp add: holds_mutex_def mutex_object_def)

lemma mutex_result_waits: "mutex_result (Waits h a w) = Some r \<longleftrightarrow> w = WRet r"
  by (cases w) auto

lemma mutex_result_signals: "mutex_result (Signals h b w) = Some r \<longleftrightarrow> w = SRet r"
  by (cases w) auto

lemma return_result:
  assumes "rc_mutex_return r pc = Some pc'" "mutex_result t = Some r" "rc_pc_ok pc" "rc_phase pc t"
    and "thread_step (mutex_object mtx quantum) Leave m t = Some (m', t')"
  shows "rc_pc_ok pc' \<and> rc_phase pc' t' \<and> rc_expect me pc = None \<and>
    (rc_expect me pc' = None \<or> rc_expect me pc' = Some (0, 0) \<and> holds_mutex t)"
proof (cases pc)
  case (Rc_locking n c)
  with assms(4) obtain h a w where w: "t = Waits h a w" "rc_timeout c = None \<longrightarrow> endless w" by auto
  then have t: "t = Waits h a (WRet r)" "rc_timeout c = None \<longrightarrow> endless (WRet r)"
    using assms(2) mutex_result_waits[of h a w r] by simp_all
  have n: "n = 0" "call_ok c" using assms(3) Rc_locking by simp_all
  have t': "t' = Idle (r = 0)" using assms(5) t(1) by (simp add: mutex_object_def)
  show ?thesis
  proof (cases "r = 0")
    case True
    with Rc_locking assms(1) n t(1) t' show ?thesis by (auto simp: holds_returned)
  next
    case False
    then have "rc_timeout c \<noteq> None" using t(2) by (auto simp: endless_def)
    then have "rc_result c (Waited r) \<noteq> None" using n(2) unfolding call_ok_def by blast
    with False Rc_locking assms(1) n(1) t' show ?thesis by (auto simp: rc_finish_some)
  qed
next
  case (Rc_unlocking n)
  with assms show ?thesis by (auto simp: mutex_object_def mutex_result_signals simp del: mutex_result.simps)
next
  case (Cw_unlocking n d)
  with assms show ?thesis by (auto simp: mutex_object_def mutex_result_signals simp del: mutex_result.simps)
next
  case (Cw_relocking n d)
  with assms(4) obtain h a w where w: "t = Waits h a w" "endless w" by auto
  then have t: "t = Waits h a (WRet r)" "endless (WRet r)"
    using assms(2) mutex_result_waits[of h a w r] by simp_all
  with Cw_relocking assms show ?thesis by (auto simp: endless_def mutex_object_def holds_returned)
qed (use assms(1) in simp_all)

lemma rc_inv_step:
  assumes reached: "reach K (thread_step (mutex_object mtx quantum)) (mutex_begin n field) (rc_mutex s)" "n < 2 ^ 55"
    and tids: "tids_ok n tid" and inv: "rc_inv n tid s"
    and move: "rc_move K mtx quantum tid ev s = Some s'"
  shows "rc_inv n tid s'"
proof -
  have len: "length (rc_pcs s) = n" "length (thr (rc_mutex s)) = n" using inv by (simp_all add: rc_inv_def)
  have ok: "rc_pc_ok (rc_pcs s ! i)" "rc_phase (rc_pcs s ! i) (thr (rc_mutex s) ! i)" if "i < n" for i
    using inv that by (auto simp: rc_inv_def)
  have words: "(rc_owner (rc_words s), rc_depth (rc_words s)) = e" if "i < n" "rc_expect (tid i) (rc_pcs s ! i) = Some e" for i e
    using inv that by (cases e) (auto simp: rc_inv_def)
  have alone: "rc_expect (tid j) (rc_pcs s ! j) = None" if "i < n" "j < n" "j \<noteq> i" "rc_expect (tid i) (rc_pcs s ! i) \<noteq> None" for i j
  proof (rule rc_alone[OF reached inv that(1-3)])
    show "holds_mutex (thr (rc_mutex s) ! i)" using expect_phase[OF ok(2)[OF that(1)] that(4)] by simp
  qed
  show ?thesis
  proof (cases ev)
    case (Rc_mutex mv)
    then obtain m where m: "sys_move K (thread_step (mutex_object mtx quantum)) mv (rc_mutex s) = Some m"
      "inside_mutex mv" "s' = s\<lparr>rc_mutex := m\<rparr>" using move by (auto simp del: sys_move.simps split: if_splits)
    have "rc_phase (rc_pcs s ! j) (thr m ! j) \<and> length (thr m) = n" if "j < n" for j
      using inside_phase[OF m(1,2) _ ok(2)[OF that]] that len by simp
    moreover have "length (thr m) = n"
      using reach_length[OF reach_move[OF reached(1) m(1)]] by (simp add: mutex_begin_def)
    ultimately show ?thesis using inv m(3) by (auto simp: rc_inv_def)
  next
    case (Rc_instr i)
    then obtain w pc where r: "i < n" "rc_instr (tid i) (rc_words s) (rc_pcs s ! i) = Some (w, pc)"
      "s' = rc_goto i pc (s\<lparr>rc_mutex := rc_mutex s, rc_words := w\<rparr>)"
      using move len(1) by (auto split: if_splits)
    have "tid i \<noteq> 0" using tids r(1) by (simp add: tids_ok_def)
    note res = instr_result[OF r(2) ok(1)[OF r(1)] this words[OF r(1)]]
    have res: "rc_pc_ok pc" "rc_expect (tid i) (rc_pcs s ! i) = None \<Longrightarrow> w = rc_words s"
      "rc_expect (tid i) pc = None \<longleftrightarrow> rc_expect (tid i) (rc_pcs s ! i) = None"
      "\<And>e. rc_expect (tid i) pc = Some e \<Longrightarrow> (rc_owner w, rc_depth w) = e" "\<And>t. rc_phase (rc_pcs s ! i) t \<Longrightarrow> rc_phase pc t"
      using res owner_expects[OF inv tids r(1)] by blast+
    show ?thesis unfolding r(3)
      by (rule rc_inv_update[OF inv r(1)]) (use len res ok(2)[OF r(1)] alone[OF r(1)] in auto)
  next
    case (Rc_enter i f)
    then obtain k r where o: "i < n" "rc_pcs s ! i = Rc_out k r"
      "s' = rc_goto i (case interface_call f of Inl r \<Rightarrow> Rc_out k (Some r) | Inr c \<Rightarrow> Rc_test k c) s"
      using move len(1) by (auto split: if_splits rc_pc.splits)
    show ?thesis unfolding o(3) goto_same[of _ _ s]
      by (rule rc_inv_update[OF inv o(1)])
        (use len ok[OF o(1)] o(2) alone[OF o(1)] words[OF o(1)] interface_call_ok[of f] in \<open>auto split: sum.splits\<close>)
  next
    case (Rc_leave i)
    then obtain k r where o: "i < n" "rc_pcs s ! i = Rc_out (Suc k) r" "s' = rc_goto i (Rc_release (Suc k)) s"
      using move len(1) by (auto split: if_splits rc_pc.splits nat.splits)
    show ?thesis unfolding o(3) goto_same[of _ _ s]
      by (rule rc_inv_update[OF inv o(1)]) (use len ok[OF o(1)] o(2) alone[OF o(1)] words[OF o(1)] in auto)
  next
    case (Rc_cond i)
    then obtain k r where o: "i < n" "rc_pcs s ! i = Rc_out (Suc k) r" "s' = rc_goto i (Cw_read (Suc k)) s"
      using move len(1) by (auto split: if_splits rc_pc.splits nat.splits)
    show ?thesis unfolding o(3) goto_same[of _ _ s]
      by (rule rc_inv_update[OF inv o(1)]) (use len ok[OF o(1)] o(2) alone[OF o(1)] words[OF o(1)] in auto)
  next
    case (Rc_call i)
    then obtain inp pc m where c: "i < n" "rc_mutex_call (rc_pcs s ! i) = Some (inp, pc)"
      "sys_move K (thread_step (mutex_object mtx quantum)) (Local i inp) (rc_mutex s) = Some m"
      "s' = rc_goto i pc (s\<lparr>rc_mutex := m, rc_words := rc_words s\<rparr>)"
      using move len(1) by (auto simp: rc_goto_def simp del: sys_move.simps split: if_splits option.splits)
    note out = outside_call[OF c(3)]
    obtain mem' where st: "thread_step (mutex_object mtx quantum) inp (mem (rc_mutex s)) (thr (rc_mutex s) ! i) = Some (mem', thr m ! i)"
      using out(4) by blast
    have free: "rc_words s = MCF_gthr_rc_mutex_init" if "rc_expect (tid i) (rc_pcs s ! i) = Some (0, 0)"
      using words[OF c(1) that] by (cases "rc_words s") (simp add: MCF_gthr_rc_mutex_init_def)
    note res = call_result[OF c(2) ok[OF c(1)] st, of "tid i"]
    show ?thesis unfolding c(4)
      by (rule rc_inv_update[OF inv c(1)]) (use len out(2,3) res alone[OF c(1)] free in auto)
  next
    case (Rc_return i)
    then obtain r pc m where c: "i < n" "mutex_result (thr (rc_mutex s) ! i) = Some r" "rc_mutex_return r (rc_pcs s ! i) = Some pc"
      "sys_move K (thread_step (mutex_object mtx quantum)) (Local i Leave) (rc_mutex s) = Some m"
      "s' = rc_goto i pc (s\<lparr>rc_mutex := m, rc_words := rc_words s\<rparr>)"
      using move len(1) by (auto simp: rc_goto_def Option.bind_eq_Some_conv simp del: sys_move.simps split: if_splits option.splits)
    note out = outside_call[OF c(4)]
    obtain mem' where st: "thread_step (mutex_object mtx quantum) Leave (mem (rc_mutex s)) (thr (rc_mutex s) ! i) = Some (mem', thr m ! i)"
      using out(4) by blast
    note res = return_result[OF c(3,2) ok[OF c(1)] st, of "tid i"]
    have others: "rc_expect (tid j) (rc_pcs s ! j) = None" if "rc_expect (tid i) pc \<noteq> None" "j < n" "j \<noteq> i" for j
      using rc_alone[OF reached inv c(1) that(2,3)] res that(1) by blast
    have free: "rc_words s = MCF_gthr_rc_mutex_init" if "rc_expect (tid i) pc \<noteq> None"
    proof -
      have "rc_expect (tid j) (rc_pcs s ! j) = None" if "j < n" for j
        using others[OF \<open>rc_expect (tid i) pc \<noteq> None\<close> that] res by (cases "j = i") auto
      with inv show ?thesis by (simp add: rc_inv_def)
    qed
    show ?thesis unfolding c(5)
    proof (rule rc_inv_update[OF inv c(1)])
      show "(rc_owner (rc_words s), rc_depth (rc_words s)) = e" if "rc_expect (tid i) pc = Some e" for e
        using res free that by (auto simp: MCF_gthr_rc_mutex_init_def)
    qed (use len out(2,3) res others in auto)
  qed
qed

section \<open>Ownership\<close>

lemma rc_inv_begin: "rc_inv n tid (rc_begin n field)"
  by (auto simp: rc_inv_def rc_begin_def mutex_begin_def max_depth_def)

lemma rc_reach_inv:
  assumes "rc_reach K mtx quantum tid (rc_begin n field) s" "n < 2 ^ 55" "tids_ok n tid"
  shows "rc_inv n tid s"
  using assms(1)
proof (induction rule: rc_reach.induct)
  case (rc_next s ev s')
  show ?case by (rule rc_inv_step[OF rc_projects[OF rc_next(1)] assms(2,3) rc_next(3,2)])
qed (rule rc_inv_begin)

text \<open>A run of given events.\<close>

fun rc_moves :: "(ke_event \<Rightarrow> bool) \<Rightarrow> uptr \<Rightarrow> u32 \<Rightarrow> (nat \<Rightarrow> i32) \<Rightarrow> rc_event list \<Rightarrow> rc_sys \<Rightarrow> rc_sys option" where
  "rc_moves K mtx quantum tid [] s = Some s"
| "rc_moves K mtx quantum tid (ev # evs) s =
     Option.bind (rc_move K mtx quantum tid ev s) (rc_moves K mtx quantum tid evs)"

lemma rc_moves_reach:
  "rc_reach K mtx quantum tid s0 s \<Longrightarrow> rc_moves K mtx quantum tid evs s = Some s' \<Longrightarrow> rc_reach K mtx quantum tid s0 s'"
  by (induction evs arbitrary: s) (auto simp: Option.bind_eq_Some_conv simp del: rc_move.simps intro: rc_next)

text \<open>C3. Ownership of a recursive mutex, whatever the interface its threads call, the order
  of their loads and stores, and the kernel's behaviour: no assertion fails but the one against
  overflow of the depth; a thread between two calls is named by the owner word exactly if it has
  levels to give back; the depth word then counts them, and no other thread between two calls has any.\<close>

theorem rc_mutex_ownership:
  assumes "rc_reach K mtx quantum tid (rc_begin n field) s" "n < 2 ^ 55" "tids_ok n tid" and "i < n"
  shows "rc_pcs s ! i \<noteq> Rc_fault \<and>
    (\<forall>k r. rc_pcs s ! i = Rc_out k r \<longrightarrow>
      (rc_owner (rc_words s) = tid i \<longleftrightarrow> 0 < k) \<and>
      (0 < k \<longrightarrow> rc_depth (rc_words s) = of_nat k \<and>
        (\<forall>j < n. \<forall>k' r'. j \<noteq> i \<longrightarrow> rc_pcs s ! j = Rc_out k' r' \<longrightarrow> k' = 0)))"
proof -
  note inv = rc_reach_inv[OF assms(1-3)]
  have "rc_pcs s ! i \<noteq> Rc_fault" using inv assms(4) by (auto simp: rc_inv_def)
  moreover have "rc_owner (rc_words s) = tid i \<longleftrightarrow> 0 < k" if pc: "rc_pcs s ! i = Rc_out k r" for k r
    using owner_expects[OF inv assms(3,4)] inv assms(4) pc by (cases "k = 0") (auto simp: rc_inv_def)
  moreover have "rc_depth (rc_words s) = of_nat k" if "rc_pcs s ! i = Rc_out k r" "0 < k" for k r
    using inv assms(4) that by (auto simp: rc_inv_def)
  moreover have "k' = 0" if "rc_pcs s ! i = Rc_out k r" "0 < k" "j < n" "j \<noteq> i" "rc_pcs s ! j = Rc_out k' r'" for k r j k' r'
  proof -
    have "rc_expect (tid i) (rc_pcs s ! i) \<noteq> None" using that(1,2) by simp
    with inv assms(4) have "thr (rc_mutex s) ! i = Idle True" by (auto simp: rc_inv_def intro!: expect_phase)
    then have "rc_expect (tid j) (rc_pcs s ! j) = None"
      using rc_alone[OF rc_projects[OF assms(1)] assms(2) inv assms(4) that(3,4)] by simp
    with that(5) show ?thesis by (simp split: if_splits)
  qed
  ultimately show ?thesis by blast
qed

text \<open>Thread 0 locks twice, thread 1 fails to lock and then waits for the mutex; thread 0 waits on a
  condition variable, which gives both levels away.\<close>

definition rc_lock_events :: "nat \<Rightarrow> rc_interface \<Rightarrow> rc_event list" where
  "rc_lock_events i f = [Rc_enter i f, Rc_instr i, Rc_call i, Rc_mutex (Local i (Act Step)),
     Rc_mutex (Local i (Act Step)), Rc_return i, Rc_instr i, Rc_instr i]"

definition rc_run :: "rc_event list" where
  "rc_run = rc_lock_events 0 (C11_lock 1) @ [Rc_enter 0 Gthr_lock, Rc_instr 0, Rc_instr 0, Rc_cond 0] @
     replicate 3 (Rc_instr 0) @ [Rc_call 0] @ replicate 5 (Rc_mutex (Local 0 (Act Step))) @ [Rc_return 0] @
     rc_lock_events 1 Libcxx_trylock"

lemma rc_moves_witness:
  assumes "case rc_moves K mtx quantum tid evs s0 of None \<Rightarrow> False | Some s \<Rightarrow> H s"
    and "\<And>s. rc_reach K mtx quantum tid s0 s \<Longrightarrow> H s \<Longrightarrow> C s"
  shows "case rc_moves K mtx quantum tid evs s0 of None \<Rightarrow> False | Some s \<Rightarrow> C s"
  using assms rc_moves_reach[OF rc_start] by (auto split: option.splits)

lemma rc_mutex_ownership_witness:
  "case rc_moves documented_kernel 0x1000 1 (\<lambda>i. of_nat i + 4) rc_run (rc_begin 2 (replicate 8 0)) of
     None \<Rightarrow> False
   | Some s \<Rightarrow> rc_owner (rc_words s) = 5 \<and> rc_depth (rc_words s) = 1"
proof (rule rc_moves_witness[where H = "\<lambda>s. case rc_pcs s ! 1 of Rc_out k r \<Rightarrow> k = 1 | _ \<Rightarrow> False"])
  show "case rc_moves documented_kernel 0x1000 1 (\<lambda>i. of_nat i + 4) rc_run (rc_begin 2 (replicate 8 0)) of
      None \<Rightarrow> False | Some s \<Rightarrow> case rc_pcs s ! 1 of Rc_out k r \<Rightarrow> k = 1 | _ \<Rightarrow> False"
    by code_simp
  have "tids_ok 2 (\<lambda>i. of_nat i + 4)" by (auto simp: tids_ok_def inj_on_def less_2_cases_iff)
  then show "rc_owner (rc_words s) = 5 \<and> rc_depth (rc_words s) = 1"
    if "rc_reach documented_kernel 0x1000 1 (\<lambda>i. of_nat i + 4) (rc_begin 2 (replicate 8 0)) s"
      "case rc_pcs s ! 1 of Rc_out k r \<Rightarrow> k = 1 | _ \<Rightarrow> False" for s
    using rc_mutex_ownership[OF that(1), of 1] that(2) by (auto split: rc_pc.splits)
qed

end
