(* ===== verification/Gthr_Locks.thy ===== *)
theory Gthr_Locks
  imports Mcf_Cxa Mcf_Shared_Mutex Mcf_Cond Gthr_Rc_Mutex
begin

text \<open>
  The locks of \<open>gthr.h\<close>, \<open>libcxx.h\<close> and \<open>gthr_libobjc.h\<close>, the condition variables of these and
  of \<open>c11.h\<close>, and the callbacks of \<open>src/gthr_aux.c\<close> that unlock and relock a mutex or a shared
  mutex. A function that locks is a call of the machine of its lock with a timeout, whose result
  it replaces by its own; \<open>None\<close> in the place of the result is a failed \<open>__MCF_ASSERT\<close>. A time point
  is the number that \<open>__MCF_gthr_timeout_from_timespec\<close> makes of it.
\<close>

section \<open>Calls and their results\<close>

type_synonym 'm call = "'m schedule \<Rightarrow> 'm \<Rightarrow> (int \<times> 'm \<times> 'm schedule) option"
type_synonym 'm wrapped = "'m schedule \<Rightarrow> 'm \<Rightarrow> (int option \<times> 'm \<times> 'm schedule) option"

definition returning :: "(int \<Rightarrow> int option) \<Rightarrow> 'm call \<Rightarrow> 'm wrapped" where
  "returning f call sch m = map_option (\<lambda>(err, m, sch). (f err, m, sch)) (call sch m)"

text \<open>What the functions make of the result of a lock or a wait.\<close>

definition must_be_zero :: "int \<Rightarrow> int \<Rightarrow> int option" where
  "must_be_zero success err = (if err = 0 then Some success else None)"

definition or_code :: "int \<Rightarrow> int \<Rightarrow> int \<Rightarrow> int option" where
  "or_code code success err = Some (if err \<noteq> 0 then code else success)"

definition is_zero :: "int \<Rightarrow> int option" where
  "is_zero err = Some (of_bool (err = 0))"

definition always :: "int \<Rightarrow> int \<Rightarrow> int option" where
  "always success err = Some success"

section \<open>Mutexes\<close>

type_synonym mutex_mem = "MCF_mutex \<times> spin_field"

abbreviation lock_mutex :: "uptr \<Rightarrow> u32 \<Rightarrow> i64 option \<Rightarrow> mutex_mem call" where
  "lock_mutex mtx quantum timeout sch m \<equiv> run_wait (MCF_mutex_lock_slow mtx quantum) sch m (WFast timeout)"

abbreviation unlock_mutex :: "uptr \<Rightarrow> mutex_mem call" where
  "unlock_mutex mtx sch m \<equiv> run_signal (MCF_mutex_unlock_slow mtx) sch m SFast"

definition MCF_gthr_mutex_init :: "int \<times> MCF_mutex" where
  "MCF_gthr_mutex_init = (0, MCF_mutex_init)"

definition MCF_gthr_mutex_lock :: "uptr \<Rightarrow> u32 \<Rightarrow> mutex_mem wrapped" where
  "MCF_gthr_mutex_lock mtx quantum = returning (must_be_zero 0) (lock_mutex mtx quantum None)"

definition MCF_gthr_mutex_trylock :: "uptr \<Rightarrow> u32 \<Rightarrow> mutex_mem wrapped" where
  "MCF_gthr_mutex_trylock mtx quantum = returning (or_code EBUSY 0) (lock_mutex mtx quantum (Some 0))"

definition MCF_gthr_mutex_timedlock :: "uptr \<Rightarrow> u32 \<Rightarrow> i64 \<Rightarrow> mutex_mem wrapped" where
  "MCF_gthr_mutex_timedlock mtx quantum abs_time =
     returning (or_code ETIMEDOUT 0) (lock_mutex mtx quantum (Some abs_time))"

definition MCF_gthr_mutex_unlock :: "uptr \<Rightarrow> mutex_mem wrapped" where
  "MCF_gthr_mutex_unlock mtx = returning (always 0) (unlock_mutex mtx)"

definition MCF_libcxx_mutex_init :: "int \<times> MCF_mutex" where
  "MCF_libcxx_mutex_init = (0, MCF_mutex_init)"

definition MCF_libcxx_mutex_lock :: "uptr \<Rightarrow> u32 \<Rightarrow> mutex_mem wrapped" where
  "MCF_libcxx_mutex_lock mtx quantum = returning (must_be_zero 0) (lock_mutex mtx quantum None)"

definition MCF_libcxx_mutex_trylock :: "uptr \<Rightarrow> u32 \<Rightarrow> mutex_mem wrapped" where
  "MCF_libcxx_mutex_trylock mtx quantum = returning is_zero (lock_mutex mtx quantum (Some 0))"

definition MCF_libcxx_mutex_unlock :: "uptr \<Rightarrow> mutex_mem wrapped" where
  "MCF_libcxx_mutex_unlock mtx = returning (always 0) (unlock_mutex mtx)"

text \<open>The mutex of an Objective-C mutex is in its field \<open>backend\<close>, at \<open>mtx\<close>.\<close>

definition MCF_gthr_objc_mutex_allocate :: "int \<times> MCF_mutex" where
  "MCF_gthr_objc_mutex_allocate = (0, MCF_mutex_init)"

definition MCF_gthr_objc_mutex_lock :: "uptr \<Rightarrow> u32 \<Rightarrow> mutex_mem wrapped" where
  "MCF_gthr_objc_mutex_lock mtx quantum = returning (must_be_zero 0) (lock_mutex mtx quantum None)"

definition MCF_gthr_objc_mutex_trylock :: "uptr \<Rightarrow> u32 \<Rightarrow> mutex_mem wrapped" where
  "MCF_gthr_objc_mutex_trylock mtx quantum = returning Some (lock_mutex mtx quantum (Some 0))"

definition MCF_gthr_objc_mutex_unlock :: "uptr \<Rightarrow> mutex_mem wrapped" where
  "MCF_gthr_objc_mutex_unlock mtx = returning (always 0) (unlock_mutex mtx)"

section \<open>Shared mutexes\<close>

type_synonym shared_mem = "MCF_shared_mutex \<times> unit"

abbreviation lock_shared :: "bool \<Rightarrow> i64 option \<Rightarrow> shared_mem call" where
  "lock_shared shared timeout sch m \<equiv>
     run_wait (if shared then MCF_shared_mutex_lock_shared_slow else MCF_shared_mutex_lock_exclusive_slow) sch m (WFast timeout)"

definition MCF_gthr_rwlock_init :: "int \<times> MCF_shared_mutex" where
  "MCF_gthr_rwlock_init = (0, MCF_shared_mutex_init)"

definition MCF_gthr_rwlock_rdlock :: "shared_mem wrapped" where
  "MCF_gthr_rwlock_rdlock = returning (must_be_zero 0) (lock_shared True None)"

definition MCF_gthr_rwlock_tryrdlock :: "shared_mem wrapped" where
  "MCF_gthr_rwlock_tryrdlock = returning (or_code EBUSY 0) (lock_shared True (Some 0))"

definition MCF_gthr_rwlock_timedrdlock :: "i64 \<Rightarrow> shared_mem wrapped" where
  "MCF_gthr_rwlock_timedrdlock abs_time = returning (or_code ETIMEDOUT 0) (lock_shared True (Some abs_time))"

definition MCF_gthr_rwlock_wrlock :: "shared_mem wrapped" where
  "MCF_gthr_rwlock_wrlock = returning (must_be_zero 0) (lock_shared False None)"

definition MCF_gthr_rwlock_trywrlock :: "shared_mem wrapped" where
  "MCF_gthr_rwlock_trywrlock = returning (or_code EBUSY 0) (lock_shared False (Some 0))"

definition MCF_gthr_rwlock_timedwrlock :: "i64 \<Rightarrow> shared_mem wrapped" where
  "MCF_gthr_rwlock_timedwrlock abs_time = returning (or_code ETIMEDOUT 0) (lock_shared False (Some abs_time))"

definition MCF_gthr_rwlock_unlock :: "shared_mem wrapped" where
  "MCF_gthr_rwlock_unlock = returning (always 0) (\<lambda>sch m. run_signal MCF_shared_mutex_unlock_slow sch m SFast)"

section \<open>Waiting on a condition variable with a lock\<close>

text \<open>
  The callbacks work on the lock in one step: the state of the client is the lock, or \<open>None\<close> once an
  assertion has failed or when the lock is not free where it is relocked (the code would wait for
  it there).
\<close>

definition MCF_gthr_mutex_unlock_callback :: "MCF_mutex option unlock_callback" where
  "MCF_gthr_mutex_unlock_callback u = (Option.bind u unlock_alone, 0)"

definition MCF_gthr_mutex_relock_callback :: "MCF_mutex option relock_callback" where
  "MCF_gthr_mutex_relock_callback u value = (if value = 0 then Option.bind u lock_alone else None)"

definition shared_unlock_alone :: "MCF_shared_mutex \<Rightarrow> MCF_shared_mutex option" where
  "shared_unlock_alone w = (case shared_unlock_try w of SSwap w' _ _ \<Rightarrow> Some w' | _ \<Rightarrow> None)"

definition shared_lock_alone :: "bool \<Rightarrow> MCF_shared_mutex \<Rightarrow> MCF_shared_mutex option" where
  "shared_lock_alone shared w = (case shared_try shared False w of SwapGive w' _ \<Rightarrow> Some w' | _ \<Rightarrow> None)"

definition MCF_gthr_shared_mutex_unlock_callback :: "MCF_shared_mutex option unlock_callback" where
  "MCF_gthr_shared_mutex_unlock_callback u = (Option.bind u shared_unlock_alone, 0)"

definition MCF_gthr_shared_mutex_relock_shared_callback :: "MCF_shared_mutex option relock_callback" where
  "MCF_gthr_shared_mutex_relock_shared_callback u value =
     (if value = 0 then Option.bind u (shared_lock_alone True) else None)"

definition MCF_gthr_shared_mutex_relock_exclusive_callback :: "MCF_shared_mutex option relock_callback" where
  "MCF_gthr_shared_mutex_relock_exclusive_callback u value =
     (if value = 0 then Option.bind u (shared_lock_alone False) else None)"

text \<open>The callbacks of a recursive mutex, run without interruption.\<close>

fun rc_instrs :: "nat \<Rightarrow> i32 \<Rightarrow> MCF_gthr_rc_mutex \<times> rc_pc \<Rightarrow> (MCF_gthr_rc_mutex \<times> rc_pc) option" where
  "rc_instrs 0 me mp = Some mp"
| "rc_instrs (Suc k) me (m, pc) = Option.bind (rc_instr me m pc) (rc_instrs k me)"

type_synonym rc_lock = "MCF_gthr_rc_mutex \<times> MCF_mutex"

definition rc_unlock_alone :: "i32 \<Rightarrow> rc_lock option unlock_callback" where
  "rc_unlock_alone me u =
     (case u of
        None \<Rightarrow> (None, 0)
      | Some (m, w) \<Rightarrow>
          (case rc_instrs 3 me (m, Cw_read 1) of
             Some (m', Cw_unlock _ value) \<Rightarrow> (map_option (\<lambda>w'. (m', w')) (unlock_alone w), value)
           | _ \<Rightarrow> (None, 0)))"

definition rc_relock_alone :: "i32 \<Rightarrow> rc_lock option relock_callback" where
  "rc_relock_alone me u value = do {
     (m, w) \<leftarrow> u;
     w' \<leftarrow> lock_alone w;
     r \<leftarrow> rc_instrs 2 me (m, Cw_take 1 value);
     (case r of (m', Rc_out _ _) \<Rightarrow> Some (m', w') | _ \<Rightarrow> None) }"

type_synonym 'l cond_call = "(MCF_cond \<times> 'l option cond_env) call"
type_synonym 'l cond_wrapped = "(MCF_cond \<times> 'l option cond_env) wrapped"

definition MCF_gthr_cond_mutex_wait :: "nat \<Rightarrow> i64 option \<Rightarrow> MCF_mutex cond_call" where
  "MCF_gthr_cond_mutex_wait tid =
     MCF_cond_wait tid (Some MCF_gthr_mutex_unlock_callback) (Some MCF_gthr_mutex_relock_callback)"

definition MCF_gthr_cond_shared_mutex_wait_shared :: "nat \<Rightarrow> i64 option \<Rightarrow> MCF_shared_mutex cond_call" where
  "MCF_gthr_cond_shared_mutex_wait_shared tid =
     MCF_cond_wait tid (Some MCF_gthr_shared_mutex_unlock_callback) (Some MCF_gthr_shared_mutex_relock_shared_callback)"

definition MCF_gthr_cond_shared_mutex_wait_exclusive :: "nat \<Rightarrow> i64 option \<Rightarrow> MCF_shared_mutex cond_call" where
  "MCF_gthr_cond_shared_mutex_wait_exclusive tid =
     MCF_cond_wait tid (Some MCF_gthr_shared_mutex_unlock_callback) (Some MCF_gthr_shared_mutex_relock_exclusive_callback)"

definition MCF_gthr_cond_recursive_mutex_wait :: "nat \<Rightarrow> i32 \<Rightarrow> i64 option \<Rightarrow> rc_lock cond_call" where
  "MCF_gthr_cond_recursive_mutex_wait tid me =
     MCF_cond_wait tid (Some (rc_unlock_alone me)) (Some (rc_relock_alone me))"

definition MCF_gthr_cond_wait :: "nat \<Rightarrow> MCF_mutex cond_wrapped" where
  "MCF_gthr_cond_wait tid = returning (must_be_zero 0) (MCF_gthr_cond_mutex_wait tid None)"

definition MCF_gthr_cond_wait_recursive :: "nat \<Rightarrow> i32 \<Rightarrow> rc_lock cond_wrapped" where
  "MCF_gthr_cond_wait_recursive tid me = returning (must_be_zero 0) (MCF_gthr_cond_recursive_mutex_wait tid me None)"

definition MCF_gthr_cond_timedwait :: "nat \<Rightarrow> i64 \<Rightarrow> MCF_mutex cond_wrapped" where
  "MCF_gthr_cond_timedwait tid abs_time =
     returning (or_code ETIMEDOUT 0) (MCF_gthr_cond_mutex_wait tid (Some abs_time))"

definition MCF_c11_cnd_wait :: "nat \<Rightarrow> i32 \<Rightarrow> rc_lock cond_wrapped" where
  "MCF_c11_cnd_wait tid me = returning (must_be_zero thrd_success) (MCF_gthr_cond_recursive_mutex_wait tid me None)"

definition MCF_c11_cnd_timedwait :: "nat \<Rightarrow> i32 \<Rightarrow> i64 \<Rightarrow> rc_lock cond_wrapped" where
  "MCF_c11_cnd_timedwait tid me ts =
     returning (or_code thrd_timedout thrd_success) (MCF_gthr_cond_recursive_mutex_wait tid me (Some ts))"

definition MCF_libcxx_condvar_wait :: "nat \<Rightarrow> MCF_mutex cond_wrapped" where
  "MCF_libcxx_condvar_wait tid = returning (must_be_zero 0) (MCF_gthr_cond_mutex_wait tid None)"

definition MCF_libcxx_condvar_timedwait :: "nat \<Rightarrow> i64 \<Rightarrow> MCF_mutex cond_wrapped" where
  "MCF_libcxx_condvar_timedwait tid abs_time =
     returning (or_code ETIMEDOUT 0) (MCF_gthr_cond_mutex_wait tid (Some abs_time))"

definition MCF_gthr_objc_condition_wait :: "nat \<Rightarrow> MCF_mutex cond_wrapped" where
  "MCF_gthr_objc_condition_wait tid = returning (must_be_zero 0) (MCF_gthr_cond_mutex_wait tid None)"

text \<open>Signals, with their success code.\<close>

definition MCF_gthr_cond_signal :: "(MCF_cond \<times> 'u cond_env) wrapped" where
  "MCF_gthr_cond_signal = returning (always 0) (\<lambda>sch m. run_signal MCF_cond_signal sch m SFast)"

definition MCF_gthr_cond_broadcast :: "(MCF_cond \<times> 'u cond_env) wrapped" where
  "MCF_gthr_cond_broadcast = returning (always 0) (\<lambda>sch m. run_signal MCF_cond_signal_all sch m SFast)"

definition MCF_c11_cnd_signal :: "(MCF_cond \<times> 'u cond_env) wrapped" where
  "MCF_c11_cnd_signal = returning (always thrd_success) (\<lambda>sch m. run_signal MCF_cond_signal sch m SFast)"

definition MCF_c11_cnd_broadcast :: "(MCF_cond \<times> 'u cond_env) wrapped" where
  "MCF_c11_cnd_broadcast = returning (always thrd_success) (\<lambda>sch m. run_signal MCF_cond_signal_all sch m SFast)"

definition MCF_libcxx_condvar_signal :: "(MCF_cond \<times> 'u cond_env) wrapped" where
  "MCF_libcxx_condvar_signal = returning (always 0) (\<lambda>sch m. run_signal MCF_cond_signal sch m SFast)"

definition MCF_libcxx_condvar_broadcast :: "(MCF_cond \<times> 'u cond_env) wrapped" where
  "MCF_libcxx_condvar_broadcast = returning (always 0) (\<lambda>sch m. run_signal MCF_cond_signal_all sch m SFast)"

definition MCF_gthr_objc_condition_signal :: "(MCF_cond \<times> 'u cond_env) wrapped" where
  "MCF_gthr_objc_condition_signal = returning (always 0) (\<lambda>sch m. run_signal MCF_cond_signal sch m SFast)"

definition MCF_gthr_objc_condition_broadcast :: "(MCF_cond \<times> 'u cond_env) wrapped" where
  "MCF_gthr_objc_condition_broadcast = returning (always 0) (\<lambda>sch m. run_signal MCF_cond_signal_all sch m SFast)"

section \<open>Results of a call\<close>

text \<open>What holds wherever a call with any timeout returns.\<close>

lemma run_wait_results:
  fixes ops :: "('w, 'f, 'x) wait_ops"
  assumes run: "run_wait ops sch m (WFast t) = Some (r, m', sch')"
    and fast: "\<And>w r m. w_fast ops w = FGive r \<Longrightarrow> Q r m"
      "\<And>w w' r f. w_fast ops w = FSwap w' r \<Longrightarrow> Q r (w', f)"
    and attempt: "\<And>z w r m. w_try ops z w = Give r \<Longrightarrow> Q r m"
      "\<And>z w w' r f. w_try ops z w = SwapGive w' r \<Longrightarrow> Q r (w', f)"
    and ext: "\<And>e m nt x m' r. w_ext ops e m nt x = Some (m', WRet r) \<Longrightarrow> Q r m'"
    and leave: "\<And>w w' r f. w_leave ops w = Some (w', r) \<Longrightarrow> Q r (w', f)"
    and woken: "\<And>m. \<not> w_retry ops \<Longrightarrow> Q 0 m"
  shows "Q r m'"
proof -
  define I where "I = (\<lambda>m (pc :: ('w, 'x) wpc). \<forall>r. w_returned pc = Some r \<longrightarrow> Q r m)"
  have "I m (WFast t)" by (simp add: I_def)
  then have "\<exists>pc'. w_returned pc' = Some r \<and> I m' pc'"
  proof (rule run_call_invariant[OF run])
    fix e i m pc m' pc'
    assume step: "wait_step ops e (i m) pc = Some (m', pc')"
    show "I m' pc'"
    proof (cases pc)
      case (WFTry t old)
      with step fast show ?thesis
        by (cases m') (auto simp: I_def split: fact.splits if_splits dest!: cas_SomeD)
    next
      case (WTry nt old)
      with step attempt show ?thesis
        by (cases m') (auto simp: I_def split: wact.splits if_splits dest!: cas_SomeD)
    next
      case (WExt nt x)
      with step have "w_ext ops e (i m) nt x = Some (m', pc')" by simp
      then show ?thesis by (auto simp: I_def w_returned_iff intro: ext)
    next
      case (WLeave nt old)
      with step leave show ?thesis
        by (cases m') (auto simp: I_def split: option.splits if_splits dest!: cas_SomeD)
    next
      case (WSleep nt)
      with step show ?thesis by (auto simp: I_def woken_def split: env.splits if_splits intro: woken)
    next
      case (WResleep nt)
      with step show ?thesis by (auto simp: I_def woken_def split: env.splits if_splits intro: woken)
    qed (use step in \<open>auto simp: I_def split: env.splits if_splits\<close>)
  qed
  then show ?thesis by (auto simp: I_def)
qed

lemma mutex_call_results:
  assumes "lock_mutex mtx quantum t sch m = Some (r, m', sch')"
  shows "r = 0 \<and> mtx_locked (fst m') = 1 \<or> r = - 1"
proof (rule run_wait_results[OF assms, where Q = "\<lambda>r m. r = 0 \<and> mtx_locked (fst m) = 1 \<or> r = - 1"])
  show "r = 0 \<and> mtx_locked (fst m') = 1 \<or> r = - 1"
    if "w_ext (MCF_mutex_lock_slow mtx quantum) e m nt x = Some (m', WRet r)" for e m nt x m' r
    using that by (cases x) (auto simp: mutex_defs cas_iff split: option.splits if_splits env.splits)
qed (auto simp: mutex_defs mutex_lock_fast split: if_splits option.splits)

lemma mutex_call_forever:
  assumes "lock_mutex mtx quantum None sch m = Some (r, m', sch')"
  shows "r = 0"
proof (rule run_wait_forever[OF assms, where Q = "\<lambda>r m. r = 0"])
  show "unexpired pc' \<and> (\<forall>r. pc' = WRet r \<longrightarrow> r = 0)"
    if "w_ext (MCF_mutex_lock_slow mtx quantum) e m timeout_infinite x = Some (m', pc')" for e m x m' pc'
    using mutex_ext_forever[OF that] by blast
qed (auto simp: mutex_defs split: if_splits)

lemma shared_call_results:
  assumes "lock_shared shared t sch m = Some (r, m', sch')"
  shows "r = 0 \<and> smtx_nshare (fst m') \<noteq> 0 \<and> (shared \<longleftrightarrow> smtx_nshare (fst m') \<noteq> 0x3FFF) \<or> r = - 1"
proof -
  from assms have "run_wait (do_lock_common shared) sch m (WFast t) = Some (r, m', sch')"
    by (auto simp: MCF_shared_mutex_lock_shared_slow_def MCF_shared_mutex_lock_exclusive_slow_def split: if_splits)
  then show ?thesis
    by (rule run_wait_results[where
        Q = "\<lambda>r m. r = 0 \<and> smtx_nshare (fst m) \<noteq> 0 \<and> (shared \<longleftrightarrow> smtx_nshare (fst m) \<noteq> 0x3FFF) \<or> r = - 1"])
      (auto simp: shared_defs nshare_inc split: if_splits)
qed

lemma shared_call_forever:
  assumes "lock_shared shared None sch m = Some (r, m', sch')"
  shows "r = 0"
proof -
  from assms have "run_wait (do_lock_common shared) sch m (WFast None) = Some (r, m', sch')"
    by (auto simp: MCF_shared_mutex_lock_shared_slow_def MCF_shared_mutex_lock_exclusive_slow_def split: if_splits)
  then show ?thesis
    by (rule run_wait_forever[where Q = "\<lambda>r m. r = 0"])
      (auto simp: do_lock_common_def shared_try_def MCF_shared_mutex_lock_shared_def MCF_shared_mutex_lock_exclusive_def
        Let_def split: if_splits)
qed

lemma undisturbed_mutex:
  "lock_mutex mtx quantum (Some 0) (alone [Step, Step, Clock now, Step, Step]) (w, field) =
    Some (if mtx_locked w = 0 then 0 else - 1,
          (if mtx_locked w = 0 then mutex_taken w (mtx_sp_mask w) else w, field),
          if mtx_locked w = 0 then alone [Clock now, Step, Step] else [])"
  by (simp add: MCF_mutex_lock_slow_def mutex_lock_fast mutex_try_def)

section \<open>Results of the interfaces\<close>

text \<open>What holds for the result and the lock of every call that returns, whatever other threads do.\<close>

definition outcome :: "('w \<times> 'f) wrapped \<Rightarrow> (int option \<Rightarrow> 'w \<Rightarrow> bool) \<Rightarrow> bool" where
  "outcome call P \<longleftrightarrow> (\<forall>sch m r m' sch'. call sch m = Some (r, m', sch') \<longrightarrow> P r (fst m'))"

lemma outcome_returning:
  "(\<And>sch m err m' sch'. call sch m = Some (err, m', sch') \<Longrightarrow> P (f err) (fst m')) \<Longrightarrow> outcome (returning f call) P"
  by (auto simp: outcome_def returning_def)

lemma mutex_outcome:
  "outcome (returning (must_be_zero 0) (lock_mutex mtx quantum None)) (\<lambda>r w. r = Some 0 \<and> mtx_locked w = 1)"
  "outcome (returning f (lock_mutex mtx quantum t)) (\<lambda>r w. r = f 0 \<and> mtx_locked w = 1 \<or> r = f (- 1))"
  by (rule outcome_returning; frule mutex_call_results; auto simp: must_be_zero_def dest: mutex_call_forever)+

definition shared_taken :: "bool \<Rightarrow> MCF_shared_mutex \<Rightarrow> bool" where
  "shared_taken shared w \<longleftrightarrow> (if shared then smtx_nshare w \<noteq> 0 \<and> smtx_nshare w \<noteq> 0x3FFF else smtx_nshare w = 0x3FFF)"

lemma shared_outcome:
  "outcome (returning (must_be_zero 0) (lock_shared shared None)) (\<lambda>r w. r = Some 0 \<and> shared_taken shared w)"
  "outcome (returning f (lock_shared shared t)) (\<lambda>r w. r = f 0 \<and> shared_taken shared w \<or> r = f (- 1))"
  by (rule outcome_returning; frule shared_call_results; force simp: must_be_zero_def shared_taken_def dest: shared_call_forever)+

lemma undisturbed_shared:
  "lock_shared shared (Some 0) (alone [Step, Step, Clock now, Step, Step]) (w, ()) =
    (let ok = (if shared then smtx_nshare w < 16382 \<and> smtx_nsleep w = 0 else smtx_nshare w = 0) in
     Some (if ok then 0 else - 1, (if ok then w\<lparr>smtx_nshare := if shared then smtx_nshare w + 1 else 0x3FFF\<rparr> else w, ()),
           if ok then alone [Clock now, Step, Step] else []))"
  by (auto simp: shared_defs Let_def)


section \<open>What a wait on a condition variable leaves\<close>

lemma cond_call_end:
  assumes "MCF_cond_wait tid (Some unlock) (Some relock) timeout_opt sch m = Some (err, m', sch')"
    and "\<forall>(e, g) \<in> set sch. \<forall>m. unlocked (snd (g m)) tid = unlocked (snd m) tid"
  shows "\<exists>u v. user (snd m') = relock v (snd (unlock u))" "err = 0 \<or> err = - 1 \<and> timeout_opt \<noteq> None"
proof -
  obtain m1 where run: "run_wait (do_unlock_and_wait tid (Some unlock)) sch m (WInit timeout_opt) = Some (err, m1, sch')"
    and m': "m' = (fst m1, (snd m1)\<lparr>user := relock (user (snd m1)) (unlocked (snd m1) tid)\<rparr>)"
    using assms(1) by (auto simp: MCF_cond_wait_def split: option.splits)
  obtain u where "unlocked (snd m1) tid = snd (unlock u)" using cond_wait_run[OF run assms(2)] by blast
  then have "user (snd m') = relock (user (snd m1)) (snd (unlock u))" by (simp add: m')
  then show "\<exists>u v. user (snd m') = relock v (snd (unlock u))" by blast
  show "err = 0 \<or> err = - 1 \<and> timeout_opt \<noteq> None" using cond_wait_run[OF run assms(2)] by blast
qed

lemma lock_alone_locked: "lock_alone w = Some w' \<Longrightarrow> mtx_locked w' = 1"
  by (auto simp: lock_alone_def mutex_try_def mutex_taken_def split: if_splits)

lemma mutex_relocked: "MCF_gthr_mutex_relock_callback u v = Some w \<Longrightarrow> mtx_locked w = 1"
  by (auto simp: MCF_gthr_mutex_relock_callback_def Option.bind_eq_Some_conv lock_alone_locked split: if_splits)

lemma shared_relocked:
  "MCF_gthr_shared_mutex_relock_shared_callback u v = Some w \<Longrightarrow> shared_taken True w"
  "MCF_gthr_shared_mutex_relock_exclusive_callback u v = Some w \<Longrightarrow> shared_taken False w"
  by (auto simp: MCF_gthr_shared_mutex_relock_shared_callback_def MCF_gthr_shared_mutex_relock_exclusive_callback_def
      Option.bind_eq_Some_conv shared_lock_alone_def shared_try_def shared_taken_def nshare_inc split: if_splits)

text \<open>The depth goes through the condition variable unchanged.\<close>

lemma rc_relocked:
  assumes "rc_relock_alone me v (snd (rc_unlock_alone me u)) = Some (m', w')"
  shows "mtx_locked w' = 1 \<and> rc_owner m' = me \<and> (\<exists>m w. u = Some (m, w) \<and> rc_depth m' = rc_depth m)"
proof -
  obtain d where d: "d = snd (rc_unlock_alone me u)" by blast
  have "0 <s d \<and> mtx_locked w' = 1 \<and> rc_owner m' = me \<and> rc_depth m' = ucast d"
    using assms unfolding d[symmetric]
    by (auto simp: rc_relock_alone_def Option.bind_eq_Some_conv numeral_2_eq_2 rc_instr_def lock_alone_locked split: if_splits)
  moreover have "\<exists>m w. u = Some (m, w) \<and> d = scast (rc_depth m)" if "0 <s d"
    using that unfolding d
    by (auto simp: rc_unlock_alone_def numeral_3_eq_3 rc_instr_def Let_def split: option.splits if_splits)
  moreover have "ucast (scast x :: i64) = x" for x :: i32 by (rule bit_word_eqI) (simp add: bit_simps)
  ultimately show ?thesis by auto
qed

text \<open>For calls that return with the lock relocked, and other threads that leave the local variable of the
  calling thread alone.\<close>

definition cond_outcome :: "nat \<Rightarrow> 'l cond_wrapped \<Rightarrow> (int option \<Rightarrow> 'l \<Rightarrow> bool) \<Rightarrow> bool" where
  "cond_outcome tid call P \<longleftrightarrow>
     (\<forall>sch m r m' sch' l. (\<forall>(e, g) \<in> set sch. \<forall>m. unlocked (snd (g m)) tid = unlocked (snd m) tid) \<longrightarrow>
        call sch m = Some (r, m', sch') \<longrightarrow> user (snd m') = Some l \<longrightarrow> P r l)"

lemma cond_outcome_returning:
  assumes "\<And>u v l. relock v (snd (unlock u)) = Some l \<Longrightarrow> Q l"
  shows "cond_outcome tid (returning f (MCF_cond_wait tid (Some unlock) (Some relock) t))
    (\<lambda>r l. Q l \<and> (r = f 0 \<or> t \<noteq> None \<and> r = f (- 1)))"
  unfolding cond_outcome_def returning_def
proof (intro allI impI)
  fix sch m r m' sch' l
  assume mine: "\<forall>(e, g) \<in> set sch. \<forall>m. unlocked (snd (g m)) tid = unlocked (snd m) tid"
    and call: "map_option (\<lambda>(err, m, sch). (f err, m, sch)) (MCF_cond_wait tid (Some unlock) (Some relock) t sch m) = Some (r, m', sch')"
    and l: "user (snd m') = Some l"
  from call obtain err where c: "MCF_cond_wait tid (Some unlock) (Some relock) t sch m = Some (err, m', sch')" "r = f err"
    by (auto simp: map_option_case split: option.splits)
  from cond_call_end[OF c(1) mine] l c(2) assms show "Q l \<and> (r = f 0 \<or> t \<noteq> None \<and> r = f (- 1))"
    by fastforce
qed

lemma cond_outcome_weaken: "cond_outcome tid call P \<Longrightarrow> (\<And>r l. P r l \<Longrightarrow> P' r l) \<Longrightarrow> cond_outcome tid call P'"
  unfolding cond_outcome_def by blast

lemmas cond_outcomes =
  cond_outcome_returning[where unlock = MCF_gthr_mutex_unlock_callback and relock = MCF_gthr_mutex_relock_callback and
    Q = "\<lambda>w. mtx_locked w = 1", OF mutex_relocked, folded MCF_gthr_cond_mutex_wait_def]
  cond_outcome_returning[where unlock = "rc_unlock_alone me" and relock = "rc_relock_alone me" and
    Q = "\<lambda>(m, w). mtx_locked w = 1 \<and> rc_owner m = me" for me, folded MCF_gthr_cond_recursive_mutex_wait_def]

text \<open>A thread that owns a recursive mutex three times waits and is woken.\<close>

lemma cond_wait_recursive_example:
  "map_option (\<lambda>(r, m, _). (r, user (snd m)))
     (MCF_gthr_cond_wait_recursive 0 7 (alone [Clock 0, Step, Step, Step, Sys False 0, Wake])
       (MCF_cond_init, \<lparr>user = Some (\<lparr>rc_owner = 7, rc_depth = 3\<rparr>, MCF_mutex_init\<lparr>mtx_locked := 1\<rparr>), unlocked = \<lambda>_. 0\<rparr>)) =
   Some (Some 0, Some (\<lparr>rc_owner = 7, rc_depth = 3\<rparr>, MCF_mutex_init\<lparr>mtx_locked := 1\<rparr>))"
  by code_simp


end
