(* ===== verification/Gthr_Once.thy ===== *)
theory Gthr_Once
  imports Mcf_Once
begin

text \<open>
  One-time initialisation with a callback: \<open>__MCF_gthr_call_once_seh\<close> of \<open>gthr_aux.h\<close>, the two
  functions of \<open>src/xglobals.c\<close> behind it, and their callers in \<open>gthr.h\<close>, \<open>c11.h\<close> and
  \<open>libcxx.h\<close>. The callback works on a state of its own. It returns, or it raises an exception; then
  the handler is called with the flags of each pass, and the last pass unwinds the stack.
\<close>

section \<open>The functions\<close>

type_synonym once_mem = "MCF_once \<times> unit"

datatype init_end = Init_returns | Init_raises "u32 list"

definition EXCEPTION_UNWINDING :: u32 where
  "EXCEPTION_UNWINDING = 2"

text \<open>The handler always goes on with the search.\<close>

definition do_call_once_seh_unwind :: "u32 \<Rightarrow> once_mem schedule \<Rightarrow> once_mem \<Rightarrow> (once_mem \<times> once_mem schedule) option" where
  "do_call_once_seh_unwind flags sch m =
     (if flags AND EXCEPTION_UNWINDING \<noteq> 0 then
        map_option (\<lambda>(_, m, sch). (m, sch)) (run_signal MCF_once_abort sch m SFast)
      else Some (m, sch))"

fun unwind_passes :: "u32 list \<Rightarrow> once_mem schedule \<Rightarrow> once_mem \<Rightarrow> (once_mem \<times> once_mem schedule) option" where
  "unwind_passes [] sch m = Some (m, sch)"
| "unwind_passes (flags # passes) sch m =
     Option.bind (do_call_once_seh_unwind flags sch m) (\<lambda>(m, sch). unwind_passes passes sch m)"

text \<open>How the call ends: the flag was ready, the callback returned, or its exception goes on to the
  caller.\<close>

datatype once_end = Was_ready | Ran | Raised

definition MCF_gthr_call_once_seh_take_over :: "('u \<Rightarrow> init_end \<times> 'u) \<Rightarrow> once_mem schedule \<Rightarrow> 'u \<Rightarrow> once_mem \<Rightarrow>
    (once_end \<times> 'u \<times> once_mem \<times> once_mem schedule) option" where
  "MCF_gthr_call_once_seh_take_over init_proc sch u m =
     (case init_proc u of
        (Init_returns, u) \<Rightarrow> map_option (\<lambda>(_, m, sch). (Ran, u, m, sch)) (run_signal MCF_once_release sch m SFast)
      | (Init_raises passes, u) \<Rightarrow> map_option (\<lambda>(m, sch). (Raised, u, m, sch)) (unwind_passes passes sch m))"

definition MCF_gthr_call_once_seh :: "('u \<Rightarrow> init_end \<times> 'u) \<Rightarrow> once_mem schedule \<Rightarrow> 'u \<Rightarrow> once_mem \<Rightarrow>
    (once_end \<times> 'u \<times> once_mem \<times> once_mem schedule) option" where
  "MCF_gthr_call_once_seh init_proc sch u m =
     (case run_wait MCF_once_wait_slow sch m (WFast None) of
        None \<Rightarrow> None
      | Some (err, m, sch) \<Rightarrow>
          if err = 0 then Some (Was_ready, u, m, sch)
          else if err = 1 then MCF_gthr_call_once_seh_take_over init_proc sch u m
          else None)"

definition MCF_gthr_once :: "('u \<Rightarrow> init_end \<times> 'u) \<Rightarrow> once_mem schedule \<Rightarrow> 'u \<Rightarrow> once_mem \<Rightarrow>
    (int option \<times> 'u \<times> once_mem \<times> once_mem schedule) option" where
  "MCF_gthr_once init_proc sch u m =
     map_option (apfst (\<lambda>e. if e = Raised then None else Some 0)) (MCF_gthr_call_once_seh init_proc sch u m)"

definition MCF_c11_call_once :: "('u \<Rightarrow> init_end \<times> 'u) \<Rightarrow> once_mem schedule \<Rightarrow> 'u \<Rightarrow> once_mem \<Rightarrow>
    (once_end \<times> 'u \<times> once_mem \<times> once_mem schedule) option" where
  "MCF_c11_call_once = MCF_gthr_call_once_seh"

definition MCF_libcxx_execute_once :: "('u \<Rightarrow> init_end \<times> 'u) \<Rightarrow> once_mem schedule \<Rightarrow> 'u \<Rightarrow> once_mem \<Rightarrow>
    (int option \<times> 'u \<times> once_mem \<times> once_mem schedule) option" where
  "MCF_libcxx_execute_once init_proc sch u m =
     map_option (apfst (\<lambda>e. if e = Raised then None else Some 0)) (MCF_gthr_call_once_seh init_proc sch u m)"

section \<open>What a call does\<close>

text \<open>Other threads never take the readiness of a flag back.\<close>

definition stays_ready :: "once_mem schedule \<Rightarrow> bool" where
  "stays_ready sch \<longleftrightarrow> (\<forall>(e, g) \<in> set sch. \<forall>m. once_ready (fst m) \<noteq> 0 \<longrightarrow> once_ready (fst (g m)) \<noteq> 0)"

lemma once_bits_ready: "once_bits w AND 1 \<noteq> 0 \<Longrightarrow> once_ready w \<noteq> 0"
  by (auto simp: once_bits_def word_facts bit_simps)

lemma once_waited_ready:
  assumes run: "run_wait MCF_once_wait_slow sch m (WFast t) = Some (0, m', sch')" and "stays_ready sch"
  shows "once_ready (fst m') \<noteq> 0"
proof -
  define I where "I = (\<lambda>(m :: once_mem) (pc :: (MCF_once, unit) wpc).
    case pc of
      WFTry t old \<Rightarrow> once_ready old \<noteq> 0 \<longrightarrow> once_ready (fst m) \<noteq> 0
    | WTry nt old \<Rightarrow> once_ready old \<noteq> 0 \<longrightarrow> once_ready (fst m) \<noteq> 0
    | WRet r \<Rightarrow> r = 0 \<longrightarrow> once_ready (fst m) \<noteq> 0
    | _ \<Rightarrow> True)"
  have "I m (WFast t)" by (simp add: I_def)
  then have "\<exists>pc'. w_returned pc' = Some 0 \<and> I m' pc'"
  proof (rule run_call_invariant[OF run])
    fix e g m pc m' pc'
    assume e: "(e, g) \<in> set sch" and I: "I m pc" and st: "wait_step MCF_once_wait_slow e (g m) pc = Some (m', pc')"
    have "once_ready (fst m) \<noteq> 0 \<Longrightarrow> once_ready (fst (g m)) \<noteq> 0" using assms(2) e unfolding stays_ready_def by blast
    then have "I (g m) pc" using I by (cases pc) (auto simp: I_def)
    then show "I m' pc'" using st
      by (cases pc) (auto simp: I_def once_ops_defs once_bits_ready woken_def cas_iff
          split: env.splits if_splits option.splits)
  qed
  then show ?thesis by (auto simp: I_def w_returned_iff)
qed

lemma once_released_ready:
  assumes run: "run_signal MCF_once_release sch m SFast = Some (r, m', sch')" and "stays_ready sch"
  shows "once_ready (fst m') \<noteq> 0"
proof -
  define I where "I = (\<lambda>(m :: once_mem) (pc :: MCF_once spc).
    case pc of SPost old n r \<Rightarrow> once_ready (fst m) \<noteq> 0 | SRel n r \<Rightarrow> once_ready (fst m) \<noteq> 0
      | SRet r \<Rightarrow> once_ready (fst m) \<noteq> 0 | _ \<Rightarrow> True)"
  have "I m SFast" by (simp add: I_def)
  then have "\<exists>pc'. s_returned pc' = Some r \<and> I m' pc'"
  proof (rule run_call_invariant[OF run])
    fix e g m pc m' pc'
    assume e: "(e, g) \<in> set sch" and I: "I m pc" and st: "signal_step MCF_once_release e (g m) pc = Some (m', pc')"
    have "once_ready (fst m) \<noteq> 0 \<Longrightarrow> once_ready (fst (g m)) \<noteq> 0" using assms(2) e unfolding stays_ready_def by blast
    then have "I (g m) pc" using I by (cases pc) (auto simp: I_def)
    then show "I m' pc'" using st
      by (cases pc) (auto simp: I_def once_ops_defs batch_release_step_def split: env.splits if_splits)
  qed
  then show ?thesis by (auto simp: I_def s_returned_iff)
qed



end
