(* ===== verification/Gthr_Thread.thy ===== *)
theory Gthr_Thread
  imports Thread_Layout Gthr_Codes
begin

text \<open>
  Threads that have a result: the thread record of \<open>gthr_aux.h\<close>, creation, joining and exit of
  \<open>src/gthr_aux.c\<close>, and the functions of \<open>gthr.h\<close>, \<open>c11.h\<close>, \<open>libcxx.h\<close> and \<open>gthr_libobjc.h\<close>
  that call them. The record is 32 bytes of user-defined data: a GUID that marks it, the thread
  function, and its argument, which the result replaces. The world of the runtime is the memory.
\<close>

unbundle bit_operations_syntax

section \<open>Pointers in memory\<close>

definition bytes_of :: "uptr \<Rightarrow> u8 list" where
  "bytes_of v = map (\<lambda>k. ucast (drop_bit (8 * k) v)) [0..<8]"

fun of_bytes :: "u8 list \<Rightarrow> uptr" where
  "of_bytes [] = 0"
| "of_bytes (b # bs) = ucast b OR push_bit 8 (of_bytes bs)"

definition load_ptr :: "memory \<Rightarrow> uptr \<Rightarrow> uptr" where
  "load_ptr m p = of_bytes (block m p 8)"

definition store_ptr :: "uptr \<Rightarrow> uptr \<Rightarrow> memory \<Rightarrow> memory" where
  "store_ptr p v m = (\<lambda>a. if unat (a - p) < 8 then bytes_of v ! unat (a - p) else m a)"

lemma bit_of_bytes:
  "bit (of_bytes bs) n \<longleftrightarrow> n < 64 \<and> n div 8 < length bs \<and> bit (bs ! (n div 8)) (n mod 8)"
proof (induction bs arbitrary: n)
  case (Cons b bs)
  show ?case
  proof (cases "n < 8")
    case True
    then show ?thesis by (auto simp: bit_simps)
  next
    case False
    then have n: "n div 8 = Suc ((n - 8) div 8)" "n mod 8 = (n - 8) mod 8"
      using le_div_geq[of 8 n] le_mod_geq[of 8 n] by simp_all
    have "\<not> bit b n" using False bit_imp_le_length[of b n] by auto
    then have "bit (of_bytes (b # bs)) n \<longleftrightarrow> n < 64 \<and> bit (of_bytes bs) (n - 8)"
      using False by (auto simp: bit_or_iff bit_push_bit_iff bit_ucast_iff)
    then show ?thesis unfolding Cons.IH n using False by auto
  qed
qed simp

lemma of_bytes_of: "of_bytes (bytes_of v) = v"
  by (rule bit_word_eqI) (auto simp: bit_of_bytes bytes_of_def bit_simps)

lemma length_bytes [simp]: "length (bytes_of v) = 8"
  by (simp add: bytes_of_def)

lemma block_store: "block (store_ptr p v m) p 8 = bytes_of v"
  by (rule nth_equalityI) (auto simp: block_def store_ptr_def unat_of_nat)

lemma load_store [simp]: "load_ptr (store_ptr p v m) p = v"
  by (simp add: load_ptr_def block_store of_bytes_of)

text \<open>Bytes that are \<open>k\<close> before the pointer, or behind its eight bytes, stay.\<close>

lemma block_store_before:
  "k + n \<le> 2 ^ 63 \<Longrightarrow> n \<le> k \<Longrightarrow> block (store_ptr (p + of_nat k) v m) p n = block m p n"
proof (rule block_cong)
  fix j assume a: "k + n \<le> 2 ^ 63" "n \<le> k" "j < n"
  have "False" if i: "unat (p + of_nat j - (p + of_nat k)) < 8"
  proof -
    define i where "i = unat (p + of_nat j - (p + of_nat k))"
    have "(of_nat i :: uptr) = of_nat j - of_nat k" by (simp add: i_def)
    then have "(of_nat (k + i) :: uptr) = of_nat j" by simp
    from arg_cong[OF this, of unat] show False
      using a i unfolding i_def[symmetric] by (simp add: unat_of_nat del: of_nat_add)
  qed
  then show "store_ptr (p + of_nat k) v m (p + of_nat j) = m (p + of_nat j)"
    by (auto simp: store_ptr_def)
qed

section \<open>The thread record\<close>

definition MCF_GTHR_CANCELLED :: uptr where
  "MCF_GTHR_CANCELLED = - 1"

definition rec_proc :: "uptr \<Rightarrow> uptr" where
  "rec_proc rec = rec + 16"

definition rec_arg_or_result :: "uptr \<Rightarrow> uptr" where
  "rec_arg_or_result rec = 24 + rec"

text \<open>\<open>frame\<close> is where the automatic variable \<open>record\<close> is, \<open>guid\<close> is the address of
  \<open>__MCF_crt_gthread_guid\<close> and \<open>start\<close> that of \<open>do_gthread_routine\<close>.\<close>

definition MCF_gthr_thread_create_v4 :: "uptr \<Rightarrow> uptr \<Rightarrow> uptr \<Rightarrow> uptr \<Rightarrow> uptr \<Rightarrow> (uptr \<Rightarrow> uptr option) \<Rightarrow> (u32 + uptr \<times> i32) \<Rightarrow>
    memory \<Rightarrow> (u32 + uptr \<times> mcf_thread \<times> memory \<times> uptr) option" where
  "MCF_gthr_thread_create_v4 guid start frame proc arg alloc create m = do {
     m \<leftarrow> memcpy frame guid 16 m;
     let m = store_ptr (rec_proc frame) proc m;
     let m = store_ptr (rec_arg_or_result frame) arg m;
     MCF_thread_p_new start 0 frame 32 alloc create m }"

definition MCF_gthr_thread_create_v3 :: "uptr \<Rightarrow> uptr \<Rightarrow> uptr \<Rightarrow> uptr \<Rightarrow> uptr \<Rightarrow> (uptr \<Rightarrow> uptr option) \<Rightarrow> (u32 + uptr \<times> i32) \<Rightarrow>
    memory \<Rightarrow> (u32 + uptr \<times> mcf_thread \<times> memory \<times> uptr) option" where
  "MCF_gthr_thread_create_v3 = MCF_gthr_thread_create_v4"

text \<open>The thread functions: \<open>procs f\<close> is the one at the address \<open>f\<close>, and gives \<open>None\<close> with the last
  state if it ends the thread instead of returning.\<close>

type_synonym thread_fn = "uptr \<Rightarrow> memory runtime \<Rightarrow> uptr option \<times> memory runtime"

definition do_gthread_routine :: "(uptr \<Rightarrow> thread_fn) \<Rightarrow> uptr \<Rightarrow> memory runtime \<Rightarrow> memory runtime option" where
  "do_gthread_routine procs thrd s = do {
     rec \<leftarrow> MCF_thread_get_data thrd s;
     let arg = load_ptr (rt_world s) (rec_arg_or_result rec);
     let s = s\<lparr>rt_world := store_ptr (rec_arg_or_result rec) MCF_GTHR_CANCELLED (rt_world s)\<rparr>;
     let (res, s) = procs (load_ptr (rt_world s) (rec_proc rec)) arg s;
     (case res of
        None \<Rightarrow> Some s
      | Some r \<Rightarrow> Some (s\<lparr>rt_world := store_ptr (rec_arg_or_result rec) r (rt_world s)\<rparr>)) }"

text \<open>The argument \<open>wait\<close> is \<open>_MCF_thread_wait\<close> without a timeout: what the other threads do until the
  thread has ended.\<close>

definition MCF_gthr_thread_join_v3 :: "uptr \<Rightarrow> i32 \<Rightarrow> (memory runtime \<Rightarrow> memory runtime option) \<Rightarrow> uptr \<Rightarrow> bool \<Rightarrow>
    memory runtime \<Rightarrow> (uptr option \<times> memory runtime) option" where
  "MCF_gthr_thread_join_v3 guid tid wait thrd want s = do {
     t \<leftarrow> rt_threads s thrd;
     if th_tid t = tid then None
     else do {
       s \<leftarrow> wait s;
       resp \<leftarrow> (if want then do {
                 rec \<leftarrow> MCF_thread_get_data thrd s;
                 Some (Some (if rec \<noteq> 0 \<and> MCF_mequal rec guid 16 (rt_world s)
                             then load_ptr (rt_world s) (rec_arg_or_result rec) else 0)) }
               else Some None);
       s \<leftarrow> MCF_thread_drop_ref thrd s;
       Some (resp, s) } }"

text \<open>The part of \<open>__MCF_gthr_thread_exit_v3\<close> before \<open>_MCF_thread_exit\<close>.\<close>

definition thread_set_result :: "uptr \<Rightarrow> (memory runtime \<Rightarrow> (uptr \<times> memory runtime) option) \<Rightarrow> uptr \<Rightarrow>
    memory runtime \<Rightarrow> memory runtime option" where
  "thread_set_result guid thread_self code s = do {
     (self, s) \<leftarrow> thread_self s;
     rec \<leftarrow> MCF_thread_get_data self s;
     Some (if rec \<noteq> 0 \<and> MCF_mequal rec guid 16 (rt_world s)
           then s\<lparr>rt_world := store_ptr (rec_arg_or_result rec) code (rt_world s)\<rparr> else s) }"

definition MCF_gthr_thread_exit_v3 :: "uptr \<Rightarrow> (memory runtime \<Rightarrow> (uptr \<times> memory runtime) option) \<Rightarrow> memory dtor_call \<Rightarrow>
    uptr \<Rightarrow> uptr \<Rightarrow> memory runtime \<Rightarrow> (u32 \<times> memory runtime) option" where
  "MCF_gthr_thread_exit_v3 guid thread_self call hint code s = do {
     s \<leftarrow> thread_set_result guid thread_self code s;
     MCF_thread_exit call hint s }"

section \<open>The record of a new thread\<close>

lemma block_append: "block m p (j + k) = block m p j @ block m (p + of_nat j) k"
  by (rule nth_equalityI) (auto simp: block_def nth_append add.assoc)

lemma store_outside: "outside p 8 a \<Longrightarrow> store_ptr p v m a = m a"
proof -
  assume "outside p 8 a"
  then have "\<not> unat (a - p) < 8" unfolding outside_def by (auto dest: spec[of _ "unat (a - p)"])
  then show ?thesis by (simp add: store_ptr_def)
qed

text \<open>The three parts of a record.\<close>

lemma record_block:
  "block m rec 32 = block m rec 16 @ block m (rec_proc rec) 8 @ block m (rec_arg_or_result rec) 8"
  using block_append[of m rec 16 16] block_append[of m "rec + 16" 8 8] by (simp add: rec_proc_def rec_arg_or_result_def)

lemma store_result_record:
  "block (store_ptr (rec_arg_or_result rec) v m) rec 16 = block m rec 16"
  "block (store_ptr (rec_arg_or_result rec) v m) (rec_proc rec) 8 = block m (rec_proc rec) 8"
  using block_store_before[of 24 16 rec v m, unfolded add.commute[of rec]] block_store_before[of 8 8 "rec_proc rec" v m]
  by (simp_all add: rec_proc_def rec_arg_or_result_def add.commute)

lemma store_proc_record: "block (store_ptr (rec_proc rec) v m) rec 16 = block m rec 16"
  using block_store_before[of 16 16 rec v m] by (simp add: rec_proc_def)

lemma guid_equal: "MCF_mequal p q 16 m \<longleftrightarrow> block m p 16 = block m q 16"
  by (simp add: MCF_mequal_def repz_cmpsb_sign std_compare_equal)

text \<open>Where the bytes of the GUID are: neither in the frame nor in a block that the allocator gives.\<close>

definition guid_apart :: "(uptr \<Rightarrow> uptr option) \<Rightarrow> uptr \<Rightarrow> uptr \<Rightarrow> bool" where
  "guid_apart alloc guid frame \<longleftrightarrow>
     (\<forall>k < 16. outside frame 32 (guid + of_nat k)) \<and> fresh_block alloc guid 16 \<and> fresh_block alloc frame 32"

lemma outside_less: "outside p n a \<Longrightarrow> k \<le> n \<Longrightarrow> outside p k a"
  by (simp add: outside_def)

lemma outside_offset: "outside p n a \<Longrightarrow> j + k \<le> n \<Longrightarrow> outside (p + of_nat j) k a"
  unfolding outside_def
proof (intro allI impI)
  fix i assume "\<forall>k < n. a \<noteq> p + of_nat k" "j + k \<le> n" "i < k"
  then have "a \<noteq> p + of_nat (j + i)" by (metis add_less_cancel_left order_less_le_trans)
  then show "a \<noteq> p + of_nat j + of_nat i" by (simp add: add.assoc)
qed

lemma frame_record:
  fixes guid frame proc arg :: uptr and m m1 :: memory
  assumes "guid_apart alloc guid frame" "memcpy frame guid 16 m = Some m1"
  defines "m2 \<equiv> store_ptr (rec_arg_or_result frame) arg (store_ptr (rec_proc frame) proc m1)"
  shows "block m2 frame 32 = block m guid 16 @ bytes_of proc @ bytes_of arg" "block m2 guid 16 = block m guid 16"
proof -
  have far: "16 \<le> frame - guid" using assms(2) by (auto simp: memcpy_def MCF_mcopy_def split: if_splits)
  from mcopy_moves[OF far, of m] assms(2) have m1: "block m1 frame 16 = block m guid 16" "\<And>a. outside frame 16 a \<Longrightarrow> m1 a = m a"
    by (auto simp: memcpy_def)
  show "block m2 frame 32 = block m guid 16 @ bytes_of proc @ bytes_of arg"
    unfolding record_block m2_def by (simp only: store_result_record store_proc_record block_store m1)
  show "block m2 guid 16 = block m guid 16"
  proof (rule block_cong)
    fix k :: nat assume "k < 16"
    then have "outside frame 32 (guid + of_nat k)" using assms(1) by (simp add: guid_apart_def)
    with outside_offset[OF this, of 16 8] outside_offset[OF this, of 24 8] outside_less[OF this, of 16]
    show "m2 (guid + of_nat k) = m (guid + of_nat k)"
      unfolding m2_def by (simp add: store_outside m1(2) rec_proc_def rec_arg_or_result_def add.commute)
  qed
qed

lemma created_record:
  assumes "guid_apart alloc guid frame" "frame \<noteq> 0"
    and new: "MCF_gthr_thread_create_v4 guid start frame proc arg alloc create m = Some (Inr (thrd, t, m', kept))"
  shows "block m' (th_data_opt t) 32 = block m guid 16 @ bytes_of proc @ bytes_of arg"
    "block m' guid 16 = block m guid 16" "th_data_opt t \<noteq> 0" "th_nref t = 2"
    "k < 16 \<Longrightarrow> outside (th_data_opt t) 32 (guid + of_nat k)"
proof -
  obtain m1 where m1: "memcpy frame guid 16 m = Some m1"
    using new by (auto simp: MCF_gthr_thread_create_v4_def Option.bind_eq_Some_conv)
  define m2 where "m2 = store_ptr (rec_arg_or_result frame) arg (store_ptr (rec_proc frame) proc m1)"
  note frame = frame_record[OF assms(1) m1, of arg proc, folded m2_def]
  have new: "MCF_thread_p_new start 0 frame 32 alloc create m2 = Some (Inr (thrd, t, m', kept))"
    using new m1 by (simp add: MCF_gthr_thread_create_v4_def m2_def)
  then have start: "start \<noteq> 0" by (auto simp: MCF_thread_p_new_def)
  have request: "(1632 :: uptr) = 1600 + 32 + (MCF_maxz 16 0 - 16)" by (simp add: MCF_maxz_def)
  obtain b where b: "alloc 1632 = Some b"
    using new start by (cases "alloc 1632")
      (auto simp: MCF_thread_p_new_def Let_def MCF_maxz_def MCF_THREAD_DATA_ALIGNMENT_def MCF_THREAD_MAX_DATA_ALIGNMENT_def sizeof_thread_base_def)
  have fresh: "fresh_block alloc frame 32" "fresh_block alloc guid 16" using assms(1) by (simp_all add: guid_apart_def)
  obtain data kept' m3 where d: "MCF_thread_p_new start 0 frame 32 alloc create m2 =
      Some (case create of Inl err \<Rightarrow> Inl err | Inr (handle, tid) \<Rightarrow> Inr (b, thread_zero\<lparr>th_nref := 2, th_tid := tid,
        th_handle := handle, th_proc := start, th_data_opt := data, th_init_done := 1\<rparr>, m3, kept'))"
    "unat b + 1600 \<le> unat data" "unat data + 32 = unat b + unat kept'" "unat kept' \<le> unat (1632 :: uptr)" "block m3 data (unat (32 :: uptr)) = block m2 frame (unat (32 :: uptr))"
    "\<And>a. outside b (unat (1632 :: uptr)) a \<Longrightarrow> m3 a = m2 a"
    using new_thread_some[OF start _ _ _ _ request b fresh(1), of create m2] assms(2)
    by (auto simp: MCF_THREAD_MAX_DATA_ALIGNMENT_def)
  have t: "t = thread_zero\<lparr>th_nref := 2, th_tid := th_tid t, th_handle := th_handle t, th_proc := start, th_data_opt := data, th_init_done := 1\<rparr>"
    "m' = m3" using new d(1) by (auto simp: thread_zero_def split: sum.splits)
  have away: "outside b 1632 (guid + of_nat k)" if "k < 16" for k
    using fresh(2)[unfolded fresh_block_def, rule_format, OF b] that by simp
  have room: "unat b + 1632 < 2 ^ 63" using fresh(2)[unfolded fresh_block_def, rule_format, OF b] by simp
  show "block m' (th_data_opt t) 32 = block m guid 16 @ bytes_of proc @ bytes_of arg"
    using d(5) frame(1) by (subst t(1)) (simp add: t(2))
  show "th_data_opt t \<noteq> 0" using d(2) by (subst t(1)) auto
  show "th_nref t = 2" by (subst t(1)) simp
  have "block m3 guid 16 = block m2 guid 16" using away by (intro block_cong d(6)) simp
  with frame(2) show "block m' guid 16 = block m guid 16" by (simp add: t(2))
  show "outside (th_data_opt t) 32 (guid + of_nat k)" if "k < 16"
  proof -
    have "\<not> outside b 1632 (data + of_nat j)" if "j < 32" for j
      by (rule inside_block[OF _ _ that]) (use d(2-4) room in simp_all)
    with away[OF that] have "outside data 32 (guid + of_nat k)" by (auto simp: outside_def[of data])
    then show ?thesis by (subst t(1)) simp
  qed
qed

text \<open>What the thread function and whatever runs after it leave alone.\<close>

definition keeps_record :: "uptr \<Rightarrow> uptr \<Rightarrow> uptr \<Rightarrow> memory runtime \<Rightarrow> memory runtime \<Rightarrow> bool" where
  "keeps_record guid thrd rec s s' \<longleftrightarrow> MCF_thread_get_data thrd s' = Some rec \<and>
     block (rt_world s') rec 32 = block (rt_world s) rec 32 \<and> block (rt_world s') guid 16 = block (rt_world s) guid 16"

definition has_record :: "uptr \<Rightarrow> uptr \<Rightarrow> uptr \<Rightarrow> memory runtime \<Rightarrow> bool" where
  "has_record guid thrd rec s \<longleftrightarrow> rec \<noteq> 0 \<and> MCF_thread_get_data thrd s = Some rec \<and>
     MCF_mequal rec guid 16 (rt_world s) \<and> (\<forall>k < 16. outside rec 32 (guid + of_nat k))"

definition record_result :: "uptr \<Rightarrow> memory runtime \<Rightarrow> uptr" where
  "record_result rec s = load_ptr (rt_world s) (rec_arg_or_result rec)"

definition set_record :: "uptr \<Rightarrow> uptr \<Rightarrow> memory runtime \<Rightarrow> memory runtime" where
  "set_record rec v s = s\<lparr>rt_world := store_ptr (rec_arg_or_result rec) v (rt_world s)\<rparr>"

lemma keeps_record_parts:
  assumes "keeps_record guid thrd rec s s'"
  shows "record_result rec s' = record_result rec s" "has_record guid thrd rec s \<Longrightarrow> has_record guid thrd rec s'"
    "load_ptr (rt_world s') (rec_proc rec) = load_ptr (rt_world s) (rec_proc rec)"
  using assms by (auto simp: keeps_record_def has_record_def record_result_def guid_equal record_block load_ptr_def)

lemma set_record_parts:
  "record_result rec (set_record rec v s) = v"
  "has_record guid thrd rec s \<Longrightarrow> has_record guid thrd rec (set_record rec v s)"
  "load_ptr (rt_world (set_record rec v s)) (rec_proc rec) = load_ptr (rt_world s) (rec_proc rec)"
proof -
  show "has_record guid thrd rec (set_record rec v s)" if r: "has_record guid thrd rec s"
  proof -
    have "block (store_ptr (rec_arg_or_result rec) v (rt_world s)) guid 16 = block (rt_world s) guid 16"
    proof (rule block_cong)
      fix k :: nat assume "k < 16"
      then have "outside rec 32 (guid + of_nat k)" using r by (simp add: has_record_def)
      from outside_offset[OF this, of 24 8]
      show "store_ptr (rec_arg_or_result rec) v (rt_world s) (guid + of_nat k) = rt_world s (guid + of_nat k)"
        by (simp add: store_outside rec_arg_or_result_def add.commute)
    qed
    with r show ?thesis
      by (auto simp: has_record_def set_record_def MCF_thread_get_data_def guid_equal store_result_record)
  qed
qed (simp_all add: record_result_def set_record_def load_ptr_def store_result_record block_store of_bytes_of)

section \<open>From creation to joining\<close>

lemma routine_result:
  assumes "has_record guid thrd rec s"
    and "procs (load_ptr (rt_world s) (rec_proc rec)) (record_result rec s) (set_record rec MCF_GTHR_CANCELLED s) = (res, s1)"
  shows "do_gthread_routine procs thrd s = Some (case res of None \<Rightarrow> s1 | Some r \<Rightarrow> set_record rec r s1)"
proof -
  have "MCF_thread_get_data thrd s = Some rec" using assms(1) by (simp add: has_record_def)
  moreover have "load_ptr (store_ptr (rec_arg_or_result rec) MCF_GTHR_CANCELLED (rt_world s)) (rec_proc rec) =
      load_ptr (rt_world s) (rec_proc rec)"
    by (simp add: load_ptr_def store_result_record)
  ultimately show ?thesis
    using assms(2) by (simp add: do_gthread_routine_def record_result_def set_record_def Let_def split: option.split)
qed

lemma exit_sets_result:
  assumes "has_record guid thrd rec s" "rt_slot s = thrd" "thrd \<noteq> 0"
  shows "thread_set_result guid (MCF_thread_self tls_index place tid handle) r s = Some (set_record rec r s)"
  using assms by (simp add: thread_set_result_def MCF_thread_self_def do_thread_self_slow_def has_record_def set_record_def)

text \<open>The state in which the wait of a joining thread returns: the thread has ended, given its own
  reference back and left no destructors.\<close>

definition thread_ended :: "uptr \<Rightarrow> 'w runtime \<Rightarrow> bool" where
  "thread_ended thrd s \<longleftrightarrow> thrd \<noteq> 0 \<and> thrd \<noteq> rt_main s \<and> rt_oom s \<noteq> Some thrd \<and>
     (case rt_threads s thrd of None \<Rightarrow> False
      | Some t \<Rightarrow> th_nref t = 1 \<and> dq_prev (th_atexit_queue t) = None \<and> tt_elems (th_tls_table t) = [])"

lemma join_ended:
  assumes "has_record guid thrd rec s" "thread_ended thrd s" "MCF_thread_get_tid thrd sj = Some other" "other \<noteq> tid"
  shows "MCF_gthr_thread_join_v3 guid tid (\<lambda>_. Some s) thrd True sj =
    Some (Some (record_result rec s), s\<lparr>rt_threads := (rt_threads s)(thrd := None)\<rparr>)"
  using assms
  by (auto simp: MCF_gthr_thread_join_v3_def thread_ended_def has_record_def record_result_def MCF_thread_get_tid_def
      MCF_thread_drop_ref_def MCF_thread_drop_ref_nonnull_def Let_def word_sless_alt split: option.splits)

text \<open>C19. The result of a thread: the thread function is called with the argument of the creation, and
  a thread that joins gets what the function returned, or what the thread passed to
  \<open>__MCF_gthr_thread_exit_v3\<close>, or \<open>__MCF_GTHR_CANCELLED\<close> if it ended otherwise, and frees the thread;
  this holds as long as nothing else writes the record of the thread.\<close>

theorem gthr_thread_result:
  assumes apart: "guid_apart alloc guid frame" "frame \<noteq> 0"
    and new: "MCF_gthr_thread_create_v4 guid start frame proc arg alloc create m = Some (Inr (thrd, t, m', kept))"
    and s: "rt_threads s thrd = Some t" "rt_world s = m'"
    and run: "procs proc arg (set_record (th_data_opt t) MCF_GTHR_CANCELLED s) = (res, s1)"
      "keeps_record guid thrd (th_data_opt t) (set_record (th_data_opt t) MCF_GTHR_CANCELLED s) s'"
    and ending: "case exited of
        None \<Rightarrow> s1 = s'
      | Some r \<Rightarrow> res = None \<and> rt_slot s' = thrd \<and> thrd \<noteq> 0 \<and>
          thread_set_result guid (MCF_thread_self tls_index place (th_tid t) handle) r s' = Some s1"
    and later: "keeps_record guid thrd (th_data_opt t) (the (do_gthread_routine procs thrd s)) s3" "thread_ended thrd s3"
    and joiner: "tid \<noteq> th_tid t"
  shows "do_gthread_routine procs thrd s \<noteq> None \<and>
    MCF_gthr_thread_join_v3 guid tid (\<lambda>_. Some s3) thrd True s =
      Some (Some (case (res, exited) of (Some r, _) \<Rightarrow> r | (None, Some r) \<Rightarrow> r | (None, None) \<Rightarrow> MCF_GTHR_CANCELLED),
            s3\<lparr>rt_threads := (rt_threads s3)(thrd := None)\<rparr>)"
proof -
  let ?rec = "th_data_opt t" and ?c = "set_record (th_data_opt t) MCF_GTHR_CANCELLED s"
  note made = created_record[OF apart new]
  have parts: "block m' ?rec 16 = block m guid 16" "block m' (rec_proc ?rec) 8 = bytes_of proc"
    "block m' (rec_arg_or_result ?rec) 8 = bytes_of arg"
    using made(1) unfolding record_block by (simp_all add: append_eq_append_conv)
  then have r0: "has_record guid thrd ?rec s" using made(2,3,5) s
    by (simp add: has_record_def guid_equal MCF_thread_get_data_def)
  have read: "load_ptr (rt_world s) (rec_proc ?rec) = proc" "record_result ?rec s = arg"
    using parts(2,3) s(2) by (simp_all add: load_ptr_def record_result_def of_bytes_of)
  have routine: "do_gthread_routine procs thrd s = Some (case res of None \<Rightarrow> s1 | Some r \<Rightarrow> set_record ?rec r s1)"
    by (rule routine_result[OF r0]) (simp only: read run(1))
  have r1: "has_record guid thrd ?rec s'" "record_result ?rec s' = MCF_GTHR_CANCELLED"
    using keeps_record_parts[OF run(2)] set_record_parts[where rec = ?rec and v = MCF_GTHR_CANCELLED and s = s] r0 by simp_all
  have s1: "s1 = (case exited of None \<Rightarrow> s' | Some r \<Rightarrow> set_record ?rec r s')"
    using ending exit_sets_result[OF r1(1)] by (simp split: option.splits)
  have r2: "has_record guid thrd ?rec (the (do_gthread_routine procs thrd s))"
    "record_result ?rec (the (do_gthread_routine procs thrd s)) =
      (case (res, exited) of (Some r, _) \<Rightarrow> r | (None, Some r) \<Rightarrow> r | (None, None) \<Rightarrow> MCF_GTHR_CANCELLED)"
    unfolding routine using r1 s1 set_record_parts by (auto split: option.split)
  have r3: "has_record guid thrd ?rec s3" by (rule keeps_record_parts(2)[OF later(1) r2(1)])
  have "MCF_thread_get_tid thrd s = Some (th_tid t)" using s(1) by (simp add: MCF_thread_get_tid_def)
  from join_ended[OF r3 later(2) this joiner[symmetric]] show ?thesis
    using keeps_record_parts(1)[OF later(1)] r2(2) routine by simp
qed

text \<open>A thread that adds one to its argument.\<close>

definition sample_procs :: "uptr \<Rightarrow> thread_fn" where
  "sample_procs f arg s = (if f = 77 then (Some (arg + 1), s) else (None, s))"

definition sample_runtime :: "uptr \<Rightarrow> mcf_thread \<Rightarrow> memory \<Rightarrow> memory runtime" where
  "sample_runtime thrd t m = \<lparr>rt_threads = [thrd \<mapsto> t], rt_main = 0, rt_oom = None, rt_oom_mtx = MCF_mutex_init,
     rt_slot = 0, rt_keys = (\<lambda>_. None), rt_world = m\<rparr>"

lemma sample_apart: "guid_apart sample_alloc 0x100000 0x80000"
proof -
  have far: "outside 0x30000 (unat n) (p + of_nat k)"
    if "n \<le> 0x10000" "k < 32" "p = 0x100000 \<or> p = 0x80000" for n p :: uptr and k
  proof (rule outside_far)
    have "0x10000 \<le> unat (p + of_nat k - 0x30000 :: uptr)" using that(2,3)
      by (auto simp: unat_word_ariths unat_of_nat)
    moreover have "unat n \<le> 0x10000" using that(1) by (simp add: word_le_nat_alt)
    ultimately show "unat n \<le> unat (p + of_nat k - 0x30000 :: uptr)" by linarith
  qed
  have "outside 0x80000 32 (0x100000 + of_nat k)" if "k < 16" for k
    by (rule outside_far) (use that in \<open>simp add: unat_word_ariths unat_of_nat\<close>)
  with far show ?thesis
    by (auto simp: guid_apart_def fresh_block_def sample_alloc_def word_le_nat_alt)
qed

lemma sample_created:
  "\<exists>data m' kept. MCF_gthr_thread_create_v4 0x100000 5 0x80000 77 41 sample_alloc (Inr (9, 3)) m =
    Some (Inr (0x30000, thread_zero\<lparr>th_nref := 2, th_tid := 3, th_handle := 9, th_proc := 5, th_data_opt := data,
      th_init_done := 1\<rparr>, m', kept))"
proof -
  obtain m1 where "memcpy 0x80000 0x100000 16 m = Some m1" by (simp add: memcpy_def MCF_mcopy_def)
  moreover have "sample_alloc 1632 = Some 0x30000" by (simp add: sample_alloc_def)
  moreover have "fresh_block sample_alloc 0x80000 32" using sample_apart by (simp add: guid_apart_def)
  ultimately show ?thesis
    using new_thread_some[where proc = 5 and al = 0 and data_opt = "0x80000" and data_size = 32 and request = 1632 and
        alloc = sample_alloc and create = "Inr (9, 3)"]
    by (fastforce simp: MCF_gthr_thread_create_v4_def MCF_maxz_def MCF_THREAD_MAX_DATA_ALIGNMENT_def)
qed

theorem gthr_thread_result_witness:
  "case MCF_gthr_thread_create_v4 0x100000 5 0x80000 77 41 sample_alloc (Inr (9, 3)) (\<lambda>a. ucast a) of
     Some (Inr (thrd, t, m', kept)) \<Rightarrow>
       map_option fst (MCF_gthr_thread_join_v3 0x100000 4
         (\<lambda>_. map_option (\<lambda>s. s\<lparr>rt_threads := [thrd \<mapsto> t\<lparr>th_nref := 1\<rparr>]\<rparr>)
           (do_gthread_routine sample_procs thrd (sample_runtime thrd t m')))
         thrd True (sample_runtime thrd t m')) = Some (Some 42)
   | _ \<Rightarrow> False"
proof -
  obtain data m' kept where new: "MCF_gthr_thread_create_v4 0x100000 5 0x80000 77 41 sample_alloc (Inr (9, 3)) (\<lambda>a. ucast a) =
      Some (Inr (0x30000, thread_zero\<lparr>th_nref := 2, th_tid := 3, th_handle := 9, th_proc := 5, th_data_opt := data,
        th_init_done := 1\<rparr>, m', kept))" using sample_created by blast
  define t where "t = thread_zero\<lparr>th_nref := 2, th_tid := 3, th_handle := 9, th_proc := 5, th_data_opt := data, th_init_done := 1\<rparr>"
  define s where "s = sample_runtime 0x30000 t m'"
  define s1 where "s1 = set_record data MCF_GTHR_CANCELLED s"
  have t: "th_data_opt t = data" "th_tid t = 3" "rt_threads s 0x30000 = Some t" "rt_world s = m'"
    by (simp_all add: t_def s_def sample_runtime_def)
  note made = created_record[OF sample_apart _ new[folded t_def]]
  have "has_record 0x100000 0x30000 data s" "load_ptr (rt_world s) (rec_proc data) = 77" "record_result data s = 41"
    using made t by (simp_all add: has_record_def guid_equal MCF_thread_get_data_def load_ptr_def record_result_def
        record_block append_eq_append_conv of_bytes_of)
  then have run: "do_gthread_routine sample_procs 0x30000 s = Some (set_record data 42 s1)"
    using routine_result[where procs = sample_procs and s = s and rec = data and res = "Some 42" and ?s1.0 = s1] by (simp add: sample_procs_def s1_def)
  define s3 where "s3 = set_record data 42 s1\<lparr>rt_threads := [0x30000 \<mapsto> t\<lparr>th_nref := 1\<rparr>]\<rparr>"
  have "MCF_gthr_thread_join_v3 0x100000 4 (\<lambda>_. Some s3) 0x30000 True s =
      Some (Some (case (Some 42, None) of (Some r, _) \<Rightarrow> r | (None, Some r) \<Rightarrow> r | (None, None) \<Rightarrow> MCF_GTHR_CANCELLED),
        s3\<lparr>rt_threads := (rt_threads s3)(0x30000 := None)\<rparr>)"
  proof (rule gthr_thread_result[OF sample_apart _ new[folded t_def] t(3,4), THEN conjunct2])
    show "sample_procs 77 41 (set_record (th_data_opt t) MCF_GTHR_CANCELLED s) = (Some 42, s1)"
      by (simp add: sample_procs_def s1_def t)
    show "keeps_record 0x100000 0x30000 (th_data_opt t) (set_record (th_data_opt t) MCF_GTHR_CANCELLED s) s1"
      by (simp add: keeps_record_def s1_def t set_record_def MCF_thread_get_data_def)
    show "keeps_record 0x100000 0x30000 (th_data_opt t) (the (do_gthread_routine sample_procs 0x30000 s)) s3"
      by (simp add: keeps_record_def run s3_def t MCF_thread_get_data_def)
    show "thread_ended 0x30000 s3"
      by (simp add: thread_ended_def s3_def s1_def set_record_def s_def sample_runtime_def t_def thread_zero_def
          dtor_queue_zero_def tls_table_zero_def)
  qed (simp_all add: t)
  with new show ?thesis by (simp add: t_def[symmetric] s_def[symmetric] run s3_def)
qed

end
