(* ===== verification/Gthr_Api.thy ===== *)
theory Gthr_Api
  imports Gthr_Thread
begin

text \<open>
  The threads and the thread-local values of \<open>gthr.h\<close>, \<open>c11.h\<close>, \<open>libcxx.h\<close> and
  \<open>gthr_libobjc.h\<close>: inline functions around those of \<open>Gthr_Thread\<close>, \<open>Mcf_Thread\<close> and \<open>Mcf_Tls\<close>.
  A thread identifier in an interface is the address of a thread, or its number; 0 is no thread.
\<close>

section \<open>Creation\<close>

type_synonym new_thread = "u32 + uptr \<times> mcf_thread \<times> memory \<times> uptr"

definition creation_code :: "int \<Rightarrow> int \<Rightarrow> new_thread \<Rightarrow> int" where
  "creation_code code success r = (case r of Inl _ \<Rightarrow> code | Inr _ \<Rightarrow> success)"

definition MCF_gthr_create_v3 :: "uptr \<Rightarrow> uptr \<Rightarrow> uptr \<Rightarrow> uptr \<Rightarrow> uptr \<Rightarrow> (uptr \<Rightarrow> uptr option) \<Rightarrow> (u32 + uptr \<times> i32) \<Rightarrow>
    memory \<Rightarrow> (int \<times> new_thread) option" where
  "MCF_gthr_create_v3 guid start frame proc arg alloc create m =
     map_option (\<lambda>r. (creation_code EAGAIN 0 r, r)) (MCF_gthr_thread_create_v4 guid start frame proc arg alloc create m)"

definition MCF_c11_thrd_create :: "uptr \<Rightarrow> uptr \<Rightarrow> uptr \<Rightarrow> uptr \<Rightarrow> uptr \<Rightarrow> (uptr \<Rightarrow> uptr option) \<Rightarrow> (u32 + uptr \<times> i32) \<Rightarrow>
    memory \<Rightarrow> (int \<times> new_thread) option" where
  "MCF_c11_thrd_create guid start frame proc arg alloc create m =
     map_option (\<lambda>r. (creation_code thrd_nomem thrd_success r, r)) (MCF_gthr_thread_create_v4 guid start frame proc arg alloc create m)"

definition MCF_libcxx_thread_create :: "uptr \<Rightarrow> uptr \<Rightarrow> uptr \<Rightarrow> uptr \<Rightarrow> uptr \<Rightarrow> (uptr \<Rightarrow> uptr option) \<Rightarrow> (u32 + uptr \<times> i32) \<Rightarrow>
    memory \<Rightarrow> (int \<times> new_thread) option" where
  "MCF_libcxx_thread_create guid start frame proc arg alloc create m =
     map_option (\<lambda>r. (creation_code EAGAIN 0 r, r)) (MCF_gthr_thread_create_v4 guid start frame proc arg alloc create m)"

text \<open>The thread of an Objective-C program is detached at once and known by its number.\<close>

definition MCF_gthr_objc_thread_detach :: "uptr \<Rightarrow> uptr \<Rightarrow> uptr \<Rightarrow> uptr \<Rightarrow> uptr \<Rightarrow> (uptr \<Rightarrow> uptr option) \<Rightarrow> (u32 + uptr \<times> i32) \<Rightarrow>
    memory runtime \<Rightarrow> (uptr \<times> memory runtime) option" where
  "MCF_gthr_objc_thread_detach guid start frame proc arg alloc create s = do {
     r \<leftarrow> MCF_gthr_thread_create_v3 guid start frame proc arg alloc create (rt_world s);
     (case r of
        Inl _ \<Rightarrow> Some (0, s)
      | Inr (thrd, t, m, _) \<Rightarrow> do {
          let s = s\<lparr>rt_threads := (rt_threads s)(thrd \<mapsto> t), rt_world := m\<rparr>;
          tid \<leftarrow> MCF_thread_get_tid thrd s;
          s \<leftarrow> MCF_thread_drop_ref_nonnull thrd s;
          Some (ucast tid, s) }) }"

section \<open>Joining, detaching and exit\<close>

definition MCF_gthr_join_v3 :: "uptr \<Rightarrow> i32 \<Rightarrow> (memory runtime \<Rightarrow> memory runtime option) \<Rightarrow> uptr \<Rightarrow> bool \<Rightarrow>
    memory runtime \<Rightarrow> (int \<times> uptr option \<times> memory runtime) option" where
  "MCF_gthr_join_v3 guid tid wait thrd want s = map_option (\<lambda>x. (0, x)) (MCF_gthr_thread_join_v3 guid tid wait thrd want s)"

definition MCF_c11_thrd_join :: "uptr \<Rightarrow> i32 \<Rightarrow> (memory runtime \<Rightarrow> memory runtime option) \<Rightarrow> uptr \<Rightarrow> bool \<Rightarrow>
    memory runtime \<Rightarrow> (int \<times> i32 option \<times> memory runtime) option" where
  "MCF_c11_thrd_join guid tid wait thrd want s =
     map_option (\<lambda>(resp, s). (thrd_success, if want then map_option ucast resp else None, s))
       (MCF_gthr_thread_join_v3 guid tid wait thrd True s)"

definition MCF_libcxx_thread_join :: "uptr \<Rightarrow> i32 \<Rightarrow> (memory runtime \<Rightarrow> memory runtime option) \<Rightarrow> uptr \<Rightarrow>
    memory runtime \<Rightarrow> (int \<times> memory runtime) option" where
  "MCF_libcxx_thread_join guid tid wait thrd s =
     map_option (\<lambda>(_, s). (0, s)) (MCF_gthr_thread_join_v3 guid tid wait thrd False s)"

definition MCF_gthr_detach :: "uptr \<Rightarrow> 'w runtime \<Rightarrow> (int \<times> 'w runtime) option" where
  "MCF_gthr_detach thrd s = map_option (\<lambda>x. (0, x)) (MCF_thread_drop_ref thrd s)"

definition MCF_c11_thrd_detach :: "uptr \<Rightarrow> 'w runtime \<Rightarrow> (int \<times> 'w runtime) option" where
  "MCF_c11_thrd_detach thrd s = map_option (\<lambda>x. (thrd_success, x)) (MCF_thread_drop_ref thrd s)"

definition MCF_libcxx_thread_detach :: "uptr \<Rightarrow> 'w runtime \<Rightarrow> (int \<times> 'w runtime) option" where
  "MCF_libcxx_thread_detach thrd s = map_option (\<lambda>x. (0, x)) (MCF_thread_drop_ref thrd s)"

definition MCF_c11_thrd_exit :: "uptr \<Rightarrow> (memory runtime \<Rightarrow> (uptr \<times> memory runtime) option) \<Rightarrow> memory dtor_call \<Rightarrow>
    uptr \<Rightarrow> i32 \<Rightarrow> memory runtime \<Rightarrow> (u32 \<times> memory runtime) option" where
  "MCF_c11_thrd_exit guid thread_self call hint code =
     MCF_gthr_thread_exit_v3 guid thread_self call hint (scast code)"

section \<open>Identity\<close>

definition thread_equal :: "uptr \<Rightarrow> uptr \<Rightarrow> 'w runtime \<Rightarrow> bool option" where
  "thread_equal t1 t2 s =
     (if t1 \<noteq> 0 \<and> t2 \<noteq> 0 then do {
        a \<leftarrow> rt_threads s t1;
        b \<leftarrow> rt_threads s t2;
        Some (th_tid a = th_tid b) }
      else Some (t1 = t2))"

definition MCF_gthr_equal :: "uptr \<Rightarrow> uptr \<Rightarrow> 'w runtime \<Rightarrow> bool option" where
  "MCF_gthr_equal = thread_equal"

definition MCF_c11_thrd_equal :: "uptr \<Rightarrow> uptr \<Rightarrow> 'w runtime \<Rightarrow> bool option" where
  "MCF_c11_thrd_equal = thread_equal"

definition MCF_gthr_self :: "uptr \<Rightarrow> uptr option \<Rightarrow> i32 \<Rightarrow> uptr \<Rightarrow> 'w runtime \<Rightarrow> (uptr \<times> 'w runtime) option" where
  "MCF_gthr_self = MCF_thread_self"

definition MCF_c11_thrd_current :: "uptr \<Rightarrow> uptr option \<Rightarrow> i32 \<Rightarrow> uptr \<Rightarrow> 'w runtime \<Rightarrow> (uptr \<times> 'w runtime) option" where
  "MCF_c11_thrd_current = MCF_thread_self"

definition MCF_libcxx_thread_isnull :: "uptr \<Rightarrow> bool" where
  "MCF_libcxx_thread_isnull thrd \<longleftrightarrow> thrd = 0"

definition MCF_libcxx_thread_get_id :: "uptr \<Rightarrow> 'w runtime \<Rightarrow> u32 option" where
  "MCF_libcxx_thread_get_id thrd s = MCF_thread_get_tid thrd s"

definition MCF_libcxx_thread_id_equal :: "u32 \<Rightarrow> u32 \<Rightarrow> bool" where
  "MCF_libcxx_thread_id_equal t1 t2 \<longleftrightarrow> t1 = t2"

definition MCF_libcxx_thread_id_less :: "u32 \<Rightarrow> u32 \<Rightarrow> bool" where
  "MCF_libcxx_thread_id_less t1 t2 \<longleftrightarrow> t1 < t2"

section \<open>Thread-local values\<close>

definition MCF_gthr_key_create :: "uptr option \<Rightarrow> uptr \<Rightarrow> key_heap \<Rightarrow> int \<times> uptr \<times> key_heap" where
  "MCF_gthr_key_create place dtor_opt h =
     (let (key, h) = MCF_tls_key_new place dtor_opt h in (if key = 0 then ENOMEM else 0, key, h))"

definition MCF_c11_tss_create :: "uptr option \<Rightarrow> uptr \<Rightarrow> key_heap \<Rightarrow> int \<times> uptr \<times> key_heap" where
  "MCF_c11_tss_create place dtor_opt h =
     (let (key, h) = MCF_tls_key_new place dtor_opt h in (if key = 0 then thrd_nomem else thrd_success, key, h))"

definition MCF_libcxx_tls_create :: "uptr option \<Rightarrow> uptr \<Rightarrow> key_heap \<Rightarrow> int \<times> uptr \<times> key_heap" where
  "MCF_libcxx_tls_create place dtor_opt h =
     (let (key, h) = MCF_tls_key_new place dtor_opt h in (if key = 0 then ENOMEM else 0, key, h))"

definition MCF_gthr_key_delete :: "uptr \<Rightarrow> key_heap \<Rightarrow> (int \<times> key_heap) option" where
  "MCF_gthr_key_delete key h = map_option (\<lambda>x. (0, x)) (MCF_tls_key_delete key h)"

definition MCF_c11_tss_delete :: "uptr \<Rightarrow> key_heap \<Rightarrow> key_heap option" where
  "MCF_c11_tss_delete = MCF_tls_key_delete"

definition MCF_libcxx_tls_delete :: "uptr \<Rightarrow> key_heap \<Rightarrow> (int \<times> key_heap) option" where
  "MCF_libcxx_tls_delete key h = map_option (\<lambda>x. (0, x)) (MCF_tls_key_delete key h)"

definition MCF_gthr_getspecific :: "uptr \<Rightarrow> uptr \<Rightarrow> 'w runtime \<Rightarrow> uptr option" where
  "MCF_gthr_getspecific = MCF_tls_get"

definition MCF_c11_tss_get :: "uptr \<Rightarrow> uptr \<Rightarrow> 'w runtime \<Rightarrow> uptr option" where
  "MCF_c11_tss_get = MCF_tls_get"

definition MCF_libcxx_tls_get :: "uptr \<Rightarrow> uptr \<Rightarrow> 'w runtime \<Rightarrow> uptr option" where
  "MCF_libcxx_tls_get = MCF_tls_get"

definition MCF_gthr_setspecific :: "(nat \<Rightarrow> nat option) \<Rightarrow> uptr \<Rightarrow> uptr \<Rightarrow> uptr \<Rightarrow> 'w runtime \<Rightarrow> (int \<times> 'w runtime) option" where
  "MCF_gthr_setspecific alloc self key value s =
     map_option (\<lambda>(err, s). (if err \<noteq> 0 then EINVAL else 0, s)) (MCF_tls_set alloc self key value s)"

definition MCF_c11_tss_set :: "(nat \<Rightarrow> nat option) \<Rightarrow> uptr \<Rightarrow> uptr \<Rightarrow> uptr \<Rightarrow> 'w runtime \<Rightarrow> (int \<times> 'w runtime) option" where
  "MCF_c11_tss_set alloc self key value s =
     map_option (\<lambda>(err, s). (if err \<noteq> 0 then thrd_error else thrd_success, s)) (MCF_tls_set alloc self key value s)"

definition MCF_libcxx_tls_set :: "(nat \<Rightarrow> nat option) \<Rightarrow> uptr \<Rightarrow> uptr \<Rightarrow> uptr \<Rightarrow> 'w runtime \<Rightarrow> (int \<times> 'w runtime) option" where
  "MCF_libcxx_tls_set alloc self key value s =
     map_option (\<lambda>(err, s). (if err \<noteq> 0 then EINVAL else 0, s)) (MCF_tls_set alloc self key value s)"

section \<open>Objective-C\<close>

text \<open>The priorities of Objective-C start at 0, which is the low priority -2 of the system.\<close>

definition MCF_gthr_objc_thread_set_priority :: "(uptr \<Rightarrow> i32 \<Rightarrow> bool) \<Rightarrow> i32 \<Rightarrow> 'w runtime \<Rightarrow> int option" where
  "MCF_gthr_objc_thread_set_priority SetThreadPriority priority s =
     (let wprio = if priority <s 0 then - 2 else priority - 2
      in MCF_thread_set_priority SetThreadPriority 0 wprio s)"

definition MCF_gthr_objc_thread_get_priority :: "(uptr \<Rightarrow> i32) \<Rightarrow> 'w runtime \<Rightarrow> i32 option" where
  "MCF_gthr_objc_thread_get_priority GetThreadPriority s =
     map_option (\<lambda>wprio. if wprio <s - 2 then 0 else wprio + 2) (MCF_thread_get_priority GetThreadPriority 0 s)"

definition MCF_gthr_objc_thread_get_data :: "uptr \<Rightarrow> 'w runtime \<Rightarrow> uptr option" where
  "MCF_gthr_objc_thread_get_data self s = map_option th_libobjc_tls_data (rt_threads s self)"

text \<open>The field shares its first byte with the event.\<close>

definition MCF_gthr_objc_thread_set_data :: "uptr \<Rightarrow> uptr \<Rightarrow> 'w runtime \<Rightarrow> (int \<times> 'w runtime) option" where
  "MCF_gthr_objc_thread_set_data self value s =
     map_option (\<lambda>t. (0, s\<lparr>rt_threads := (rt_threads s)(self \<mapsto> t\<lparr>th_libobjc_tls_data := value, th_init_done := ucast value\<rparr>)\<rparr>))
       (rt_threads s self)"

definition MCF_gthr_objc_thread_exit :: "'w dtor_call \<Rightarrow> uptr \<Rightarrow> 'w runtime \<Rightarrow> (u32 \<times> 'w runtime) option" where
  "MCF_gthr_objc_thread_exit = MCF_thread_exit"

definition MCF_gthr_objc_thread_id :: "i32 \<Rightarrow> uptr" where
  "MCF_gthr_objc_thread_id tid = ucast tid"

section \<open>What the interfaces promise\<close>

lemma tls_set_get:
  assumes "rt_threads s self = Some t" "rt_keys s = h"
    and table: "tls_ok (th_tls_table t)" "tls_alive (tls_keys (tt_elems (th_tls_table t))) h"
    and key: "k \<noteq> 0" "h k = Some r" "0 <s key_nref r" "key_nref r <s 0x7FFFFFFF" "\<not> key_deleted r"
    and alloc: "\<forall>c n. alloc c = Some n \<longrightarrow> c \<le> n \<and> n \<le> 2 ^ 32"
  obtains s' where "MCF_tls_set alloc self k v s = Some (0, s')" "MCF_tls_get self k s' = Some v"
      "\<exists>r'. rt_keys s' k = Some r'" "\<exists>t'. rt_threads s' self = Some t' \<and> tls_ok (th_tls_table t')"
  | "MCF_tls_set alloc self k v s = Some (- 2, s)" "v \<noteq> 0"
proof -
  from xset_live[OF table key alloc, of v] consider
    (kept) "set_result (th_tls_table t) k v h (MCF_tls_table_xset alloc (th_tls_table t) k v h)"
    | (none) "v \<noteq> 0" "MCF_tls_table_xset alloc (th_tls_table t) k v h = Some (- 2, 0, th_tls_table t, h)" by blast
  then show ?thesis
  proof cases
    case kept
    then obtain tb h' where x: "MCF_tls_table_xset alloc (th_tls_table t) k v h = Some (0, tls_lookup (th_tls_table t) k, tb, h')"
      "tls_ok tb" "tls_lookup tb k = v" "key_is_deleted h' k = Some False" unfolding set_result_def by blast
    let ?s = "s\<lparr>rt_threads := (rt_threads s)(self \<mapsto> t\<lparr>th_tls_table := tb\<rparr>), rt_keys := h'\<rparr>"
    show ?thesis
    proof (rule that(1))
      show "MCF_tls_set alloc self k v s = Some (0, ?s)"
        using assms(1,2) x(1) by (simp add: MCF_tls_set_def MCF_tls_xset_def)
      show "MCF_tls_get self k ?s = Some v"
        using get_lookup[OF x(2) key(1) x(4)] x(3) by (simp add: MCF_tls_get_def)
    qed (use x(2,4) in \<open>auto simp: key_is_deleted_def\<close>)
  next
    case none
    have "s\<lparr>rt_threads := (rt_threads s)(self \<mapsto> t\<lparr>th_tls_table := th_tls_table t\<rparr>), rt_keys := h\<rparr> = s"
      using assms(1,2) by (simp add: map_upd_triv)
    with none assms(1,2) show ?thesis by (intro that(2)) (simp_all add: MCF_tls_set_def MCF_tls_xset_def)
  qed
qed

text \<open>C31. Thread-local values through \<open>gthr.h\<close>: a new key has the value 0 in every thread; setting
  its value and getting it give the value back, also when the table has to grow; when there is no
  memory for the key the result is \<open>ENOMEM\<close>, and when there is none for the table it is
  \<open>EINVAL\<close>, and nothing changes.\<close>

theorem specific_roundtrip:
  assumes "rt_threads s self = Some t" "tls_ok (th_tls_table t)" "tls_alive (tls_keys (tt_elems (th_tls_table t))) (rt_keys s)"
    and key: "k \<noteq> 0" "k \<notin> tls_keys (tt_elems (th_tls_table t))"
    and alloc: "\<forall>c n. alloc c = Some n \<longrightarrow> c \<le> n \<and> n \<le> 2 ^ 32"
  shows "MCF_gthr_key_create None dtor (rt_keys s) = (ENOMEM, 0, rt_keys s) \<and>
    (case MCF_gthr_key_create (Some k) dtor (rt_keys s) of
       (err, key, h) \<Rightarrow> err = 0 \<and> key = k \<and>
         (let s1 = s\<lparr>rt_keys := h\<rparr> in
          MCF_gthr_getspecific self k s1 = Some 0 \<and>
          (case MCF_gthr_setspecific alloc self k v s1 of
             None \<Rightarrow> False
           | Some (err, s2) \<Rightarrow>
               if err = 0 then MCF_gthr_getspecific self k s2 = Some v else err = EINVAL \<and> v \<noteq> 0 \<and> s2 = s1)))"
proof -
  let ?r = "\<lparr>key_nref = 1, key_deleted = False, key_dtor = dtor\<rparr>"
  define h where "h = (rt_keys s)(k \<mapsto> ?r)"
  let ?s = "s\<lparr>rt_keys := h\<rparr>"
  have new: "MCF_gthr_key_create (Some k) dtor (rt_keys s) = (0, k, h)" "h k = Some ?r"
    using key(1) by (simp_all add: MCF_gthr_key_create_def MCF_tls_key_new_def h_def)
  have alive: "tls_alive (tls_keys (tt_elems (th_tls_table t))) h"
    using assms(3) key(2) by (auto simp: tls_alive_def h_def)
  have refs: "0 <s key_nref ?r" "key_nref ?r <s 0x7FFFFFFF" "\<not> key_deleted ?r" by (simp_all add: word_sless_alt)
  have "tls_lookup (th_tls_table t) k = 0"
    using lookup_absent[OF key(1) _ key(2)] assms(2) by (simp add: tls_ok_def)
  then have zero: "MCF_gthr_getspecific self k ?s = Some 0"
    using get_lookup[OF assms(2) key(1), of h] assms(1) new(2)
    by (simp add: MCF_gthr_getspecific_def MCF_tls_get_def key_is_deleted_def)
  have set_it: "case MCF_gthr_setspecific alloc self k v ?s of
      None \<Rightarrow> False
    | Some (err, s2) \<Rightarrow> if err = 0 then MCF_gthr_getspecific self k s2 = Some v else err = EINVAL \<and> v \<noteq> 0 \<and> s2 = ?s"
    using tls_set_get[of ?s self t h k ?r alloc v] assms(1,2) alive key(1) new(2) refs alloc
    by (fastforce simp: MCF_gthr_setspecific_def MCF_gthr_getspecific_def EINVAL_def)
  show ?thesis using new(1) zero set_it by (simp add: MCF_gthr_key_create_def MCF_tls_key_new_def)
qed

definition one_thread :: "unit runtime" where
  "one_thread = \<lparr>rt_threads = [8 \<mapsto> thread_zero], rt_main = 8, rt_oom = None, rt_oom_mtx = MCF_mutex_init, rt_slot = 8,
     rt_keys = (\<lambda>_. None), rt_world = ()\<rparr>"

lemma specific_roundtrip_witness:
  "case MCF_gthr_key_create (Some 64) 0 (rt_keys one_thread) of
     (err, key, h) \<Rightarrow> err = 0 \<and> key = 64 \<and>
       (let s1 = one_thread\<lparr>rt_keys := h\<rparr> in
        MCF_gthr_getspecific 8 64 s1 = Some 0 \<and>
        (case MCF_gthr_setspecific (\<lambda>c. if c \<le> 2 ^ 32 then Some c else None) 8 64 7 s1 of
           None \<Rightarrow> False
         | Some (err, s2) \<Rightarrow> if err = 0 then MCF_gthr_getspecific 8 64 s2 = Some 7 else err = EINVAL \<and> (7 :: uptr) \<noteq> 0 \<and> s2 = s1))"
  by (rule specific_roundtrip[where t = thread_zero, THEN conjunct2])
    (simp_all add: one_thread_def thread_zero_def tls_table_zero_def tls_ok_def tls_count_def probes_ok_def tls_alive_def tls_keys_def)

text \<open>The exit code of \<open>thrd_exit\<close> survives the conversions to a pointer and back.\<close>

lemma c11_exit_code:
  assumes "has_record guid thrd rec s" "rt_slot s = thrd" "thrd \<noteq> 0"
    and "thread_set_result guid (MCF_thread_self tls_index place self_tid handle) (scast code) s = Some s1"
    and "keeps_record guid thrd rec s1 s2" "thread_ended thrd s2"
    and "MCF_thread_get_tid thrd sj = Some other" "other \<noteq> tid"
  shows "MCF_c11_thrd_join guid tid (\<lambda>_. Some s2) thrd True sj =
    Some (thrd_success, Some code, s2\<lparr>rt_threads := (rt_threads s2)(thrd := None)\<rparr>)"
proof -
  have s1: "s1 = set_record rec (scast code) s" using exit_sets_result[OF assms(1-3)] assms(4) by simp
  have "has_record guid thrd rec s2" "record_result rec s2 = scast code"
    using keeps_record_parts[OF assms(5)] set_record_parts(1,2) assms(1) s1 by auto
  moreover have "ucast (scast code :: uptr) = code" by (rule bit_word_eqI) (simp add: bit_simps)
  ultimately show ?thesis
    using join_ended[OF _ assms(6-8)] by (simp add: MCF_c11_thrd_join_def)
qed

text \<open>Priorities of Objective-C from 0 to 17 come back; greater ones are refused.\<close>

lemma objc_priority:
  assumes "0 \<le> sint p" "sint p \<le> 17"
  shows "MCF_gthr_objc_thread_set_priority sys p s = Some (if sys NtCurrentThread (p - 2) then 0 else - 2) \<and>
    MCF_gthr_objc_thread_get_priority (\<lambda>_. p - 2) s = Some p"
proof -
  have p: "sint (p - 2) = sint p - 2" using assms signed_take_bit_int_eq_self[of 31 "sint p - 2"] by (simp add: sint_word_ariths)
  then show ?thesis using assms
    by (simp add: MCF_gthr_objc_thread_set_priority_def MCF_gthr_objc_thread_get_priority_def MCF_thread_set_priority_def
        MCF_thread_get_priority_def thread_handle_def word_sless_alt Let_def)
qed

end
