(* ===== verification/Mcf_Globals.thy ===== *)
theory Mcf_Globals
  imports Mcf_Prelude
begin

text \<open>
  The global data of a process: \<open>struct __MCF_crt_xglobals\<close> in \<open>src/xglobals.h\<close> and the part of
  \<open>__MCF_gthread_initialize_globals\<close> in \<open>src/xglobals.c\<close> that finds or makes them. Every copy of
  the library in a process, which may be of another version, runs it once: it opens the section
  whose name is made of the process identifier, maps a view of it, and uses that view or the one
  that an earlier copy has left in the section. A copy is given by the size of the structure that
  it was compiled with. The layout is the one of a 64-bit system.
\<close>

unbundle bit_operations_syntax

section \<open>The name of the section\<close>

definition do_hex_encode :: "nat \<Rightarrow> u64 \<Rightarrow> string \<Rightarrow> string" where
  "do_hex_encode width value digits =
     map (\<lambda>k. digits ! unat (drop_bit ((width - 1 - k) * 4) value AND 0x0F)) [0..<width]"

definition do_make_cookie :: "(uptr \<Rightarrow> uptr) \<Rightarrow> u32 \<Rightarrow> u64" where
  "do_make_cookie EncodePointer seed =
     (let val = ucast seed * 0x100000001 in EncodePointer (NOT val) * 0x9E3779B97F4A7C15)"

definition s_gname :: "(uptr \<Rightarrow> uptr) \<Rightarrow> u32 \<Rightarrow> string" where
  "s_gname EncodePointer pid =
     ''Local'' @ [CHR 0x5C] @ ''__MCF_crt_xglobals_'' @ do_hex_encode 8 (ucast pid) ''0123456789ABCDEF'' @ ''_'' @
     do_hex_encode 16 (do_make_cookie EncodePointer pid) ''GHJKLMNPQRSTUWXY''"

text \<open>Two processes never have the same name.\<close>

lemma hex_digits:
  assumes "do_hex_encode w v digits = do_hex_encode w v' digits" "distinct digits" "length digits = 16" "k < w"
  shows "drop_bit (k * 4) v AND 0x0F = drop_bit (k * 4) v' AND 0x0F"
proof -
  have less: "unat (x AND 0x0F) < 16" for x :: u64
  proof -
    have "x AND 0x0F \<le> 0x0F" by (rule word_and_le1)
    then show ?thesis by (simp add: word_le_nat_alt)
  qed
  have "do_hex_encode w v digits ! (w - 1 - k) = do_hex_encode w v' digits ! (w - 1 - k)" using assms(1) by simp
  then have "digits ! unat (drop_bit (k * 4) v AND 0x0F) = digits ! unat (drop_bit (k * 4) v' AND 0x0F)"
    using assms(4) by (simp add: do_hex_encode_def)
  then show ?thesis using assms(2,3) less by (auto simp: nth_eq_iff_index_eq intro: word_unat_eq_iff[THEN iffD2])
qed

lemma gname_of_process:
  assumes "s_gname EncodePointer pid = s_gname EncodePointer' pid'"
  shows "pid = pid'"
proof (rule bit_word_eqI)
  fix n assume n: "n < LENGTH(32)"
  have "do_hex_encode 8 (ucast pid) ''0123456789ABCDEF'' = do_hex_encode 8 (ucast pid') ''0123456789ABCDEF''"
    using assms by (auto simp: s_gname_def do_hex_encode_def append_eq_append_conv)
  from hex_digits[OF this, of "n div 4"] n
  have "bit (drop_bit (n div 4 * 4) (ucast pid :: u64) AND 0x0F) (n mod 4) = bit (drop_bit (n div 4 * 4) (ucast pid' :: u64) AND 0x0F) (n mod 4)"
    by simp
  moreover have "bit (0x0F :: u64) (n mod 4)"
  proof -
    have "n mod 4 \<in> {0, 1, 2, 3}" by auto
    then show ?thesis by auto
  qed
  ultimately show "bit pid n = bit pid' n" using n by (simp add: bit_and_iff bit_drop_bit_eq bit_ucast_iff)
qed

section \<open>The layout\<close>

datatype global_field =
    G_self_ptr | G_self_size | G_tls_index | G_main_thread | G_exit_mtx | G_exit_queue
  | G_quick_exit_mtx | G_quick_exit_queue | G_mutex_spin_field | G_interrupt_cond
  | G_reserved_1 | G_reserved_2 | G_thread_oom_mtx | G_opt_thread_oom_self_st | G_reserved_3 | G_reserved_4

text \<open>The size of the structure up to and with a field, on a 64-bit system.\<close>

fun MCF_G_SIZE :: "global_field \<Rightarrow> nat" where
  "MCF_G_SIZE G_self_ptr = 8"
| "MCF_G_SIZE G_self_size = 12"
| "MCF_G_SIZE G_tls_index = 16"
| "MCF_G_SIZE G_main_thread = 1616"
| "MCF_G_SIZE G_exit_mtx = 1624"
| "MCF_G_SIZE G_exit_queue = 3152"
| "MCF_G_SIZE G_quick_exit_mtx = 3160"
| "MCF_G_SIZE G_quick_exit_queue = 4688"
| "MCF_G_SIZE G_mutex_spin_field = 6784"
| "MCF_G_SIZE G_interrupt_cond = 6792"
| "MCF_G_SIZE G_reserved_1 = 6800"
| "MCF_G_SIZE G_reserved_2 = 6808"
| "MCF_G_SIZE G_thread_oom_mtx = 6816"
| "MCF_G_SIZE G_opt_thread_oom_self_st = 8416"
| "MCF_G_SIZE G_reserved_3 = 8424"
| "MCF_G_SIZE G_reserved_4 = 8432"

text \<open>The fields are ordered by where they end.\<close>

instantiation global_field :: linorder
begin

definition less_eq_global_field :: "global_field \<Rightarrow> global_field \<Rightarrow> bool" where
  "less_eq_global_field f g \<longleftrightarrow> MCF_G_SIZE f \<le> MCF_G_SIZE g"

definition less_global_field :: "global_field \<Rightarrow> global_field \<Rightarrow> bool" where
  "less_global_field f g \<longleftrightarrow> MCF_G_SIZE f < MCF_G_SIZE g"

instance
proof
  fix f g :: global_field
  have "inj MCF_G_SIZE" by (rule injI) (elim MCF_G_SIZE.elims; simp)
  then show "f = g" if "f \<le> g" "g \<le> f" using that by (simp add: less_eq_global_field_def injD)
qed (auto simp: less_eq_global_field_def less_global_field_def)

end

definition MCF_G_SIZE_TOTAL :: nat where
  "MCF_G_SIZE_TOTAL = 8448"

definition MCF_HAS_G :: "nat \<Rightarrow> global_field \<Rightarrow> bool" where
  "MCF_HAS_G self_size f \<longleftrightarrow> MCF_G_SIZE f \<le> self_size"

text \<open>\<open>__MCF_G\<close> asserts that the field is there, \<open>__MCF_G_OPT\<close> gives a null pointer if not.\<close>

definition MCF_G :: "nat \<Rightarrow> global_field \<Rightarrow> global_field option" where
  "MCF_G self_size f = (if MCF_HAS_G self_size f then Some f else None)"

definition MCF_G_OPT :: "nat \<Rightarrow> global_field \<Rightarrow> global_field option" where
  "MCF_G_OPT self_size f = (if MCF_HAS_G self_size f then Some f else None)"

lemma older_fields: "MCF_HAS_G self_size g \<Longrightarrow> f \<le> g \<Longrightarrow> MCF_HAS_G self_size f"
  by (simp add: MCF_HAS_G_def less_eq_global_field_def)

section \<open>Opening the section\<close>

text \<open>The section, with the fields that the initialisation sets; a new one is zero.\<close>

record xglobals =
  g_size :: nat
  g_self_ptr :: uptr
  g_self_size :: nat
  g_tls_index :: u32
  g_main_nref :: nat

record g_process =
  p_section :: "xglobals option"
  p_views :: "uptr list"
  p_slots :: nat
  p_attached :: nat

definition page_size :: nat where
  "page_size = 4096"

definition NtCreateSection :: "nat \<Rightarrow> g_process \<Rightarrow> xglobals" where
  "NtCreateSection sz p =
     (case p_section p of
        Some g \<Rightarrow> g
      | None \<Rightarrow> \<lparr>g_size = (sz + page_size - 1) div page_size * page_size, g_self_ptr = 0, g_self_size = 0,
                 g_tls_index = 0, g_main_nref = 0\<rparr>)"

text \<open>\<open>view\<close> is where the system maps the section and \<open>slot\<close> what \<open>TlsAlloc\<close> gives; the result is the
  pointer \<open>__MCF_g\<close> of this copy.\<close>

definition MCF_gthread_initialize_globals :: "nat \<Rightarrow> uptr \<Rightarrow> u32 \<Rightarrow> g_process \<Rightarrow> (uptr \<times> g_process) option" where
  "MCF_gthread_initialize_globals sz view slot p =
     (let g = NtCreateSection sz p; gsize = g_size g; p = p\<lparr>p_section := Some g, p_views := view # p_views p\<rparr> in
      if g_self_size g \<ge> sz then
        (if g_self_ptr g = 0 then None else Some (g_self_ptr g, p\<lparr>p_views := remove1 view (p_views p)\<rparr>))
      else
        (let init = g_self_size g = 0;
             g' = (if init then g\<lparr>g_self_ptr := view, g_self_size := MCF_G_SIZE G_interrupt_cond, g_tls_index := slot,
                                  g_main_nref := 2\<rparr> else g);
             p = (if init then p\<lparr>p_slots := p_slots p + 1, p_attached := p_attached p + 1\<rparr> else p);
             g' = (if g_self_size g' < sz \<and> sz \<le> gsize then g'\<lparr>g_self_size := sz\<rparr> else g')
         in if init \<and> (gsize < MCF_G_SIZE G_interrupt_cond \<or> slot = 0xFFFFFFFF) then None
            else Some (view, p\<lparr>p_section := Some g'\<rparr>)))"

text \<open>The copies that are loaded one after the other, each with its view.\<close>

fun load_copies :: "u32 \<Rightarrow> (nat \<times> uptr) list \<Rightarrow> g_process \<Rightarrow> (uptr list \<times> g_process) option" where
  "load_copies slot [] p = Some ([], p)"
| "load_copies slot ((sz, view) # copies) p =
     Option.bind (MCF_gthread_initialize_globals sz view slot p)
       (\<lambda>(g, p). map_option (apfst (Cons g)) (load_copies slot copies p))"

definition new_process :: g_process where
  "new_process = \<lparr>p_section = None, p_views = [], p_slots = 0, p_attached = 0\<rparr>"

section \<open>One set of global data\<close>

text \<open>What the first copy, with the size \<open>sz\<close> and the view \<open>view\<close>, establishes, and every other keeps.\<close>

definition globals_ok :: "nat \<Rightarrow> uptr \<Rightarrow> u32 \<Rightarrow> g_process \<Rightarrow> bool" where
  "globals_ok sz view slot p \<longleftrightarrow> p_slots p = 1 \<and> p_attached p = 1 \<and>
     (case p_section p of
        None \<Rightarrow> False
      | Some g \<Rightarrow> g_self_ptr g = view \<and> g_main_nref g = 2 \<and> g_tls_index g = slot \<and> sz \<le> g_self_size g \<and>
          0 < g_self_size g \<and> g_self_size g \<le> g_size g)"

lemma first_copy:
  assumes "6792 \<le> sz" "view \<noteq> 0" "slot \<noteq> 0xFFFFFFFF"
  shows "\<exists>p. MCF_gthread_initialize_globals sz view slot new_process = Some (view, p) \<and> globals_ok sz view slot p"
proof -
  have "sz \<le> (sz + 4095) div 4096 * 4096"
    using div_mult_mod_eq[of "sz + 4095" 4096] mod_less_divisor[of 4096 "sz + 4095"] by linarith
  then show ?thesis
    using assms by (auto simp: MCF_gthread_initialize_globals_def Let_def NtCreateSection_def new_process_def globals_ok_def page_size_def)
qed

lemma next_copy:
  assumes "globals_ok sz view slot p" "view \<noteq> 0"
  shows "\<exists>g p'. MCF_gthread_initialize_globals sz' view' slot' p = Some (g, p') \<and> globals_ok sz view slot p' \<and>
    (sz' \<le> sz \<longrightarrow> g = view)"
proof -
  obtain x where x: "p_section p = Some x" using assms(1) by (auto simp: globals_ok_def split: option.splits)
  show ?thesis
    using assms x by (auto simp: MCF_gthread_initialize_globals_def Let_def NtCreateSection_def globals_ok_def)
qed

lemma next_copies:
  assumes "globals_ok sz view slot p" "view \<noteq> 0"
  shows "\<exists>gs p'. load_copies slot copies p = Some (gs, p') \<and> globals_ok sz view slot p' \<and> length gs = length copies \<and>
    (\<forall>i < length copies. fst (copies ! i) \<le> sz \<longrightarrow> gs ! i = view)"
  using assms(1)
proof (induction copies arbitrary: p)
  case (Cons c copies)
  obtain sz' view' where c: "c = (sz', view')" by force
  obtain g p1 where 1: "MCF_gthread_initialize_globals sz' view' slot p = Some (g, p1)" "globals_ok sz view slot p1"
    "sz' \<le> sz \<Longrightarrow> g = view" using next_copy[OF Cons.prems assms(2)] by blast
  obtain gs p2 where 2: "load_copies slot copies p1 = Some (gs, p2)" "globals_ok sz view slot p2" "length gs = length copies"
    "\<And>i. i < length copies \<Longrightarrow> fst (copies ! i) \<le> sz \<Longrightarrow> gs ! i = view" using Cons.IH[OF 1(2)] by blast
  show ?case
  proof (intro exI[of _ "g # gs"] exI[of _ p2] conjI allI impI)
    show "(g # gs) ! i = view" if "i < length (c # copies)" "fst ((c # copies) ! i) \<le> sz" for i
      using that 1(3) 2(4) c by (cases i) auto
  qed (use 1 2 c in simp_all)
qed simp

text \<open>C39. However many copies of the library a process loads: the initialisation of each succeeds; one
  TLS slot is allocated and the main thread is attached once, with two references; every copy
  whose structure is not larger than that of the first one uses the view of the first one; the
  size in the section never exceeds the view, so that every field that \<open>__MCF_G\<close> and
  \<open>__MCF_G_OPT\<close> let through lies inside it; and \<open>__MCF_G\<close> fails for no field of the first release.\<close>

theorem globals_shared:
  assumes "6792 \<le> sz" "view \<noteq> 0" "slot \<noteq> 0xFFFFFFFF"
  shows "case load_copies slot ((sz, view) # copies) new_process of
      None \<Rightarrow> False
    | Some (gs, p) \<Rightarrow> p_slots p = 1 \<and> p_attached p = 1 \<and>
        (\<forall>i \<le> length copies. fst (((sz, view) # copies) ! i) \<le> sz \<longrightarrow> gs ! i = view) \<and>
        (case p_section p of
           None \<Rightarrow> False
         | Some g \<Rightarrow> g_self_ptr g = view \<and> g_main_nref g = 2 \<and> g_tls_index g = slot \<and> sz \<le> g_self_size g \<and>
             (\<forall>f \<le> G_interrupt_cond. MCF_G (g_self_size g) f = Some f) \<and>
             (\<forall>f. (MCF_G (g_self_size g) f \<noteq> None \<longrightarrow> MCF_G_SIZE f \<le> g_size g) \<and>
                  (MCF_G_OPT (g_self_size g) f \<noteq> None \<longrightarrow> MCF_G_SIZE f \<le> g_size g)))"
proof -
  obtain p where p: "MCF_gthread_initialize_globals sz view slot new_process = Some (view, p)" "globals_ok sz view slot p"
    using first_copy[OF assms] by blast
  obtain gs p' where c: "load_copies slot copies p = Some (gs, p')" "globals_ok sz view slot p'"
    "\<And>i. i < length copies \<Longrightarrow> fst (copies ! i) \<le> sz \<Longrightarrow> gs ! i = view"
    using next_copies[OF p(2) assms(2), of copies] by blast
  have "(view # gs) ! i = view" if "i \<le> length copies" "fst (((sz, view) # copies) ! i) \<le> sz" for i
    using that c(3) by (cases i) auto
  moreover have "MCF_HAS_G (g_self_size g) f" if "p_section p' = Some g" "f \<le> G_interrupt_cond" for g f
  proof (rule older_fields[OF _ that(2)])
    show "MCF_HAS_G (g_self_size g) G_interrupt_cond"
      using assms(1) c(2) that(1) by (auto simp: globals_ok_def MCF_HAS_G_def)
  qed
  moreover have "load_copies slot ((sz, view) # copies) new_process = Some (view # gs, p')" using p(1) c(1) by simp
  ultimately show ?thesis
    using c(2) by (auto simp: globals_ok_def MCF_G_def MCF_G_OPT_def MCF_HAS_G_def split: option.splits if_splits)
qed

lemma globals_shared_witness:
  "case load_copies 5 [(MCF_G_SIZE_TOTAL, 0x10000), (MCF_G_SIZE_TOTAL, 0x20000)] new_process of
      None \<Rightarrow> False
    | Some (gs, p) \<Rightarrow> p_slots p = 1 \<and> p_attached p = 1 \<and> gs ! 1 = 0x10000"
proof -
  have "6792 \<le> MCF_G_SIZE_TOTAL" by (simp add: MCF_G_SIZE_TOTAL_def)
  from globals_shared[OF this, where view = "0x10000" and slot = "5" and copies = "[(MCF_G_SIZE_TOTAL, 0x20000)]"] show ?thesis
    by (auto split: option.splits)
qed

text \<open>A copy with a larger structure keeps the view it has mapped itself. Here the first copy has the
  structure without the fields of version 1.8 and later.\<close>

lemma newer_copy_has_own_view:
  "case load_copies 5 [(6848, 0x10000), (MCF_G_SIZE_TOTAL, 0x20000)] new_process of
      None \<Rightarrow> False
    | Some (gs, p) \<Rightarrow> gs = [0x10000, 0x20000] \<and> map_option g_self_ptr (p_section p) = Some 0x10000"
  by (simp add: MCF_gthread_initialize_globals_def Let_def NtCreateSection_def new_process_def page_size_def MCF_G_SIZE_TOTAL_def)

end
