(* ===== verification/Mcf_Failure.thy ===== *)
theory Mcf_Failure
  imports Mcf_Prelude
begin

text \<open>
  What happens when the library cannot go on, in \<open>src/xglobals.c\<close>: the message box of
  \<open>do_notify_runtime_failure\<close>, whose texts are put together in one buffer on the stack, the topmost
  exception handlers, and the search for a function in the loaded modules.

  The messages and names that the system gives are functions of the space that it is told. The result
  \<open>None\<close> is an access outside a buffer.

  Shown: the texts are what they are meant to be as long as the path of the program is not very
  long; a longer path makes the function read past the end of its buffer. A search leaves one
  lock, on the module with the function, and it stays inside its array unless modules are loaded meanwhile.
\<close>

unbundle bit_operations_syntax

section \<open>The message\<close>

definition do_append_string :: "u16 \<Rightarrow> nat \<times> u16 list \<Rightarrow> nat \<times> u16 list" where
  "do_append_string c st = (case st of (sp, buf) \<Rightarrow> if sp \<noteq> length buf then (sp + 1, buf[sp := c]) else (sp, buf))"

text \<open>The system writes characters at a place.\<close>

definition write_at :: "nat \<Rightarrow> u16 list \<Rightarrow> u16 list \<Rightarrow> u16 list" where
  "write_at at cs buf = take at buf @ cs @ drop (at + length cs) buf"

text \<open>A message comes with a terminator, which does not count. There is none if it does not fit.\<close>

definition do_format_message :: "(nat \<Rightarrow> u16 list) \<Rightarrow> nat \<Rightarrow> u16 list \<Rightarrow> nat \<times> u16 list" where
  "do_format_message FormatMessageW outptr buf =
     (let cs = FormatMessageW (length buf - outptr)
      in if cs = [] then (0, buf) else (length cs, write_at outptr (cs @ [0]) buf))"

lemma length_append_string [simp]: "length (snd (do_append_string c st)) = length (snd st)"
  by (simp add: do_append_string_def split: prod.split)

lemma length_append_all [simp]: "length (snd (fold do_append_string cs st)) = length (snd st)"
  by (induction cs arbitrary: st) simp_all

text \<open>The caption: up to the closing brace.\<close>

function copy_caption :: "nat \<Rightarrow> nat \<times> u16 list \<Rightarrow> (nat \<times> u16 list) option" where
  "copy_caption lptr st =
     (if length (snd st) \<le> lptr then None
      else
        (let c = snd st ! lptr in
         if c \<noteq> 0 \<and> c \<noteq> 0x7D then copy_caption (lptr + 1) (do_append_string c st) else Some st))"
  by pat_completeness auto
termination by (relation "measure (\<lambda>(lptr, st). length (snd st) - lptr)") auto

text \<open>The comparison reads as far as the characters agree.\<close>

definition wide :: "string \<Rightarrow> u16 list" where
  "wide = map of_char"

definition debug_name :: "u16 list" where
  "debug_name = wide ''DebugActiveProcess''"

definition names_debugger :: "nat \<Rightarrow> u16 list \<Rightarrow> bool option" where
  "names_debugger lptr buf =
     (let cs = take 18 (drop lptr buf) in
      if cs = debug_name then Some True
      else if length cs < 18 \<and> cs = take (length cs) debug_name then None
      else Some False)"

definition append_where :: "u16 list \<Rightarrow> nat \<times> u16 list \<Rightarrow> nat \<times> u16 list" where
  "append_where pwh st = do_append_string 0x60 (fold do_append_string pwh (do_append_string 0x60 st))"

lemma length_append_where [simp]: "length (snd (append_where pwh st)) = length (snd st)"
  by (simp add: append_where_def)

function copy_text :: "nat \<Rightarrow> u16 list \<Rightarrow> nat \<times> u16 list \<Rightarrow> (nat \<times> u16 list) option" where
  "copy_text lptr pwh st =
     (if length (snd st) \<le> lptr then None
      else
        (let c = snd st ! lptr in
         if c \<noteq> 0 \<and> c \<noteq> 0x7D then
           (case names_debugger lptr (snd st) of
              None \<Rightarrow> None
            | Some named \<Rightarrow>
                if named then copy_text (lptr + 18) pwh (append_where pwh st)
                else copy_text (lptr + 1) pwh (do_append_string c st))
         else Some st))"
  by pat_completeness auto
termination by (relation "measure (\<lambda>(lptr, pwh, st). length (snd st) - lptr)") auto

declare copy_caption.simps [simp del] copy_text.simps [simp del]

text \<open>The three messages, the path of the program, the name of the failed function and what
  is in the buffer at first; the caption and the text.\<close>

definition do_notify_runtime_failure :: "(nat \<Rightarrow> u16 list) \<Rightarrow> (nat \<Rightarrow> u16 list) \<Rightarrow> (nat \<Rightarrow> u16 list) \<Rightarrow>
    (nat \<Rightarrow> u16 list) \<Rightarrow> u8 list \<Rightarrow> u16 list \<Rightarrow> (u16 list \<times> u16 list) option" where
  "do_notify_runtime_failure message_574 message_590 message GetModuleFileNameW where_name buffer = (
     let lptr = length buffer - 127;
         (outlen, buf) = do_format_message message_574 lptr buffer in
     case (if outlen \<noteq> 0 \<and> buf ! lptr = 0x7B then copy_caption (lptr + 1) (0, buf) else Some (0, buf)) of
       None \<Rightarrow> None
     | Some (sptr, buf) \<Rightarrow>
         (let caption_length = sptr;
              path = GetModuleFileNameW (length buf - sptr);
              (sptr, buf) =
                (if path \<noteq> [] then
                   fold do_append_string [13, 10, 13, 10]
                     (sptr + length path,
                      write_at sptr (path @ (if length path < length buf - sptr then [0] else [])) buf)
                 else (sptr, buf));
              (outlen, buf) = do_format_message message_590 lptr buf
          in case (if outlen \<noteq> 0 \<and> buf ! lptr = 0x7B
                   then map_option (fold do_append_string [0x3A, 0x20]) (copy_text (lptr + 1) (map ucast where_name) (sptr, buf))
                   else Some (sptr, buf)) of
               None \<Rightarrow> None
             | Some (sptr, buf) \<Rightarrow>
                 (let (outlen, buf) = do_format_message message sptr buf;
                      sptr = sptr + outlen
                  in Some (take caption_length buf, take (sptr - caption_length) (drop caption_length buf)))))"

text \<open>The code of the exception that ends the process.\<close>

definition MCF_runtime_failure :: "u32 \<Rightarrow> u32" where
  "MCF_runtime_failure code = 0xC0070000 + code"

definition MCF_runtime_failure_from_ntstatus :: "u32 \<Rightarrow> u32" where
  "MCF_runtime_failure_from_ntstatus status = status"

section \<open>Exception handlers\<close>

text \<open>What a topmost handler does. \<open>terminate_found\<close> tells whether a loaded module has
  \<open>__std_terminate\<close>.\<close>

datatype seh_end = Continue_execution | Fail_fast | Std_terminate | Exits i32 | Ends_thread

definition EXCEPTION_NONCONTINUABLE :: u32 where "EXCEPTION_NONCONTINUABLE = 1"
definition EXCEPTION_EXIT_UNWIND :: u32 where "EXCEPTION_EXIT_UNWIND = 4"

definition MCF_seh_top :: "bool \<Rightarrow> u32 \<Rightarrow> u32 \<Rightarrow> seh_end" where
  "MCF_seh_top terminate_found code flags =
     (if code = 0x20474343 then
        (if flags AND EXCEPTION_NONCONTINUABLE = 0 then Continue_execution else Fail_fast)
      else if code = 0xE06D7363 then (if terminate_found then Std_terminate else Fail_fast)
      else Fail_fast)"

definition MCF_seh_process_top :: "bool \<Rightarrow> u32 \<Rightarrow> u32 \<Rightarrow> seh_end" where
  "MCF_seh_process_top terminate_found code flags =
     (if flags AND EXCEPTION_EXIT_UNWIND \<noteq> 0 then Exits code else MCF_seh_top terminate_found code flags)"

definition MCF_seh_thread_top :: "bool \<Rightarrow> u32 \<Rightarrow> u32 \<Rightarrow> seh_end" where
  "MCF_seh_thread_top terminate_found code flags =
     (if flags AND EXCEPTION_EXIT_UNWIND \<noteq> 0 then Ends_thread else MCF_seh_top terminate_found code flags)"

section \<open>Loaded modules\<close>

text \<open>The loop over the handles, with the number of locks on each module. The result is the function, the
  module and the locks; 0 is none.\<close>

fun search_dlls :: "(uptr \<Rightarrow> uptr option) \<Rightarrow> (uptr \<Rightarrow> uptr) \<Rightarrow> uptr list \<Rightarrow> (uptr \<Rightarrow> int) \<Rightarrow> uptr \<times> uptr \<times> (uptr \<Rightarrow> int)" where
  "search_dlls GetModuleHandleExW GetProcAddress [] locks = (0, 0, locks)"
| "search_dlls GetModuleHandleExW GetProcAddress (p # ps) locks =
     (case GetModuleHandleExW p of
        None \<Rightarrow> search_dlls GetModuleHandleExW GetProcAddress ps locks
      | Some m \<Rightarrow>
          (let locks = locks(m := locks m + 1) in
           if m = p \<and> GetProcAddress m \<noteq> 0 then (GetProcAddress m, m, locks)
           else search_dlls GetModuleHandleExW GetProcAddress ps (locks(m := locks m - 1))))"

text \<open>Each call of \<open>K32EnumProcessModules\<close> reports the handles of all modules, and writes those for
  which there is room: 8 in the first array.\<close>

definition MCF_get_function_from_loaded_dlls :: "uptr list option \<Rightarrow> uptr list option \<Rightarrow> (uptr \<Rightarrow> uptr option) \<Rightarrow> (uptr \<Rightarrow> uptr) \<Rightarrow>
    (uptr \<Rightarrow> int) \<Rightarrow> (uptr \<times> uptr \<times> (uptr \<Rightarrow> int)) option" where
  "MCF_get_function_from_loaded_dlls first second GetModuleHandleExW GetProcAddress locks =
     (case first of
        None \<Rightarrow> Some (0, 0, locks)
      | Some dlls \<Rightarrow>
          if 8 * length dlls > 64 then
            (case second of
               None \<Rightarrow> Some (0, 0, locks)
             | Some dlls2 \<Rightarrow>
                 (let r = search_dlls GetModuleHandleExW GetProcAddress (take (length dlls) dlls2) locks
                  in if fst r = 0 \<and> length dlls < length dlls2 then None else Some r))
          else Some (search_dlls GetModuleHandleExW GetProcAddress dlls locks))"

section \<open>The texts\<close>

text \<open>What the texts are meant to be: the part of a message between braces, in which the name of the failed
  function stands for the name in the message.\<close>

definition ends_brace :: "u16 \<Rightarrow> bool" where
  "ends_brace c \<longleftrightarrow> c = 0 \<or> c = 0x7D"

definition braced :: "u16 list \<Rightarrow> u16 list option" where
  "braced m = (if m \<noteq> [] \<and> hd m = 0x7B then Some (takeWhile (\<lambda>c. \<not> ends_brace c) (tl m)) else None)"

function expand :: "u16 list \<Rightarrow> u16 list \<Rightarrow> u16 list" where
  "expand pwh [] = []"
| "expand pwh (c # cs) =
     (if take 18 (c # cs) = debug_name then 0x60 # pwh @ 0x60 # expand pwh (drop 17 cs) else c # expand pwh cs)"
  by pat_completeness auto
termination by (relation "measure (\<lambda>(pwh, cs). length cs)") auto

definition box_caption :: "u16 list \<Rightarrow> u16 list" where
  "box_caption m = (case braced m of None \<Rightarrow> [] | Some cs \<Rightarrow> cs)"

definition box_path :: "u16 list \<Rightarrow> u16 list" where
  "box_path path = (if path = [] then [] else path @ [13, 10, 13, 10])"

definition box_reason :: "u16 list \<Rightarrow> u16 list \<Rightarrow> u16 list" where
  "box_reason pwh m = (case braced m of None \<Rightarrow> [] | Some cs \<Rightarrow> expand pwh cs @ [0x3A, 0x20])"

lemma length_write_at: "at + length cs \<le> length buf \<Longrightarrow> length (write_at at cs buf) = length buf"
  by (simp add: write_at_def)

lemma take_write_at: "n \<le> at \<Longrightarrow> at + length cs \<le> length buf \<Longrightarrow> take n (write_at at cs buf) = take n buf"
  by (simp add: write_at_def min_def)

lemma drop_write_at: "at + length cs \<le> n \<Longrightarrow> at + length cs \<le> length buf \<Longrightarrow> drop n (write_at at cs buf) = drop n buf"
  by (simp add: write_at_def min_def)

lemma written:
  assumes "at + length cs \<le> length buf"
  shows "drop at (write_at at cs buf) = cs @ drop (at + length cs) buf"
proof -
  have "length (take at buf) = at" using assms by simp
  then show ?thesis unfolding write_at_def by (metis append_eq_conv_conj)
qed

lemma taken:
  assumes "at + length cs \<le> length buf"
  shows "take (at + length cs) (write_at at cs buf) = take at buf @ cs"
proof -
  have "length (take at buf @ cs) = at + length cs" using assms by simp
  then show ?thesis unfolding write_at_def by (metis append_assoc append_eq_conv_conj)
qed

lemma append_all_fits: "sp + length cs \<le> length buf \<Longrightarrow> fold do_append_string cs (sp, buf) = (sp + length cs, write_at sp cs buf)"
proof (induction cs arbitrary: sp buf)
  case (Cons c cs)
  then have "take (Suc sp) (buf[sp := c]) = take sp buf @ [c]" by (simp add: take_Suc_conv_app_nth)
  then show ?case using Cons by (simp add: do_append_string_def write_at_def)
qed (simp add: write_at_def)

lemma copy_caption_fits:
  assumes "drop lptr buf = cs @ e # rest" "ends_brace e" "\<forall>c \<in> set cs. \<not> ends_brace c" "sp + length cs \<le> lptr"
  shows "copy_caption lptr (sp, buf) = Some (fold do_append_string cs (sp, buf))"
  using assms
proof (induction cs arbitrary: lptr sp buf)
  case Nil
  then have "lptr < length buf" "buf ! lptr = e" by (metis drop_all list.discI append_Nil not_le, metis append_Nil nth_via_drop)
  then show ?case using Nil by (subst copy_caption.simps) (auto simp: ends_brace_def Let_def)
next
  case (Cons c cs)
  then have at: "lptr < length buf" "buf ! lptr = c" by (metis drop_all list.discI append_Cons not_le, metis append_Cons nth_via_drop)
  have "drop (lptr + 1) buf = cs @ e # rest" using Cons.prems(1) by (metis Suc_eq_plus1 append_Cons drop_Suc list.sel(3) tl_drop)
  then have "drop (lptr + 1) (buf[sp := c]) = cs @ e # rest" using Cons.prems(4) by simp
  from Cons.IH[OF this Cons.prems(2), of "sp + 1"] Cons.prems(3,4)
  have "copy_caption (lptr + 1) (sp + 1, buf[sp := c]) = Some (fold do_append_string cs (sp + 1, buf[sp := c]))" by simp
  moreover have "do_append_string c (sp, buf) = (sp + 1, buf[sp := c])" using at(1) Cons.prems(4) by (simp add: do_append_string_def)
  ultimately show ?case using at Cons.prems(3) by (subst copy_caption.simps) (simp add: ends_brace_def Let_def)
qed

lemma debug_name_facts [simp]: "length debug_name = 18" "0 \<notin> set debug_name" "0x7D \<notin> set debug_name" "hd debug_name = 0x44"
  by (simp_all add: debug_name_def wide_def)

lemma names_debugger_braced:
  assumes "drop lptr buf = cs @ e # rest" "ends_brace e"
  shows "names_debugger lptr buf = Some (take 18 cs = debug_name)"
proof (cases "length cs < 18")
  case False
  then show ?thesis using assms(1) by (simp add: names_debugger_def Let_def)
next
  case True
  then have "18 - length cs = Suc (17 - length cs)" by simp
  then have e: "e \<in> set (take 18 (cs @ e # rest))" by simp
  have other: "take 18 (cs @ e # rest) \<noteq> take n debug_name" for n
  proof
    assume "take 18 (cs @ e # rest) = take n debug_name"
    with e have "e \<in> set (take n debug_name)" by (rule back_subst[of "\<lambda>xs. e \<in> set xs"])
    then show False using assms(2) in_set_takeD[of e n debug_name] by (auto simp: ends_brace_def)
  qed
  have "take 18 (cs @ e # rest) \<noteq> debug_name" using other[of 18] by (metis debug_name_facts(1) order_refl take_all)
  moreover have "take 18 cs \<noteq> debug_name" using arg_cong[of "take 18 cs" debug_name length] True by auto
  ultimately show ?thesis using assms(1) other[of "length (take 18 (cs @ e # rest))"]
    unfolding names_debugger_def Let_def assms(1) by (simp del: take_append)
qed

lemma append_where_fold: "append_where pwh st = fold do_append_string (0x60 # pwh @ [0x60]) st"
  by (simp add: append_where_def)

lemma copy_text_fits:
  assumes "drop lptr buf = cs @ e # rest" "ends_brace e" "\<forall>c \<in> set cs. \<not> ends_brace c" "sp + length (expand pwh cs) \<le> lptr"
  shows "copy_text lptr pwh (sp, buf) = Some (fold do_append_string (expand pwh cs) (sp, buf))"
  using assms
proof (induction pwh cs arbitrary: lptr sp buf rule: expand.induct)
  case (1 pwh)
  then have "lptr < length buf" "buf ! lptr = e" by (metis drop_all list.discI append_Nil not_le, metis append_Nil nth_via_drop)
  then show ?case using 1 by (subst copy_text.simps) (auto simp: ends_brace_def Let_def)
next
  case (2 pwh c cs)
  have at: "lptr < length buf" "buf ! lptr = c" "c \<noteq> 0 \<and> c \<noteq> 0x7D"
    using "2.prems"(1,3) by (metis drop_all list.discI append_Cons not_le, metis append_Cons nth_via_drop, auto simp: ends_brace_def)
  have name: "names_debugger lptr buf = Some (take 18 (c # cs) = debug_name)"
    by (rule names_debugger_braced[OF "2.prems"(1,2)])
  have len: "lptr + length (c # cs) < length buf"
    using arg_cong[OF "2.prems"(1), of length] at(1) by simp
  show ?case
  proof (cases "take 18 (c # cs) = debug_name")
    case True
    let ?new = "0x60 # pwh @ [0x60]"
    have n: "18 \<le> length (c # cs)" using arg_cong[OF True, of length] by simp
    have fits: "sp + length ?new + length (expand pwh (drop 17 cs)) \<le> lptr" using "2.prems"(4) True by simp
    then have w: "append_where pwh (sp, buf) = (sp + length ?new, write_at sp ?new buf)"
      unfolding append_where_fold using at(1) by (intro append_all_fits) simp
    have "drop (lptr + 18) (write_at sp ?new buf) = drop (lptr + 18) buf"
      using fits at(1) by (intro drop_write_at) simp_all
    also have "\<dots> = drop 18 (drop lptr buf)" by (simp add: add.commute)
    also have "\<dots> = drop 17 cs @ e # rest" using "2.prems"(1) n by simp
    finally have next_at: "drop (lptr + 18) (write_at sp ?new buf) = drop 17 cs @ e # rest" .
    have "\<forall>c \<in> set (drop 17 cs). \<not> ends_brace c" using "2.prems"(3) by (auto dest: in_set_dropD)
    from "2.IH"(1)[OF True next_at "2.prems"(2) this, of "sp + length ?new"] fits
    have "copy_text (lptr + 18) pwh (sp + length ?new, write_at sp ?new buf) =
        Some (fold do_append_string (expand pwh (drop 17 cs)) (sp + length ?new, write_at sp ?new buf))" by simp
    moreover have "fold do_append_string (expand pwh (c # cs)) (sp, buf) =
        fold do_append_string (expand pwh (drop 17 cs)) (append_where pwh (sp, buf))"
      using True by (simp add: append_where_fold)
    ultimately show ?thesis using at name True w by (subst copy_text.simps) (simp add: Let_def)
  next
    case False
    have "drop (lptr + 1) buf = cs @ e # rest" using "2.prems"(1) by (metis Suc_eq_plus1 append_Cons drop_Suc list.sel(3) tl_drop)
    then have "drop (lptr + 1) (buf[sp := c]) = cs @ e # rest" using "2.prems"(4) False by simp
    from "2.IH"(2)[OF False this "2.prems"(2), of "sp + 1"] "2.prems"(3,4) False
    have "copy_text (lptr + 1) pwh (sp + 1, buf[sp := c]) = Some (fold do_append_string (expand pwh cs) (sp + 1, buf[sp := c]))" by simp
    moreover have "do_append_string c (sp, buf) = (sp + 1, buf[sp := c])" using at(1) "2.prems"(4) False by (simp add: do_append_string_def)
    ultimately show ?thesis using at name False by (subst copy_text.simps) (simp add: Let_def)
  qed
qed

lemma format_braced:
  assumes "length buf = 1536" "length m < 127" "braced m = Some cs"
  shows "\<exists>e rest. drop 1410 (write_at 1409 (m @ [0]) buf) = cs @ e # rest \<and> ends_brace e \<and> (\<forall>c \<in> set cs. \<not> ends_brace c)"
proof -
  obtain m' where m: "m = 0x7B # m'" "cs = takeWhile (\<lambda>c. \<not> ends_brace c) m'"
    using assms(3) by (cases m) (auto simp: braced_def split: if_splits)
  let ?tail = "dropWhile (\<lambda>c. \<not> ends_brace c) m' @ [0]"
  have "drop 1409 (write_at 1409 (m @ [0]) buf) = (m @ [0]) @ drop (1409 + length (m @ [0])) buf"
    using assms(1,2) by (intro written) simp
  then have "drop 1 (drop 1409 (write_at 1409 (m @ [0]) buf)) = m' @ [0] @ drop (1409 + length (m @ [0])) buf"
    using m(1) by simp
  also have "m' = cs @ dropWhile (\<lambda>c. \<not> ends_brace c) m'" using m(2) by simp
  finally have "drop 1410 (write_at 1409 (m @ [0]) buf) = cs @ ?tail @ drop (1409 + length (m @ [0])) buf" by simp
  moreover obtain e rest where "?tail = e # rest" "ends_brace e"
  proof (cases "dropWhile (\<lambda>c. \<not> ends_brace c) m'")
    case Nil
    then show ?thesis using that[of 0 "[]"] by (simp add: ends_brace_def)
  next
    case (Cons e es)
    then show ?thesis using that[of e "es @ [0]"] hd_dropWhile[of "\<lambda>c. \<not> ends_brace c" m'] by simp
  qed
  moreover have "\<forall>c \<in> set cs. \<not> ends_brace c" using m(2) by (auto dest: set_takeWhileD)
  ultimately show ?thesis by auto
qed

text \<open>The buffer begins with the characters that have been put together so far.\<close>

definition holds :: "u16 list \<Rightarrow> nat \<times> u16 list \<Rightarrow> bool" where
  "holds pre st \<longleftrightarrow> fst st = length pre \<and> take (length pre) (snd st) = pre \<and> length (snd st) = 1536"

lemma holds_append:
  assumes "holds pre st" "length pre + length cs \<le> 1536"
  shows "holds (pre @ cs) (fold do_append_string cs st)"
  using assms append_all_fits[of "length pre" cs "snd st"] taken[of "length pre" cs "snd st"]
  by (cases st) (simp add: holds_def length_write_at)

lemma holds_write: "holds pre (sp, buf) \<Longrightarrow> length pre \<le> at \<Longrightarrow> at + length cs \<le> 1536 \<Longrightarrow> holds pre (sp, write_at at cs buf)"
  by (simp add: holds_def length_write_at take_write_at)

lemma holds_here:
  assumes "holds pre (sp, buf)" "sp + length cs + length more \<le> 1536"
  shows "holds (pre @ cs) (sp + length cs, write_at sp (cs @ more) buf)"
proof -
  have "take (sp + length (cs @ more)) (write_at sp (cs @ more) buf) = take sp buf @ cs @ more"
    using assms by (intro taken) (simp add: holds_def)
  from arg_cong[OF this, of "take (sp + length cs)"] assms show ?thesis
    by (simp add: holds_def length_write_at)
qed

lemma format_at_end:
  assumes "length buf = 1536" "msg 127 = [] \<or> length (msg 127) < 127" "holds pre (sp, buf)" "length pre \<le> 1409"
  shows "\<exists>outlen b. do_format_message msg 1409 buf = (outlen, b) \<and> holds pre (sp, b) \<and>
    (outlen \<noteq> 0 \<and> b ! 1409 = 0x7B \<longleftrightarrow> braced (msg 127) \<noteq> None) \<and>
    (\<forall>cs. braced (msg 127) = Some cs \<longrightarrow>
       (\<exists>e rest. drop 1410 b = cs @ e # rest \<and> ends_brace e \<and> (\<forall>c \<in> set cs. \<not> ends_brace c) \<and> length cs \<le> 125))"
proof (cases "msg 127 = []")
  case True
  then show ?thesis using assms by (simp add: do_format_message_def braced_def)
next
  case False
  let ?m = "msg 127" and ?b = "write_at 1409 (msg 127 @ [0]) buf"
  have m: "length ?m < 127" using assms(2) False by simp
  have "drop 1409 ?b = (?m @ [0]) @ drop (1409 + length (?m @ [0])) buf" using assms(1) m by (intro written) simp
  then have "drop 1409 ?b = hd ?m # (tl ?m @ [0]) @ drop (1409 + length (?m @ [0])) buf" using False by (cases ?m) simp_all
  then have "?b ! 1409 = hd ?m" by (rule nth_via_drop)
  moreover have "length cs \<le> 125" if "braced ?m = Some cs" for cs
    using that m length_takeWhile_le[of "\<lambda>c. \<not> ends_brace c" "tl ?m"] by (auto simp: braced_def split: if_splits)
  moreover have "holds pre (sp, ?b)" using assms(3,4) m by (intro holds_write) simp_all
  moreover have "do_format_message msg 1409 buf = (length ?m, ?b)" using assms(1) False by (simp add: do_format_message_def Let_def)
  ultimately show ?thesis using False format_braced[OF assms(1) m] by (auto simp: braced_def)
qed

text \<open>C28. The caption is the part between braces of the system's message, and the text is the path of the
  program, the part between braces of the other message with the name of the failed function
  in the place of \<open>DebugActiveProcess\<close>, each time that this occurs, and the message for the error, provided that
  the texts before the last message leave the end of the buffer, where the messages are taken apart, alone.\<close>

theorem notify_text:
  assumes "length buffer = 1536"
    and messages: "message_574 127 = [] \<or> length (message_574 127) < 127" "message_590 127 = [] \<or> length (message_590 127) < 127"
      "\<forall>n. message n = [] \<or> length (message n) < n"
    and parts: "cap = box_caption (message_574 127)" "path = box_path (GetModuleFileNameW (1536 - length cap))"
      "reason = box_reason (map ucast where_name) (message_590 127)"
    and room: "length cap + length path + length reason \<le> 1409"
  shows "do_notify_runtime_failure message_574 message_590 message GetModuleFileNameW where_name buffer =
    Some (cap, path @ reason @ message (1536 - (length cap + length path + length reason)))"
proof -
  let ?file = "GetModuleFileNameW (1536 - length cap)" and ?w = "map ucast where_name"
  have "holds [] (0, buffer)" using assms(1) by (simp add: holds_def)
  from format_at_end[where msg = message_574, OF assms(1) messages(1) this] obtain n1 b1 where f1: "do_format_message message_574 1409 buffer = (n1, b1)"
    "holds [] (0, b1)" "n1 \<noteq> 0 \<and> b1 ! 1409 = 0x7B \<longleftrightarrow> braced (message_574 127) \<noteq> None"
    "\<And>cs. braced (message_574 127) = Some cs \<Longrightarrow> \<exists>e rest. drop 1410 b1 = cs @ e # rest \<and> ends_brace e \<and> (\<forall>c \<in> set cs. \<not> ends_brace c) \<and> length cs \<le> 125"
    by auto
  define st1 where "st1 = fold do_append_string cap (0, b1)"
  have cap: "length cap \<le> 125" using f1(4) parts(1) by (auto simp: box_caption_def split: option.splits)
  have s1: "(if n1 \<noteq> 0 \<and> b1 ! 1409 = 0x7B then copy_caption 1410 (0, b1) else Some (0, b1)) = Some st1"
  proof (cases "braced (message_574 127)")
    case (Some cs)
    with f1(4) obtain e rest where "drop 1410 b1 = cs @ e # rest" "ends_brace e" "\<forall>c \<in> set cs. \<not> ends_brace c" "length cs \<le> 125" by blast
    then have "copy_caption 1410 (0, b1) = Some (fold do_append_string cs (0, b1))" by (intro copy_caption_fits) simp_all
    then show ?thesis using Some f1(3) parts(1) by (simp add: st1_def box_caption_def)
  next
    case None
    then have "\<not> (n1 \<noteq> 0 \<and> b1 ! 1409 = 0x7B)" using f1(3) by blast
    then show ?thesis using None parts(1) by (auto simp: st1_def box_caption_def)
  qed
  have h1: "holds cap st1" using holds_append[OF f1(2), of cap] cap by (simp add: st1_def)
  obtain b2 where b2: "st1 = (length cap, b2)" "length b2 = 1536" using h1 by (cases st1) (simp add: holds_def)
  define st3 where "st3 = (if ?file \<noteq> [] then fold do_append_string [13, 10, 13, 10]
      (length cap + length ?file, write_at (length cap) (?file @ (if length ?file < 1536 - length cap then [0] else [])) b2)
    else (length cap, b2))"
  have h3: "holds (cap @ path) st3"
  proof (cases "?file = []")
    case True
    then show ?thesis using h1 b2 parts(2) by (simp add: st3_def box_path_def)
  next
    case False
    then have "holds (cap @ ?file) (length cap + length ?file, write_at (length cap) (?file @ [0]) b2)"
      using h1 b2 parts(2) room by (intro holds_here) (simp_all add: box_path_def)
    moreover have "length ?file < 1536 - length cap" using False parts(2) room by (simp add: box_path_def)
    ultimately show ?thesis
      using holds_append[of "cap @ ?file" _ "[13, 10, 13, 10]"] False parts(2) room by (simp add: st3_def box_path_def del: fold_simps)
  qed
  obtain b3 where b3: "st3 = (length cap + length path, b3)" "length b3 = 1536" using h3 by (cases st3) (simp add: holds_def)
  from format_at_end[where msg = message_590, OF b3(2) messages(2), of "cap @ path" "length cap + length path"] h3 b3 room obtain n4 b4 where
    f4: "do_format_message message_590 1409 b3 = (n4, b4)" "holds (cap @ path) (length cap + length path, b4)"
      "n4 \<noteq> 0 \<and> b4 ! 1409 = 0x7B \<longleftrightarrow> braced (message_590 127) \<noteq> None"
      "\<And>cs. braced (message_590 127) = Some cs \<Longrightarrow> \<exists>e rest. drop 1410 b4 = cs @ e # rest \<and> ends_brace e \<and> (\<forall>c \<in> set cs. \<not> ends_brace c) \<and> length cs \<le> 125"
    by auto
  define st5 where "st5 = fold do_append_string reason (length cap + length path, b4)"
  have s5: "(if n4 \<noteq> 0 \<and> b4 ! 1409 = 0x7B
      then map_option (fold do_append_string [0x3A, 0x20]) (copy_text 1410 ?w (length cap + length path, b4))
      else Some (length cap + length path, b4)) = Some st5"
  proof (cases "braced (message_590 127)")
    case (Some cs)
    with f4(4) obtain e rest where "drop 1410 b4 = cs @ e # rest" "ends_brace e" "\<forall>c \<in> set cs. \<not> ends_brace c" by blast
    then have "copy_text 1410 ?w (length cap + length path, b4) = Some (fold do_append_string (expand ?w cs) (length cap + length path, b4))"
      using room parts(3) Some by (intro copy_text_fits) (simp_all add: box_reason_def)
    then show ?thesis using Some f4(3) parts(3) by (simp add: st5_def box_reason_def)
  next
    case None
    then have "\<not> (n4 \<noteq> 0 \<and> b4 ! 1409 = 0x7B)" using f4(3) by blast
    then show ?thesis using None parts(3) by (auto simp: st5_def box_reason_def)
  qed
  let ?n = "length cap + length path + length reason"
  have h5: "holds (cap @ path @ reason) st5" using holds_append[OF f4(2), of reason] room by (simp add: st5_def)
  obtain b5 where b5: "st5 = (?n, b5)" "length b5 = 1536" using h5 by (cases st5) (simp add: holds_def)
  let ?m = "message (1536 - ?n)"
  obtain n6 b6 where f6: "do_format_message message ?n b5 = (n6, b6)" "n6 = length ?m" "holds (cap @ path @ reason @ ?m) (?n + n6, b6)"
  proof (cases "?m = []")
    case True
    then show ?thesis using that[of 0 b5] h5 b5 by (simp add: do_format_message_def)
  next
    case False
    then have "length ?m < 1536 - ?n" using messages(3) by blast
    then have "holds ((cap @ path @ reason) @ ?m) (?n + length ?m, write_at ?n (?m @ [0]) b5)"
      using h5 b5 by (intro holds_here) simp_all
    then show ?thesis using that[of "length ?m"] False b5 by (simp add: do_format_message_def Let_def)
  qed
  have t: "take (?n + n6) b6 = cap @ path @ reason @ ?m" using f6(2,3) by (simp add: holds_def add.assoc)
  have "take (length cap) b6 = take (length cap) (take (?n + n6) b6)" by (simp add: min_def)
  moreover have "take (?n + n6 - length cap) (drop (length cap) b6) = drop (length cap) (take (?n + n6) b6)"
    by (rule drop_take[symmetric])
  ultimately have "take (length cap) b6 = cap" "take (?n + n6 - length cap) (drop (length cap) b6) = path @ reason @ ?m"
    unfolding t by simp_all
  moreover have "length buffer - 127 = 1409" "1409 + 1 = (1410 :: nat)" using assms(1) by simp_all
  ultimately show ?thesis
    by (simp only: do_notify_runtime_failure_def Let_def f1(1) prod.case s1 option.case b2 st3_def[symmetric, unfolded b2] b3 f4(1)
        s5[unfolded b5] f6(1))
qed

lemma notify_text_witness:
  "do_notify_runtime_failure (\<lambda>n. wide ''{Error} %s'') (\<lambda>n. wide ''{No DebugActiveProcess}'') (\<lambda>n. if n < 9 then [] else wide ''Gone'')
     (\<lambda>n. wide ''a.exe'') [0x66, 0x6E] (replicate 1536 7) =
   Some (wide ''Error'', wide ''a.exe'' @ [13, 10, 13, 10] @ wide ''No `fn`: Gone'')"
proof -
  have "box_caption (wide ''{Error} %s'') = wide ''Error''" by (simp add: box_caption_def braced_def wide_def ends_brace_def)
  moreover have "box_path (wide ''a.exe'') = wide ''a.exe'' @ [13, 10, 13, 10]" by (simp add: box_path_def wide_def)
  moreover have "box_reason (map ucast [0x66, 0x6E :: u8]) (wide ''{No DebugActiveProcess}'') = wide ''No `fn`: ''"
    by (simp add: box_reason_def braced_def wide_def ends_brace_def debug_name_def)
  moreover have "length (wide s) = length s" for s by (simp add: wide_def)
  ultimately show ?thesis
    using notify_text[of "replicate 1536 7" "\<lambda>n. wide ''{Error} %s''" "\<lambda>n. wide ''{No DebugActiveProcess}''"
        "\<lambda>n. if n < 9 then [] else wide ''Gone''" _ _ "\<lambda>n. wide ''a.exe''" _ "[0x66, 0x6E]", OF _ _ _ _ refl refl refl]
    by (simp add: wide_def)
qed

text \<open>A path that reaches into the end of the buffer.\<close>

lemma copy_overtaken:
  assumes "lptr < length buf" "buf ! lptr = c" "sp = lptr + 1" "\<not> ends_brace c" "c \<noteq> 0x44"
  shows "copy_text lptr pwh (sp, buf) = None"
  using assms
proof (induction "length buf - lptr" arbitrary: lptr sp buf)
  case (Suc n)
  have "take 18 (drop lptr buf) \<noteq> take k debug_name" for k
  proof
    assume eq: "take 18 (drop lptr buf) = take k debug_name"
    have "take 18 (drop lptr buf) = c # take 17 (drop (lptr + 1) buf)"
      using Suc.prems(1,2) by (simp add: Cons_nth_drop_Suc[symmetric])
    with eq have "take k debug_name = c # take 17 (drop (lptr + 1) buf)" by metis
    then have "debug_name ! 0 = c" by (cases k) (auto simp: debug_name_def wide_def)
    then show False using Suc.prems(5) by (simp add: debug_name_def wide_def)
  qed
  from this this[of 18] have "names_debugger lptr buf = Some False" by (simp add: names_debugger_def Let_def)
  then have "copy_text lptr pwh (sp, buf) = copy_text (lptr + 1) pwh (do_append_string c (sp, buf))"
    using Suc.prems by (subst copy_text.simps) (simp add: ends_brace_def Let_def)
  also have "\<dots> = None"
  proof (cases "lptr + 1 = length buf")
    case True
    then show ?thesis using Suc.prems(3) by (subst copy_text.simps) (simp add: do_append_string_def)
  next
    case False
    then show ?thesis
      using Suc.hyps(1)[of "buf[sp := c]" "lptr + 1" "sp + 1"] Suc.hyps(2) Suc.prems by (simp add: do_append_string_def)
  qed
  finally show ?case .
qed simp

text \<open>Without a caption, a path of 1407 characters is enough.\<close>

theorem notify_reads_past_buffer:
  assumes "length buffer = 1536" "message_574 127 = []" "length (GetModuleFileNameW 1536) = 1407"
    and "message_590 127 = 0x7B # c # cs" "length (message_590 127) < 127" "\<not> ends_brace c" "c \<noteq> 0x44"
  shows "do_notify_runtime_failure message_574 message_590 message GetModuleFileNameW where_name buffer = None"
proof -
  let ?path = "GetModuleFileNameW 1536" and ?m = "message_590 127"
  define st where "st = fold do_append_string [13, 10, 13, 10] (1407, write_at 0 (?path @ [0]) buffer)"
  have "length (write_at 0 (?path @ [0]) buffer) = 1536" using assms(1,3) by (simp add: length_write_at)
  then obtain b where b: "st = (1411, b)" "length b = 1536"
    using append_all_fits[of 1407 "[13, 10, 13, 10]" "write_at 0 (?path @ [0]) buffer"]
    by (simp add: st_def length_write_at del: fold_simps)
  let ?b = "write_at 1409 (?m @ [0]) b"
  have "drop 1409 ?b = (?m @ [0]) @ drop (1409 + length (?m @ [0])) b" using b(2) assms(5) by (intro written) simp
  then have d: "drop 1409 ?b = 0x7B # c # (cs @ [0]) @ drop (1409 + length (?m @ [0])) b" using assms(4) by simp
  then have "?b ! 1409 = 0x7B" by (rule nth_via_drop)
  moreover have "drop 1410 ?b = c # (cs @ [0]) @ drop (1409 + length (?m @ [0])) b"
    using arg_cong[OF d, of "drop 1"] by simp
  then have "?b ! 1410 = c" by (rule nth_via_drop)
  then have "copy_text 1410 (map ucast where_name) (1411, ?b) = None"
    using b(2) assms(5-7) by (intro copy_overtaken) (simp_all add: length_write_at)
  moreover have "?path \<noteq> []" using assms(3) by auto
  ultimately show ?thesis
    using assms(1-5) b st_def by (simp add: do_notify_runtime_failure_def do_format_message_def Let_def del: fold_simps)
qed

lemma notify_reads_past_buffer_witness:
  "do_notify_runtime_failure (\<lambda>n. []) (\<lambda>n. wide ''{Unexpected Failure in DebugActiveProcess}'') message
     (\<lambda>n. replicate 1407 0x61) where_name (replicate 1536 0) = None"
  by (rule notify_reads_past_buffer[where c = "0x55" and cs = "wide ''nexpected Failure in DebugActiveProcess}''"])
    (simp_all add: wide_def ends_brace_def)

section \<open>The search\<close>

definition has_function :: "(uptr \<Rightarrow> uptr option) \<Rightarrow> (uptr \<Rightarrow> uptr) \<Rightarrow> uptr \<Rightarrow> bool" where
  "has_function GetModuleHandleExW GetProcAddress p \<longleftrightarrow> GetModuleHandleExW p = Some p \<and> GetProcAddress p \<noteq> 0"

lemma search_result:
  "search_dlls GetModuleHandleExW GetProcAddress dlls locks =
     (case find (has_function GetModuleHandleExW GetProcAddress) dlls of
        None \<Rightarrow> (0, 0, locks)
      | Some m \<Rightarrow> (GetProcAddress m, m, locks(m := locks m + 1)))"
  by (induction dlls arbitrary: locks) (auto simp: has_function_def Let_def split: option.splits)

lemma find_function: "find (has_function G P) dlls = Some m \<Longrightarrow> P m \<noteq> 0"
  by (auto simp: find_Some_iff has_function_def)

text \<open>The search for a function: without handles, or when no module has the function, the result is null and every
  lock has been given back; otherwise it is the function of the first module that is still
  there and has one, and that module is locked once more and no other is. When there are more than 8
  modules, and more of them than there is room for have been loaded between the two calls, a search that finds
  nothing goes on behind the array.\<close>

theorem loaded_function_search:
  "MCF_get_function_from_loaded_dlls first second GetModuleHandleExW GetProcAddress locks =
     (let dlls = (case first of
            None \<Rightarrow> []
          | Some ms \<Rightarrow> if length ms \<le> 8 then ms else (case second of None \<Rightarrow> [] | Some ms2 \<Rightarrow> take (length ms) ms2))
      in case find (has_function GetModuleHandleExW GetProcAddress) dlls of
           Some m \<Rightarrow> Some (GetProcAddress m, m, locks(m := locks m + 1))
         | None \<Rightarrow>
             if \<exists>ms ms2. first = Some ms \<and> second = Some ms2 \<and> 8 < length ms \<and> length ms < length ms2 then None
             else Some (0, 0, locks))"
  using find_function[of GetModuleHandleExW GetProcAddress]
  by (auto simp: MCF_get_function_from_loaded_dlls_def search_result Let_def not_less split: option.splits)

end
