(* ===== verification/Cxx_Locks.thy ===== *)
theory Cxx_Locks
  imports Gthr_Locks Cxx_Time
begin

text \<open>
  The classes \<open>mutex\<close>, \<open>shared_mutex\<close> and \<open>condition_variable\<close> of \<open>cxx11.hpp\<close>, with times in
  milliseconds. A member function is a call of the C function with a timeout; the result
  of a function that is \<open>void\<close> is 0, a \<open>bool\<close> is 0 or 1, and \<open>None\<close> is a failed
  \<open>__MCF_ASSERT\<close>. A \<open>unique_lock\<close> is the class of the standard library: the address of its mutex and
  whether it owns it.

  Shown: what each function returns and the state of the lock then; and what the waits with a
  predicate do.
\<close>

section \<open>Mutexes\<close>

text \<open>A call that is repeated by the readings of another clock.\<close>

definition cxx_by_clock :: "i64 list \<Rightarrow> i64 \<Rightarrow> (i64 \<Rightarrow> 'm call) \<Rightarrow> 'm call" where
  "cxx_by_clock readings abs_time cnd sch m =
     map_option (\<lambda>(err, rest, m, sch). (err, m, sch))
       (cxx_wait_until_clock readings abs_time (\<lambda>timeout (m, sch). cnd timeout sch m) (m, sch))"

definition cxx_mutex_lock :: "uptr \<Rightarrow> u32 \<Rightarrow> mutex_mem wrapped" where
  "cxx_mutex_lock mtx quantum = returning (must_be_zero 0) (lock_mutex mtx quantum None)"

definition cxx_mutex_try_lock :: "uptr \<Rightarrow> u32 \<Rightarrow> mutex_mem wrapped" where
  "cxx_mutex_try_lock mtx quantum = returning is_zero (lock_mutex mtx quantum (Some 0))"

definition cxx_mutex_try_lock_until :: "uptr \<Rightarrow> u32 \<Rightarrow> i64 \<Rightarrow> mutex_mem wrapped" where
  "cxx_mutex_try_lock_until mtx quantum abs_time =
     returning is_zero (cxx_wait_until abs_time (\<lambda>timeout. lock_mutex mtx quantum (Some timeout)))"

definition cxx_mutex_try_lock_until_clock :: "uptr \<Rightarrow> u32 \<Rightarrow> i64 list \<Rightarrow> i64 \<Rightarrow> mutex_mem wrapped" where
  "cxx_mutex_try_lock_until_clock mtx quantum readings abs_time =
     returning is_zero (cxx_by_clock readings abs_time (\<lambda>timeout. lock_mutex mtx quantum (Some timeout)))"

definition cxx_mutex_try_lock_for :: "uptr \<Rightarrow> u32 \<Rightarrow> i64 \<Rightarrow> mutex_mem wrapped" where
  "cxx_mutex_try_lock_for mtx quantum rel_time =
     returning is_zero (cxx_wait_for rel_time (\<lambda>timeout. lock_mutex mtx quantum (Some timeout)))"

definition cxx_mutex_unlock :: "uptr \<Rightarrow> mutex_mem wrapped" where
  "cxx_mutex_unlock mtx = returning (always 0) (unlock_mutex mtx)"

section \<open>Shared mutexes\<close>

definition cxx_shared_mutex_lock :: "shared_mem wrapped" where
  "cxx_shared_mutex_lock = returning (must_be_zero 0) (lock_shared False None)"

definition cxx_shared_mutex_try_lock :: "shared_mem wrapped" where
  "cxx_shared_mutex_try_lock = returning is_zero (lock_shared False (Some 0))"

definition cxx_shared_mutex_try_lock_until :: "i64 \<Rightarrow> shared_mem wrapped" where
  "cxx_shared_mutex_try_lock_until abs_time =
     returning is_zero (cxx_wait_until abs_time (\<lambda>timeout. lock_shared False (Some timeout)))"

definition cxx_shared_mutex_try_lock_until_clock :: "i64 list \<Rightarrow> i64 \<Rightarrow> shared_mem wrapped" where
  "cxx_shared_mutex_try_lock_until_clock readings abs_time =
     returning is_zero (cxx_by_clock readings abs_time (\<lambda>timeout. lock_shared False (Some timeout)))"

definition cxx_shared_mutex_try_lock_for :: "i64 \<Rightarrow> shared_mem wrapped" where
  "cxx_shared_mutex_try_lock_for rel_time =
     returning is_zero (cxx_wait_for rel_time (\<lambda>timeout. lock_shared False (Some timeout)))"

definition cxx_shared_mutex_unlock :: "shared_mem wrapped" where
  "cxx_shared_mutex_unlock = returning (always 0) (\<lambda>sch m. run_signal MCF_shared_mutex_unlock_slow sch m SFast)"

definition cxx_shared_mutex_lock_shared :: "shared_mem wrapped" where
  "cxx_shared_mutex_lock_shared = returning (must_be_zero 0) (lock_shared True None)"

definition cxx_shared_mutex_try_lock_shared :: "shared_mem wrapped" where
  "cxx_shared_mutex_try_lock_shared = returning is_zero (lock_shared True (Some 0))"

definition cxx_shared_mutex_try_lock_shared_until :: "i64 \<Rightarrow> shared_mem wrapped" where
  "cxx_shared_mutex_try_lock_shared_until abs_time =
     returning is_zero (cxx_wait_until abs_time (\<lambda>timeout. lock_shared True (Some timeout)))"

definition cxx_shared_mutex_try_lock_shared_until_clock :: "i64 list \<Rightarrow> i64 \<Rightarrow> shared_mem wrapped" where
  "cxx_shared_mutex_try_lock_shared_until_clock readings abs_time =
     returning is_zero (cxx_by_clock readings abs_time (\<lambda>timeout. lock_shared True (Some timeout)))"

definition cxx_shared_mutex_try_lock_shared_for :: "i64 \<Rightarrow> shared_mem wrapped" where
  "cxx_shared_mutex_try_lock_shared_for rel_time =
     returning is_zero (cxx_wait_for rel_time (\<lambda>timeout. lock_shared True (Some timeout)))"

definition cxx_shared_mutex_unlock_shared :: "shared_mem wrapped" where
  "cxx_shared_mutex_unlock_shared = returning (always 0) (\<lambda>sch m. run_signal MCF_shared_mutex_unlock_slow sch m SFast)"

section \<open>Condition variables\<close>

record unique_lock =
  ul_mutex :: uptr
  ul_owns :: bool

text \<open>The two assertions at the beginning of each wait.\<close>

definition with_lock :: "unique_lock \<Rightarrow> 'm wrapped \<Rightarrow> 'm wrapped" where
  "with_lock lock call sch m = (if ul_owns lock \<and> ul_mutex lock \<noteq> 0 then call sch m else Some (None, m, sch))"

definition cv_no_timeout :: int where "cv_no_timeout = 0"
definition cv_timeout :: int where "cv_timeout = 1"

definition cxx_condition_variable_wait :: "nat \<Rightarrow> unique_lock \<Rightarrow> MCF_mutex cond_wrapped" where
  "cxx_condition_variable_wait tid lock =
     with_lock lock (returning (must_be_zero 0) (MCF_gthr_cond_mutex_wait tid None))"

definition cxx_condition_variable_wait_until :: "nat \<Rightarrow> unique_lock \<Rightarrow> i64 \<Rightarrow> MCF_mutex cond_wrapped" where
  "cxx_condition_variable_wait_until tid lock abs_time =
     with_lock lock (returning (or_code cv_timeout cv_no_timeout)
       (cxx_wait_until abs_time (\<lambda>timeout. MCF_gthr_cond_mutex_wait tid (Some timeout))))"

definition cxx_condition_variable_wait_until_clock :: "nat \<Rightarrow> unique_lock \<Rightarrow> i64 list \<Rightarrow> i64 \<Rightarrow> MCF_mutex cond_wrapped" where
  "cxx_condition_variable_wait_until_clock tid lock readings abs_time =
     with_lock lock (returning (or_code cv_timeout cv_no_timeout)
       (cxx_by_clock readings abs_time (\<lambda>timeout. MCF_gthr_cond_mutex_wait tid (Some timeout))))"

definition cxx_condition_variable_wait_for :: "nat \<Rightarrow> unique_lock \<Rightarrow> i64 \<Rightarrow> MCF_mutex cond_wrapped" where
  "cxx_condition_variable_wait_for tid lock rel_time =
     with_lock lock (returning (or_code cv_timeout cv_no_timeout)
       (cxx_wait_for rel_time (\<lambda>timeout. MCF_gthr_cond_mutex_wait tid (Some timeout))))"

definition cxx_condition_variable_notify_one :: "(MCF_cond \<times> 'u cond_env) wrapped" where
  "cxx_condition_variable_notify_one = returning (always 0) (\<lambda>sch m. run_signal MCF_cond_signal sch m SFast)"

definition cxx_condition_variable_notify_all :: "(MCF_cond \<times> 'u cond_env) wrapped" where
  "cxx_condition_variable_notify_all = returning (always 0) (\<lambda>sch m. run_signal MCF_cond_signal_all sch m SFast)"

text \<open>
  The waits with a predicate, for a predicate that may have effects on the state and a function
  \<open>wait\<close> that waits once; \<open>None\<close> is a wait that does not return, or a loop that does not end.
\<close>

partial_function (option) cxx_wait_pred :: "('s \<Rightarrow> bool \<times> 's) \<Rightarrow> ('s \<Rightarrow> 's option) \<Rightarrow> 's \<Rightarrow> 's option" where
  "cxx_wait_pred pred wait s =
     (case pred s of
        (holds, s) \<Rightarrow>
          if holds then Some s
          else (case wait s of None \<Rightarrow> None | Some s \<Rightarrow> cxx_wait_pred pred wait s))"

partial_function (option) cxx_wait_until_pred ::
    "('s \<Rightarrow> bool \<times> 's) \<Rightarrow> ('s \<Rightarrow> (int \<times> 's) option) \<Rightarrow> 's \<Rightarrow> (bool \<times> 's) option" where
  "cxx_wait_until_pred pred wait s =
     (case pred s of
        (holds, s) \<Rightarrow>
          if holds then Some (True, s)
          else (case wait s of
             None \<Rightarrow> None
           | Some (status, s) \<Rightarrow> if status = cv_timeout then Some (pred s) else cxx_wait_until_pred pred wait s))"

text \<open>\<open>wait_for\<close> with a predicate is \<open>wait_until\<close> by the steady clock.\<close>

definition cxx_wait_for_pred :: "('s \<Rightarrow> bool \<times> 's) \<Rightarrow> (i64 \<Rightarrow> 's \<Rightarrow> (int \<times> 's) option) \<Rightarrow> i64 \<Rightarrow> i64 \<Rightarrow> 's \<Rightarrow> (bool \<times> 's) option" where
  "cxx_wait_for_pred pred wait_until_steady steady_now rel_time s =
     cxx_wait_until_pred pred (wait_until_steady (steady_now + rel_time)) s"

section \<open>Waiting for a predicate\<close>

text \<open>The state after a number of rounds that found the predicate false and did not time out.\<close>

fun false_rounds :: "('s \<Rightarrow> bool \<times> 's) \<Rightarrow> ('s \<Rightarrow> (int \<times> 's) option) \<Rightarrow> nat \<Rightarrow> 's \<Rightarrow> 's option" where
  "false_rounds pred wait 0 s = Some s"
| "false_rounds pred wait (Suc n) s =
     (if fst (pred s) then None
      else (case wait (snd (pred s)) of
              None \<Rightarrow> None
            | Some (status, s) \<Rightarrow> if status = cv_timeout then None else false_rounds pred wait n s))"

abbreviation untimed :: "('s \<Rightarrow> 's option) \<Rightarrow> 's \<Rightarrow> (int \<times> 's) option" where
  "untimed wait s \<equiv> map_option (\<lambda>s. (cv_no_timeout, s)) (wait s)"

lemma wait_until_pred_sound:
  assumes "cxx_wait_until_pred pred wait s = Some r"
  shows "\<exists>n s0. false_rounds pred wait n s = Some s0 \<and>
      (fst (pred s0) \<and> r = pred s0 \<or> \<not> fst (pred s0) \<and> (\<exists>s1. wait (snd (pred s0)) = Some (cv_timeout, s1) \<and> r = pred s1))"
proof (rule cxx_wait_until_pred.raw_induct[OF _ assms])
  fix self and pred :: "'a \<Rightarrow> bool \<times> 'a" and wait s r
  let ?Q = "\<lambda>pred wait s r. \<exists>n s0. false_rounds pred wait n s = Some s0 \<and>
      (fst (pred s0) \<and> r = pred s0 \<or> \<not> fst (pred s0) \<and> (\<exists>s1. wait (snd (pred s0)) = Some (cv_timeout, s1) \<and> r = pred s1))"
  assume IH: "\<And>pred wait s r. self pred wait s = Some r \<Longrightarrow> ?Q pred wait s r"
    and run: "(case pred s of (holds, s) \<Rightarrow> if holds then Some (True, s)
      else case wait s of None \<Rightarrow> None | Some (status, s) \<Rightarrow> if status = cv_timeout then Some (pred s) else self pred wait s) = Some r"
  obtain h s1 where p: "pred s = (h, s1)" by force
  consider "h" "r = (True, s1)" | s2 where "\<not> h" "wait s1 = Some (cv_timeout, s2)" "r = pred s2"
    | status s2 where "\<not> h" "wait s1 = Some (status, s2)" "status \<noteq> cv_timeout" "self pred wait s2 = Some r"
    using run p by (auto split: if_splits option.splits)
  then show "?Q pred wait s r"
  proof cases
    case 3
    from IH[OF 3(4)] obtain n s0 where "false_rounds pred wait n s2 = Some s0"
      "fst (pred s0) \<and> r = pred s0 \<or> \<not> fst (pred s0) \<and> (\<exists>s1. wait (snd (pred s0)) = Some (cv_timeout, s1) \<and> r = pred s1)"
      by blast
    then show ?thesis using 3 p by (intro exI[of _ "Suc n"] exI[of _ s0]) simp
  qed (use p in \<open>intro exI[of _ 0] exI[of _ s], simp\<close>)+
qed

lemma wait_until_pred_complete:
  "false_rounds pred wait n s = Some s0 \<Longrightarrow> cxx_wait_until_pred pred wait s = cxx_wait_until_pred pred wait s0"
proof (induction n arbitrary: s)
  case (Suc n)
  then show ?case
    by (subst cxx_wait_until_pred.simps) (auto simp: case_prod_beta split: if_splits option.splits)
qed simp

lemma wait_pred_sound:
  assumes "cxx_wait_pred pred wait s = Some s'"
  shows "\<exists>n s0. false_rounds pred (untimed wait) n s = Some s0 \<and> pred s0 = (True, s')"
proof (rule cxx_wait_pred.raw_induct[OF _ assms])
  fix self and pred :: "'a \<Rightarrow> bool \<times> 'a" and wait s s'
  let ?Q = "\<lambda>pred wait s s'. \<exists>n s0. false_rounds pred (untimed wait) n s = Some s0 \<and> pred s0 = (True, s')"
  assume IH: "\<And>pred wait s s'. self pred wait s = Some s' \<Longrightarrow> ?Q pred wait s s'"
    and run: "(case pred s of (holds, s) \<Rightarrow> if holds then Some s
      else case wait s of None \<Rightarrow> None | Some s \<Rightarrow> self pred wait s) = Some s'"
  obtain h s1 where p: "pred s = (h, s1)" by force
  consider "h" "s' = s1" | s2 where "\<not> h" "wait s1 = Some s2" "self pred wait s2 = Some s'"
    using run p by (auto split: if_splits option.splits)
  then show "?Q pred wait s s'"
  proof cases
    case 2
    from IH[OF 2(3)] obtain n s0 where "false_rounds pred (untimed wait) n s2 = Some s0" "pred s0 = (True, s')" by blast
    then show ?thesis using 2 p by (intro exI[of _ "Suc n"] exI[of _ s0]) (simp add: cv_no_timeout_def cv_timeout_def)
  qed (use p in \<open>intro exI[of _ 0] exI[of _ s], simp\<close>)
qed

lemma wait_pred_complete:
  "false_rounds pred (untimed wait) n s = Some s0 \<Longrightarrow> cxx_wait_pred pred wait s = cxx_wait_pred pred wait s0"
proof (induction n arbitrary: s)
  case (Suc n)
  then show ?case
    by (subst cxx_wait_pred.simps) (auto simp: case_prod_beta split: if_splits option.splits)
qed simp

text \<open>C26. The waits with a predicate. A wait without a time returns exactly when, after some number of
  waits that each found the predicate false, the predicate is true, and it returns in the state in
  which the predicate has just been found true. A wait with a time point returns exactly when after
  some number of such rounds the predicate is true, or false and the next wait times out; it
  returns what the last evaluation of the predicate gave.\<close>

theorem cxx_predicate_waits:
  "(cxx_wait_pred pred wait s = Some s' \<longleftrightarrow>
     (\<exists>n s0. false_rounds pred (untimed wait) n s = Some s0 \<and> pred s0 = (True, s'))) \<and>
   (cxx_wait_until_pred pred timed_wait s = Some r \<longleftrightarrow>
     (\<exists>n s0. false_rounds pred timed_wait n s = Some s0 \<and>
       (fst (pred s0) \<and> r = pred s0 \<or>
        \<not> fst (pred s0) \<and> (\<exists>s1. timed_wait (snd (pred s0)) = Some (cv_timeout, s1) \<and> r = pred s1))))"
proof (intro conjI iffI)
  assume "\<exists>n s0. false_rounds pred (untimed wait) n s = Some s0 \<and> pred s0 = (True, s')"
  then obtain n s0 where "false_rounds pred (untimed wait) n s = Some s0" "pred s0 = (True, s')" by blast
  then show "cxx_wait_pred pred wait s = Some s'"
    by (simp add: wait_pred_complete) (subst cxx_wait_pred.simps, simp)
next
  assume "\<exists>n s0. false_rounds pred timed_wait n s = Some s0 \<and>
       (fst (pred s0) \<and> r = pred s0 \<or>
        \<not> fst (pred s0) \<and> (\<exists>s1. timed_wait (snd (pred s0)) = Some (cv_timeout, s1) \<and> r = pred s1))"
  then obtain n s0 where 1: "false_rounds pred timed_wait n s = Some s0" and
    2: "fst (pred s0) \<and> r = pred s0 \<or>
        \<not> fst (pred s0) \<and> (\<exists>s1. timed_wait (snd (pred s0)) = Some (cv_timeout, s1) \<and> r = pred s1)" by blast
  have "cxx_wait_until_pred pred timed_wait s0 = Some r"
    using 2 by (subst cxx_wait_until_pred.simps) (auto simp: case_prod_beta prod_eq_iff)
  then show "cxx_wait_until_pred pred timed_wait s = Some r" by (simp add: wait_until_pred_complete[OF 1])
qed (fact wait_pred_sound wait_until_pred_sound)+

section \<open>Results\<close>

text \<open>What a repeated call returns is what its last round returned.\<close>

lemma by_clock_last:
  assumes "cxx_wait_until_clock readings abs_time cnd s = Some (err, rest, s')" "I s"
    and "\<And>t s e s1. I s \<Longrightarrow> cnd t s = Some (e, s1) \<Longrightarrow> I s1"
  shows "\<exists>t s0. I s0 \<and> cnd t s0 = Some (err, s')"
  using assms(1,2)
proof (induction readings arbitrary: s)
  case (Cons now readings)
  from Cons.prems obtain e s1 where c: "cnd (clamp_duration (abs_time - now) * - 1) s = Some (e, s1)"
    by (auto simp: Let_def split: option.splits)
  show ?case
  proof (cases "e < 0 \<and> clamp_duration (abs_time - now) * - 1 \<noteq> 0")
    case True
    then have "cxx_wait_until_clock readings abs_time cnd s1 = Some (err, rest, s')" using Cons.prems c by (simp add: Let_def)
    then show ?thesis using assms(3)[OF Cons.prems(2) c] by (rule Cons.IH)
  next
    case False
    then have "e = err" "s1 = s'" using Cons.prems c by (auto simp: Let_def)
    then show ?thesis using c Cons.prems(2) by blast
  qed
qed simp

lemma by_clock_cases:
  assumes "cxx_by_clock readings abs_time cnd sch m = Some (err, m', sch')" "I sch"
    and "\<And>t sch m r. I sch \<Longrightarrow> cnd t sch m = Some r \<Longrightarrow> I (snd (snd r))"
  obtains t m0 sch0 where "I sch0" "cnd t sch0 m0 = Some (err, m', sch')"
proof -
  from assms(1) obtain rest where
    "cxx_wait_until_clock readings abs_time (\<lambda>t (m, sch). cnd t sch m) (m, sch) = Some (err, rest, m', sch')"
    by (auto simp: cxx_by_clock_def)
  from by_clock_last[OF this, where I = "\<lambda>s. I (snd s)"] assms(2,3)
  have "\<exists>t s0. I (snd s0) \<and> (case s0 of (m, sch) \<Rightarrow> cnd t sch m) = Some (err, m', sch')" by fastforce
  then show thesis using that by (auto split: prod.splits)
qed

lemma by_clock_outcome:
  assumes "\<And>t. outcome (returning f (cnd t)) P"
  shows "outcome (returning f (cxx_by_clock readings abs_time cnd)) P"
proof (rule outcome_returning)
  fix sch m err m' sch'
  assume "cxx_by_clock readings abs_time cnd sch m = Some (err, m', sch')"
  then obtain t m0 sch0 where "cnd t sch0 m0 = Some (err, m', sch')"
    by (rule by_clock_cases[where I = "\<lambda>_. True"]) (rule TrueI | erule that)+
  then have "returning f (cnd t) sch0 m0 = Some (f err, m', sch')" by (simp add: returning_def)
  then show "P (f err) (fst m')" using assms[of t] unfolding outcome_def by blast
qed

lemma timed_outcome:
  assumes "\<And>t. outcome (returning f (cnd t)) P"
  shows "outcome (returning f (cxx_wait_until abs_time cnd)) P" "outcome (returning f (cxx_wait_for rel_time cnd)) P"
  using assms by (simp_all add: cxx_wait_until_def cxx_wait_for_def Let_def)

lemma mutex_taken_outcome:
  "outcome (returning is_zero (lock_mutex mtx quantum (Some t))) (\<lambda>r w. r = Some 1 \<and> mtx_locked w = 1 \<or> r = Some 0)"
  using mutex_outcome(2)[where f = is_zero and t = "Some t"] by (simp add: is_zero_def)

lemma shared_taken_outcome:
  "outcome (returning is_zero (lock_shared shared (Some t))) (\<lambda>r w. r = Some 1 \<and> shared_taken shared w \<or> r = Some 0)"
  using shared_outcome(2)[where f = is_zero and t = "Some t" and shared = shared] by (simp add: is_zero_def)

text \<open>What the locking functions of the classes return, and what it means, whatever other
  threads do: \<open>lock\<close> and \<open>lock_shared\<close> return with the lock taken in their mode, and no assertion fails; a
  timed lock, by the system clock, by another clock or by a duration, returns true with the lock taken, or
  false; a try-lock that no other thread disturbs tells whether the lock was free.\<close>

theorem cxx_lock_results:
  "outcome (cxx_mutex_lock mtx quantum) (\<lambda>r w. r = Some 0 \<and> mtx_locked w = 1) \<and>
   outcome (cxx_mutex_try_lock_until mtx quantum t) (\<lambda>r w. r = Some 1 \<and> mtx_locked w = 1 \<or> r = Some 0) \<and>
   outcome (cxx_mutex_try_lock_until_clock mtx quantum readings t) (\<lambda>r w. r = Some 1 \<and> mtx_locked w = 1 \<or> r = Some 0) \<and>
   outcome (cxx_mutex_try_lock_for mtx quantum t) (\<lambda>r w. r = Some 1 \<and> mtx_locked w = 1 \<or> r = Some 0) \<and>
   outcome cxx_shared_mutex_lock (\<lambda>r w. r = Some 0 \<and> shared_taken False w) \<and>
   outcome cxx_shared_mutex_lock_shared (\<lambda>r w. r = Some 0 \<and> shared_taken True w) \<and>
   outcome (cxx_shared_mutex_try_lock_until t) (\<lambda>r w. r = Some 1 \<and> shared_taken False w \<or> r = Some 0) \<and>
   outcome (cxx_shared_mutex_try_lock_until_clock readings t) (\<lambda>r w. r = Some 1 \<and> shared_taken False w \<or> r = Some 0) \<and>
   outcome (cxx_shared_mutex_try_lock_for t) (\<lambda>r w. r = Some 1 \<and> shared_taken False w \<or> r = Some 0) \<and>
   outcome (cxx_shared_mutex_try_lock_shared_until t) (\<lambda>r w. r = Some 1 \<and> shared_taken True w \<or> r = Some 0) \<and>
   outcome (cxx_shared_mutex_try_lock_shared_until_clock readings t) (\<lambda>r w. r = Some 1 \<and> shared_taken True w \<or> r = Some 0) \<and>
   outcome (cxx_shared_mutex_try_lock_shared_for t) (\<lambda>r w. r = Some 1 \<and> shared_taken True w \<or> r = Some 0) \<and>
   map_option fst (cxx_mutex_try_lock mtx quantum (alone [Step, Step, Clock now, Step, Step]) (w, field)) =
     Some (Some (of_bool (mtx_locked w = 0))) \<and>
   map_option fst (cxx_shared_mutex_try_lock (alone [Step, Step, Clock now, Step, Step]) (v, ())) =
     Some (Some (of_bool (smtx_nshare v = 0))) \<and>
   map_option fst (cxx_shared_mutex_try_lock_shared (alone [Step, Step, Clock now, Step, Step]) (v, ())) =
     Some (Some (of_bool (smtx_nshare v < 16382 \<and> smtx_nsleep v = 0)))"
  unfolding cxx_mutex_lock_def cxx_mutex_try_lock_until_def cxx_mutex_try_lock_until_clock_def cxx_mutex_try_lock_for_def
    cxx_shared_mutex_lock_def cxx_shared_mutex_lock_shared_def cxx_shared_mutex_try_lock_until_def
    cxx_shared_mutex_try_lock_until_clock_def cxx_shared_mutex_try_lock_for_def cxx_shared_mutex_try_lock_shared_until_def
    cxx_shared_mutex_try_lock_shared_until_clock_def cxx_shared_mutex_try_lock_shared_for_def
  by (intro conjI mutex_outcome(1) shared_outcome(1) timed_outcome by_clock_outcome mutex_taken_outcome shared_taken_outcome)
    (simp_all add: cxx_mutex_try_lock_def cxx_shared_mutex_try_lock_def cxx_shared_mutex_try_lock_shared_def
      returning_def undisturbed_mutex is_zero_def Let_def
      undisturbed_shared[of True, unfolded if_True] undisturbed_shared[of False, unfolded if_False] del: alone_simps)

section \<open>What a wait leaves\<close>

lemma cond_wait_rest:
  assumes "MCF_gthr_cond_mutex_wait tid t sch m = Some r"
  shows "set (snd (snd r)) \<subseteq> set sch"
  using assms run_call_rest unfolding MCF_gthr_cond_mutex_wait_def MCF_cond_wait_def by (fastforce split: option.splits)

lemma by_clock_cond_outcome:
  assumes "\<And>t. cond_outcome tid (returning f (MCF_gthr_cond_mutex_wait tid (Some t))) P"
  shows "cond_outcome tid (returning f (cxx_by_clock readings abs_time (\<lambda>t. MCF_gthr_cond_mutex_wait tid (Some t)))) P"
  unfolding cond_outcome_def
proof (intro allI impI)
  fix sch m r m' sch' l
  assume mine: "\<forall>(e, g) \<in> set sch. \<forall>m. unlocked (snd (g m)) tid = unlocked (snd m) tid"
    and call: "returning f (cxx_by_clock readings abs_time (\<lambda>t. MCF_gthr_cond_mutex_wait tid (Some t))) sch m = Some (r, m', sch')"
    and l: "user (snd m') = Some l"
  obtain err where c: "cxx_by_clock readings abs_time (\<lambda>t. MCF_gthr_cond_mutex_wait tid (Some t)) sch m = Some (err, m', sch')"
    and r: "r = f err" using call by (auto simp: returning_def)
  from c obtain t m0 sch0 where "set sch0 \<subseteq> set sch"
    and run: "MCF_gthr_cond_mutex_wait tid (Some t) sch0 m0 = Some (err, m', sch')"
    by (rule by_clock_cases[where I = "\<lambda>rest. set rest \<subseteq> set sch"]) (rule order_refl | erule (1) that | erule order_trans[OF cond_wait_rest])+
  with mine have "\<forall>(e, g) \<in> set sch0. \<forall>m. unlocked (snd (g m)) tid = unlocked (snd m) tid" by blast
  moreover have "returning f (MCF_gthr_cond_mutex_wait tid (Some t)) sch0 m0 = Some (r, m', sch')"
    by (simp add: returning_def run r)
  ultimately show "P r l" using assms[of t] l unfolding cond_outcome_def by blast
qed

lemma with_lock_cond_outcome:
  "cond_outcome tid call P \<Longrightarrow> ul_owns lock \<Longrightarrow> ul_mutex lock \<noteq> 0 \<Longrightarrow> cond_outcome tid (with_lock lock call) P"
  by (simp add: cond_outcome_def with_lock_def)

text \<open>The waits of a condition variable, called with a lock that owns a mutex: without a time no
  assertion fails; with one, by any clock, the result is \<open>no_timeout\<close> or \<open>timeout\<close>; and whenever such a
  call returns with the mutex relocked, the mutex is locked. Called with a lock that owns nothing,
  each fails its assertion and leaves the condition variable as it was.\<close>

theorem cxx_cond_wait_results:
  assumes "ul_owns lock" "ul_mutex lock \<noteq> 0" "\<not> ul_owns nothing"
  shows "cond_outcome tid (cxx_condition_variable_wait tid lock) (\<lambda>r w. r = Some 0 \<and> mtx_locked w = 1) \<and>
   cond_outcome tid (cxx_condition_variable_wait_until tid lock t)
     (\<lambda>r w. (r = Some cv_no_timeout \<or> r = Some cv_timeout) \<and> mtx_locked w = 1) \<and>
   cond_outcome tid (cxx_condition_variable_wait_until_clock tid lock readings t)
     (\<lambda>r w. (r = Some cv_no_timeout \<or> r = Some cv_timeout) \<and> mtx_locked w = 1) \<and>
   cond_outcome tid (cxx_condition_variable_wait_for tid lock t)
     (\<lambda>r w. (r = Some cv_no_timeout \<or> r = Some cv_timeout) \<and> mtx_locked w = 1) \<and>
   cxx_condition_variable_wait tid nothing sch m = Some (None, m, sch) \<and>
   cxx_condition_variable_wait_until tid nothing t sch m = Some (None, m, sch) \<and>
   cxx_condition_variable_wait_until_clock tid nothing readings t sch m = Some (None, m, sch) \<and>
   cxx_condition_variable_wait_for tid nothing t sch m = Some (None, m, sch)"
proof -
  let ?P = "\<lambda>r w. (r = Some cv_no_timeout \<or> r = Some cv_timeout) \<and> mtx_locked w = 1"
  have timed: "cond_outcome tid (returning (or_code cv_timeout cv_no_timeout) (MCF_gthr_cond_mutex_wait tid (Some t))) ?P" for t
    by (rule cond_outcome_weaken, rule cond_outcomes(1)) (auto simp: or_code_def)
  show ?thesis
    unfolding cxx_condition_variable_wait_def cxx_condition_variable_wait_until_def
      cxx_condition_variable_wait_until_clock_def cxx_condition_variable_wait_for_def
  proof (intro conjI with_lock_cond_outcome by_clock_cond_outcome timed assms)
    show "cond_outcome tid (returning (must_be_zero 0) (MCF_gthr_cond_mutex_wait tid None)) (\<lambda>r w. r = Some 0 \<and> mtx_locked w = 1)"
      by (rule cond_outcome_weaken, rule cond_outcomes(1)) (auto simp: must_be_zero_def)
  qed (use timed assms(3) in \<open>simp_all add: cxx_wait_until_def cxx_wait_for_def with_lock_def Let_def\<close>)
qed

lemma cxx_cond_wait_results_witness:
  "cond_outcome 3 (cxx_condition_variable_wait 3 \<lparr>ul_mutex = 0x2000, ul_owns = True\<rparr>) (\<lambda>r w. r = Some 0 \<and> mtx_locked w = 1) \<and>
   cxx_condition_variable_wait 3 \<lparr>ul_mutex = 0x2000, ul_owns = False\<rparr> [] m = Some (None, m, [])"
  using cxx_cond_wait_results[of "\<lparr>ul_mutex = 0x2000, ul_owns = True\<rparr>" "\<lparr>ul_mutex = 0x2000, ul_owns = False\<rparr>" 3 0 "[]" "[]" m]
  by simp

end
