(* ===== verification/Cxx_Thread.thy ===== *)
theory Cxx_Thread
  imports Mcf_Thread
begin

text \<open>
  The class \<open>thread\<close> of \<open>cxx11.hpp\<close>. A thread object is the pointer \<open>_M_thr\<close>, null or owning one of the
  two references of a new thread. Its constructor creates the thread first and copies the
  function object into it afterwards, which may raise an exception; the new thread waits on
  \<open>_M_ctor_status\<close> until it knows how that ended. So the constructor is two steps, between which other
  threads may do anything.

  Shown: for any interleaving of operations on any number of objects, each reference is
  accounted for, a control structure is freed exactly when nobody has a reference, no thread runs a
  function object that has not been constructed, and the only assertions and terminations are those for
  misuse by the client.
\<close>

section \<open>Member functions\<close>

datatype 'a cxx_end = Returns 'a | Throws int 'a | Terminates | Fails

definition resource_unavailable_try_again :: int where "resource_unavailable_try_again = 11"
definition resource_deadlock_would_occur :: int where "resource_deadlock_would_occur = 36"

text \<open>The values of \<open>_M_ctor_status\<close>.\<close>

definition St_zero :: u8 where "St_zero = 0"
definition St_constructed :: u8 where "St_constructed = 1"
definition St_cancelled :: u8 where "St_cancelled = 2"

text \<open>Creating the thread; a failure of \<open>_MCF_thread_p_new\<close> is an exception, and no object.\<close>

definition cxx_thread_ctor :: "uptr \<Rightarrow> uptr \<Rightarrow> uptr \<Rightarrow> (uptr \<Rightarrow> uptr option) \<Rightarrow> (u32 + uptr \<times> i32) \<Rightarrow>
    uptr \<Rightarrow> memory runtime \<Rightarrow> (uptr \<times> memory runtime) cxx_end option" where
  "cxx_thread_ctor thread_fn align data_size alloc create this s =
     (case MCF_thread_p_new thread_fn align 0 data_size alloc create (rt_world s) of
        None \<Rightarrow> Some Fails
      | Some (Inl err) \<Rightarrow> Some (Throws resource_unavailable_try_again (0, s))
      | Some (Inr (thrd, t, m, kept)) \<Rightarrow>
          Some (Returns (thrd, s\<lparr>rt_threads := (rt_threads s)(thrd \<mapsto> t), rt_world := m\<rparr>)))"

text \<open>The two deleters of the sentry: the function object was copied, or its copy raised an exception.\<close>

definition complete_thread :: "uptr \<Rightarrow> (uptr \<Rightarrow> u8) \<Rightarrow> uptr \<Rightarrow> u8" where
  "complete_thread thrd status = status(thrd := St_constructed)"

definition cancel_thread :: "uptr \<Rightarrow> (uptr \<Rightarrow> u8) \<Rightarrow> 'w runtime \<Rightarrow> ((uptr \<Rightarrow> u8) \<times> 'w runtime) option" where
  "cancel_thread thrd status s = map_option (\<lambda>s. (status(thrd := St_cancelled), s)) (MCF_thread_drop_ref thrd s)"

text \<open>What the new thread does with the status that it gets, which is not \<open>St_zero\<close>: \<open>True\<close> if it
  invokes the function object, \<open>None\<close> if its assertion fails.\<close>

definition thread_fn_invokes :: "u8 \<Rightarrow> bool option" where
  "thread_fn_invokes st =
     (if st = St_cancelled then Some False else if st = St_constructed then Some True else None)"

definition cxx_thread_move_ctor :: "uptr \<Rightarrow> uptr \<times> uptr" where
  "cxx_thread_move_ctor other = (let thrd = other in (thrd, 0))"

definition cxx_thread_move_assign :: "uptr \<Rightarrow> uptr \<Rightarrow> (uptr \<times> uptr) cxx_end" where
  "cxx_thread_move_assign this other = (if this \<noteq> 0 then Terminates else let thrd = other in Returns (thrd, 0))"

definition cxx_thread_dtor :: "uptr \<Rightarrow> unit cxx_end" where
  "cxx_thread_dtor this = (if this \<noteq> 0 then Terminates else Returns ())"

definition cxx_thread_swap :: "uptr \<Rightarrow> uptr \<Rightarrow> uptr \<times> uptr" where
  "cxx_thread_swap this other = (other, this)"

definition cxx_thread_joinable :: "uptr \<Rightarrow> bool" where
  "cxx_thread_joinable this \<longleftrightarrow> this \<noteq> 0"

text \<open>\<open>ended\<close> tells whether the thread has ended, and \<open>_MCF_thread_wait\<close> returns; the
  result \<open>None\<close> is that it waits.\<close>

definition cxx_thread_join :: "u32 \<Rightarrow> bool \<Rightarrow> uptr \<Rightarrow> 'w runtime \<Rightarrow> (uptr \<times> 'w runtime) cxx_end option" where
  "cxx_thread_join self_tid ended this s =
     (if this = 0 then Some Fails
      else
        (case MCF_thread_get_tid this s of
           None \<Rightarrow> Some Fails
         | Some tid \<Rightarrow>
             if tid = self_tid then Some (Throws resource_deadlock_would_occur (this, s))
             else if \<not> ended then None
             else
               (case MCF_thread_drop_ref this s of
                  None \<Rightarrow> Some Fails
                | Some s \<Rightarrow> Some (Returns (0, s)))))"

definition cxx_thread_detach :: "uptr \<Rightarrow> 'w runtime \<Rightarrow> (uptr \<times> 'w runtime) cxx_end" where
  "cxx_thread_detach this s =
     (if this = 0 then Fails
      else (case MCF_thread_drop_ref this s of None \<Rightarrow> Fails | Some s \<Rightarrow> Returns (0, s)))"

text \<open>The identifier of a thread, and the comparisons.\<close>

definition cxx_thread_id :: "uptr \<Rightarrow> 'w runtime \<Rightarrow> u32 option" where
  "cxx_thread_id thr_opt s = (if thr_opt \<noteq> 0 then MCF_thread_get_tid thr_opt s else Some 0)"

definition cxx_thread_get_id :: "uptr \<Rightarrow> 'w runtime \<Rightarrow> u32 option" where
  "cxx_thread_get_id this s = cxx_thread_id this s"

definition cxx_thread_id_equal :: "u32 \<Rightarrow> u32 \<Rightarrow> bool" where
  "cxx_thread_id_equal x y \<longleftrightarrow> x = y"

definition cxx_thread_id_less :: "u32 \<Rightarrow> u32 \<Rightarrow> bool" where
  "cxx_thread_id_less x y \<longleftrightarrow> x < y"

section \<open>Objects and threads\<close>

text \<open>An object between the two steps of its constructor is \<open>Making\<close>; \<open>Handle 0\<close> is an empty
  object, or a place where there is none.\<close>

datatype cxx_obj = Handle uptr | Making uptr

fun held :: "cxx_obj \<Rightarrow> uptr" where
  "held (Handle thrd) = thrd"
| "held (Making thrd) = thrd"

datatype cxx_pc = Awaiting | Invoking | Leaving

record cxx_sys =
  cx_objs :: "cxx_obj list"
  cx_rt :: "memory runtime"
  cx_status :: "uptr \<Rightarrow> u8"
  cx_pcs :: "uptr \<Rightarrow> cxx_pc option"

datatype cxx_event =
    Cx_create nat uptr uptr uptr "uptr \<Rightarrow> uptr option" "u32 + uptr \<times> i32"
  | Cx_complete nat | Cx_cancel nat
  | Cx_move_ctor nat nat | Cx_move_assign nat nat | Cx_swap nat nat | Cx_dtor nat
  | Cx_join nat u32 | Cx_detach nat
  | Cx_wake uptr | Cx_leave uptr | Cx_end uptr

definition object_at :: "nat \<Rightarrow> cxx_sys \<Rightarrow> uptr option" where
  "object_at i s =
     (if i < length (cx_objs s) then (case cx_objs s ! i of Handle thrd \<Rightarrow> Some thrd | Making _ \<Rightarrow> None) else None)"

definition making_at :: "nat \<Rightarrow> cxx_sys \<Rightarrow> uptr option" where
  "making_at i s =
     (if i < length (cx_objs s) then (case cx_objs s ! i of Handle _ \<Rightarrow> None | Making thrd \<Rightarrow> Some thrd) else None)"

definition set_object :: "nat \<Rightarrow> cxx_obj \<Rightarrow> cxx_sys \<Rightarrow> cxx_sys" where
  "set_object i ob s = s\<lparr>cx_objs := (cx_objs s)[i := ob]\<rparr>"

definition after_call :: "nat \<Rightarrow> cxx_sys \<Rightarrow> (uptr \<times> memory runtime) cxx_end \<Rightarrow> cxx_sys cxx_end" where
  "after_call i s r = map_cxx_end (\<lambda>(this, rt). (set_object i (Handle this) s)\<lparr>cx_rt := rt\<rparr>) r"

text \<open>
  The result \<open>None\<close> is an event that cannot happen: no such object or thread, a wait that
  goes on, or a heap that gives out a block that is in use. A thread that ends gives back its own
  reference; that its callbacks have run before is the subject of \<open>Thread_Exit\<close>.
\<close>

fun cxx_move :: "cxx_event \<Rightarrow> cxx_sys \<Rightarrow> cxx_sys cxx_end option" where
  "cxx_move (Cx_create i thread_fn align data_size alloc create) s =
     (if object_at i s \<noteq> Some 0 then None
      else
        (case cxx_thread_ctor thread_fn align data_size alloc create 0 (cx_rt s) of
           Some (Returns (thrd, rt)) \<Rightarrow>
             if thrd = 0 \<or> rt_threads (cx_rt s) thrd \<noteq> None then None
             else Some (Returns ((set_object i (Making thrd) s)\<lparr>cx_rt := rt, cx_status := (cx_status s)(thrd := St_zero),
               cx_pcs := (cx_pcs s)(thrd \<mapsto> Awaiting)\<rparr>))
         | Some (Throws err (this, rt)) \<Rightarrow> Some (Throws err (s\<lparr>cx_rt := rt\<rparr>))
         | _ \<Rightarrow> None))"
| "cxx_move (Cx_complete i) s =
     (case making_at i s of
        None \<Rightarrow> None
      | Some thrd \<Rightarrow> Some (Returns ((set_object i (Handle thrd) s)\<lparr>cx_status := complete_thread thrd (cx_status s)\<rparr>)))"
| "cxx_move (Cx_cancel i) s =
     (case making_at i s of
        None \<Rightarrow> None
      | Some thrd \<Rightarrow>
          (case cancel_thread thrd (cx_status s) (cx_rt s) of
             None \<Rightarrow> Some Fails
           | Some (status, rt) \<Rightarrow> Some (Returns ((set_object i (Handle 0) s)\<lparr>cx_rt := rt, cx_status := status\<rparr>))))"
| "cxx_move (Cx_move_ctor i j) s =
     (case (object_at i s, object_at j s) of
        (Some this, Some other) \<Rightarrow>
          if this \<noteq> 0 \<or> i = j then None
          else (let (this, other) = cxx_thread_move_ctor other
                in Some (Returns (set_object j (Handle other) (set_object i (Handle this) s))))
      | _ \<Rightarrow> None)"
| "cxx_move (Cx_move_assign i j) s =
     (case (object_at i s, object_at j s) of
        (Some this, Some other) \<Rightarrow>
          Some (map_cxx_end (\<lambda>(this, other). set_object i (Handle this) (set_object j (Handle other) s))
            (cxx_thread_move_assign this other))
      | _ \<Rightarrow> None)"
| "cxx_move (Cx_swap i j) s =
     (case (object_at i s, object_at j s) of
        (Some this, Some other) \<Rightarrow>
          (let (this, other) = cxx_thread_swap this other
           in Some (Returns (set_object j (Handle other) (set_object i (Handle this) s))))
      | _ \<Rightarrow> None)"
| "cxx_move (Cx_dtor i) s = map_option (\<lambda>this. map_cxx_end (\<lambda>_. s) (cxx_thread_dtor this)) (object_at i s)"
| "cxx_move (Cx_join i self_tid) s =
     (case object_at i s of
        None \<Rightarrow> None
      | Some this \<Rightarrow> map_option (after_call i s) (cxx_thread_join self_tid (cx_pcs s this = None) this (cx_rt s)))"
| "cxx_move (Cx_detach i) s = map_option (\<lambda>this. after_call i s (cxx_thread_detach this (cx_rt s))) (object_at i s)"
| "cxx_move (Cx_wake thrd) s =
     (if cx_pcs s thrd = Some Awaiting \<and> cx_status s thrd \<noteq> St_zero then
        (case thread_fn_invokes (cx_status s thrd) of
           None \<Rightarrow> Some Fails
         | Some invokes \<Rightarrow> Some (Returns (s\<lparr>cx_pcs := (cx_pcs s)(thrd \<mapsto> if invokes then Invoking else Leaving)\<rparr>)))
      else None)"
| "cxx_move (Cx_leave thrd) s =
     (if cx_pcs s thrd = Some Invoking then Some (Returns (s\<lparr>cx_pcs := (cx_pcs s)(thrd \<mapsto> Leaving)\<rparr>)) else None)"
| "cxx_move (Cx_end thrd) s =
     (if cx_pcs s thrd = Some Leaving then
        (case MCF_thread_drop_ref_nonnull thrd (cx_rt s) of
           None \<Rightarrow> Some Fails
         | Some rt \<Rightarrow> Some (Returns (s\<lparr>cx_rt := rt, cx_pcs := (cx_pcs s)(thrd := None)\<rparr>)))
      else None)"

definition cxx_begin :: "nat \<Rightarrow> memory runtime \<Rightarrow> cxx_sys" where
  "cxx_begin k rt = \<lparr>cx_objs = replicate k (Handle 0), cx_rt = rt, cx_status = \<lambda>_. St_zero, cx_pcs = \<lambda>_. None\<rparr>"

inductive cxx_reach :: "cxx_sys \<Rightarrow> cxx_sys \<Rightarrow> bool" for s0 where
  cxx_start: "cxx_reach s0 s0"
| cxx_next: "cxx_reach s0 s \<Longrightarrow> cxx_move ev s = Some (Returns s') \<Longrightarrow> cxx_reach s0 s'"
| cxx_catch: "cxx_reach s0 s \<Longrightarrow> cxx_move ev s = Some (Throws err s') \<Longrightarrow> cxx_reach s0 s'"

section \<open>References\<close>

lemma count_list_update:
  "i < length xs \<Longrightarrow> int (count_list (xs[i := x]) y) = int (count_list xs y) - of_bool (xs ! i = y) + of_bool (x = y)"
proof (induction xs arbitrary: i)
  case (Cons a xs)
  then show ?case by (cases i) auto
qed simp

definition owners :: "cxx_sys \<Rightarrow> uptr \<Rightarrow> int" where
  "owners s thrd = int (count_list (map held (cx_objs s)) thrd)"

definition references :: "cxx_sys \<Rightarrow> uptr \<Rightarrow> int" where
  "references s thrd = (case rt_threads (cx_rt s) thrd of None \<Rightarrow> 0 | Some t \<Rightarrow> sint (th_nref t))"

definition clean :: "mcf_thread \<Rightarrow> bool" where
  "clean t \<longleftrightarrow> 0 < sint (th_nref t) \<and> dq_prev (th_atexit_queue t) = None \<and> tt_elems (th_tls_table t) = []"

text \<open>The threads that are there from the beginning, the main thread and the static one among them,
  are nobody's.\<close>

definition own_thread :: "cxx_sys \<Rightarrow> uptr \<Rightarrow> bool" where
  "own_thread s thrd \<longleftrightarrow> owners s thrd \<le> 1 \<and> references s thrd = owners s thrd + of_bool (cx_pcs s thrd \<noteq> None) \<and>
     (\<forall>t. rt_threads (cx_rt s) thrd = Some t \<longrightarrow> clean t)"

definition own_threads :: "memory runtime \<Rightarrow> cxx_sys \<Rightarrow> bool" where
  "own_threads rt0 s \<longleftrightarrow> rt_main (cx_rt s) = rt_main rt0 \<and> rt_oom (cx_rt s) = rt_oom rt0 \<and>
     (\<forall>thrd. rt_threads rt0 thrd \<noteq> None \<longrightarrow> owners s thrd = 0 \<and> cx_pcs s thrd = None \<and> rt_threads (cx_rt s) thrd \<noteq> None) \<and>
     cx_pcs s 0 = None \<and> rt_threads (cx_rt s) 0 = None \<and>
     (\<forall>thrd. thrd \<noteq> 0 \<longrightarrow> rt_threads rt0 thrd = None \<longrightarrow> own_thread s thrd)"

fun object_ok :: "cxx_sys \<Rightarrow> cxx_obj \<Rightarrow> bool" where
  "object_ok s (Handle thrd) \<longleftrightarrow> (thrd \<noteq> 0 \<longrightarrow> cx_status s thrd = St_constructed)"
| "object_ok s (Making thrd) \<longleftrightarrow> thrd \<noteq> 0 \<and> cx_status s thrd = St_zero \<and> cx_pcs s thrd = Some Awaiting"

definition status_ok :: "cxx_sys \<Rightarrow> bool" where
  "status_ok s \<longleftrightarrow> (\<forall>ob \<in> set (cx_objs s). object_ok s ob) \<and>
     (\<forall>thrd. cx_pcs s thrd = Some Invoking \<longrightarrow> cx_status s thrd = St_constructed) \<and>
     (\<forall>thrd. cx_pcs s thrd = Some Awaiting \<longrightarrow> cx_status s thrd \<in> {St_zero, St_constructed, St_cancelled} \<and>
        (cx_status s thrd = St_zero \<longrightarrow> Making thrd \<in> set (cx_objs s)))"

definition rt_ok :: "memory runtime \<Rightarrow> bool" where
  "rt_ok rt \<longleftrightarrow> rt_threads rt 0 = None \<and> rt_threads rt (rt_main rt) \<noteq> None \<and>
     (\<forall>thrd. rt_oom rt = Some thrd \<longrightarrow> rt_threads rt thrd \<noteq> None)"

lemma owners_set_object:
  "i < length (cx_objs s) \<Longrightarrow> owners (set_object i ob s) thrd =
    owners s thrd - of_bool (held (cx_objs s ! i) = thrd) + of_bool (held ob = thrd)"
  using count_list_update[of i "map held (cx_objs s)" "held ob" thrd] by (simp add: owners_def set_object_def map_update)

lemma set_object_more [simp]:
  "cx_rt (set_object i ob s) = cx_rt s" "cx_status (set_object i ob s) = cx_status s" "cx_pcs (set_object i ob s) = cx_pcs s"
  "cx_objs (set_object i ob s) = (cx_objs s)[i := ob]"
  by (simp_all add: set_object_def)

lemma owners_more [simp]:
  "owners (s\<lparr>cx_rt := rt\<rparr>) = owners s" "owners (s\<lparr>cx_status := st\<rparr>) = owners s" "owners (s\<lparr>cx_pcs := pcs\<rparr>) = owners s"
  by (simp_all add: owners_def fun_eq_iff)

lemma object_at_iff: "object_at i s = Some thrd \<longleftrightarrow> i < length (cx_objs s) \<and> cx_objs s ! i = Handle thrd"
  by (auto simp: object_at_def split: cxx_obj.splits)

lemma object_at_more [simp]: "object_at i (s\<lparr>cx_pcs := pcs\<rparr>) = object_at i s" "object_at i (s\<lparr>cx_rt := rt\<rparr>) = object_at i s"
  by (simp_all add: object_at_def)

lemma making_at_iff: "making_at i s = Some thrd \<longleftrightarrow> i < length (cx_objs s) \<and> cx_objs s ! i = Making thrd"
  by (auto simp: making_at_def split: cxx_obj.splits)

lemma owner_pos: "i < length (cx_objs s) \<Longrightarrow> held (cx_objs s ! i) = thrd \<Longrightarrow> 0 < owners s thrd"
  unfolding owners_def by (metis count_list_0_iff image_eqI length_map list.set_map nth_mem of_nat_0_less_iff gr0I)

text \<open>A thread with an owner, or that is running, has a control structure.\<close>

lemma has_thread:
  assumes "own_threads rt0 s" "thrd \<noteq> 0" "0 < owners s thrd \<or> cx_pcs s thrd \<noteq> None"
  obtains t where "rt_threads (cx_rt s) thrd = Some t" "clean t" "rt_threads rt0 thrd = None"
    "sint (th_nref t) = owners s thrd + of_bool (cx_pcs s thrd \<noteq> None)" "owners s thrd \<le> 1"
proof -
  have new: "rt_threads rt0 thrd = None" using assms by (auto simp: own_threads_def)
  have "0 \<le> owners s thrd" by (simp add: owners_def)
  with assms(1,2) new have r: "references s thrd = owners s thrd + of_bool (cx_pcs s thrd \<noteq> None)" "owners s thrd \<le> 1"
    by (auto simp: own_threads_def own_thread_def)
  have "0 < references s thrd" using r(1) assms(3) \<open>0 \<le> owners s thrd\<close> by (cases "cx_pcs s thrd = None") auto
  then obtain t where t: "rt_threads (cx_rt s) thrd = Some t"
    by (auto simp: references_def split: option.splits)
  moreover have "clean t" using assms(1,2) new t by (auto simp: own_threads_def own_thread_def)
  ultimately show thesis using that new r by (simp add: references_def)
qed

text \<open>Dropping a reference of such a thread.\<close>

lemma drop_ref:
  assumes "rt_threads rt thrd = Some t" "clean t" "thrd \<noteq> rt_main rt" "rt_oom rt \<noteq> Some thrd"
  obtains rt' where "MCF_thread_drop_ref_nonnull thrd rt = Some rt'"
    "rt_main rt' = rt_main rt" "rt_oom rt' = rt_oom rt"
    "rt_threads rt' = (rt_threads rt)(thrd := if sint (th_nref t) = 1 then None else Some (t\<lparr>th_nref := th_nref t - 1\<rparr>))"
proof -
  let ?rt = "rt\<lparr>rt_threads := (rt_threads rt)(thrd := if sint (th_nref t) = 1 then None else Some (t\<lparr>th_nref := th_nref t - 1\<rparr>))\<rparr>"
  have one: "sint (th_nref t) = 1 \<longleftrightarrow> th_nref t = 1" using signed_word_eqI[of "th_nref t" 1] by auto
  have "MCF_thread_drop_ref_nonnull thrd rt = Some ?rt"
  proof (cases "th_nref t = 1")
    case True
    then show ?thesis using assms one by (simp add: MCF_thread_drop_ref_nonnull_def clean_def word_sless_alt)
  next
    case False
    then show ?thesis using assms(1,2) one by (simp add: MCF_thread_drop_ref_nonnull_def clean_def word_sless_alt)
  qed
  then show thesis by (rule that) simp_all
qed

lemma clean_dec:
  assumes "clean t" "sint (th_nref t) \<noteq> 1"
  shows "clean (t\<lparr>th_nref := th_nref t - 1\<rparr>)" "sint (th_nref t - 1) = sint (th_nref t) - 1"
proof -
  have "sint (th_nref t) < 2 ^ 31" using sint_less[of "th_nref t"] by simp
  then show "sint (th_nref t - 1) = sint (th_nref t) - 1"
    using assms signed_take_bit_int_eq_self[of 31 "sint (th_nref t) - 1"] by (simp add: sint_word_ariths clean_def)
  then show "clean (t\<lparr>th_nref := th_nref t - 1\<rparr>)" using assms by (simp add: clean_def)
qed

section \<open>Every operation keeps them\<close>

lemma other_objects:
  assumes "own_threads rt0 s" "i < length (cx_objs s)" "held (cx_objs s ! i) = thrd" "thrd \<noteq> 0"
    and "ob \<in> set ((cx_objs s)[i := x])"
  shows "ob = x \<or> ob \<in> set (cx_objs s) \<and> held ob \<noteq> thrd"
proof (rule disjCI)
  assume x: "\<not> (ob \<in> set (cx_objs s) \<and> held ob \<noteq> thrd)"
  from assms(5) obtain j where j: "j < length (cx_objs s)" "ob = (cx_objs s)[i := x] ! j" by (auto simp: in_set_conv_nth)
  show "ob = x"
  proof (rule ccontr)
    assume "ob \<noteq> x"
    with j assms(2) have ob: "j \<noteq> i" "ob = cx_objs s ! j" by (auto simp: nth_list_update split: if_splits)
    with x j(1) have "held (cx_objs s ! j) = thrd" by auto
    then have "0 < owners (set_object i (Handle 0) s) thrd"
      using j(1) ob(1) by (intro owner_pos[of j]) simp_all
    moreover have "owners s thrd \<le> 1"
      using has_thread[OF assms(1,4)] owner_pos[OF assms(2,3)] by blast
    ultimately show False using assms(2-4) by (simp add: owners_set_object)
  qed
qed

lemma making_kept: "Making t \<in> set xs \<Longrightarrow> xs ! i \<noteq> Making t \<Longrightarrow> Making t \<in> set (xs[i := x])"
  by (metis in_set_conv_nth length_list_update nth_list_update_neq)

lemma own_thread_cong:
  assumes "owners s' x = owners s x" "rt_threads (cx_rt s') x = rt_threads (cx_rt s) x" "cx_pcs s' x = None \<longleftrightarrow> cx_pcs s x = None"
  shows "own_thread s' x \<longleftrightarrow> own_thread s x"
  using assms by (simp add: own_thread_def references_def)

lemma own_rearranged:
  assumes own: "own_threads rt0 s" and "rt_ok rt0" and same: "\<And>thrd. thrd \<noteq> 0 \<Longrightarrow> owners s' thrd = owners s thrd"
    "cx_rt s' = cx_rt s" "\<And>thrd. cx_pcs s' thrd = None \<longleftrightarrow> cx_pcs s thrd = None"
  shows "own_threads rt0 s'"
proof -
  have "own_thread s' x \<longleftrightarrow> own_thread s x" if "x \<noteq> 0" for x using same that by (intro own_thread_cong) simp_all
  moreover have "x \<noteq> 0" if "rt_threads rt0 x \<noteq> None" for x using assms(2) that by (auto simp: rt_ok_def)
  ultimately show ?thesis using own same unfolding own_threads_def by simp
qed

lemma status_rearranged:
  assumes ok: "status_ok s" and objs: "set (cx_objs s') \<subseteq> insert (Handle 0) (set (cx_objs s))"
    "\<And>thrd. Making thrd \<in> set (cx_objs s) \<Longrightarrow> Making thrd \<in> set (cx_objs s')"
    and same: "cx_status s' = cx_status s" "cx_pcs s' = cx_pcs s"
  shows "status_ok s'"
proof -
  have "object_ok s' ob \<longleftrightarrow> object_ok s ob" for ob using same by (cases ob) simp_all
  then have "object_ok s' ob" if "ob \<in> set (cx_objs s')" for ob
    using objs(1) that ok by (cases "ob = Handle 0") (auto simp: status_ok_def)
  then show ?thesis using ok objs(2) same by (auto simp: status_ok_def)
qed

text \<open>A reference is given back by an object or by the thread itself.\<close>

lemma own_dropped:
  assumes own: "own_threads rt0 s" "rt_ok rt0" "thrd \<noteq> 0"
    and t: "rt_threads (cx_rt s) thrd = Some t" "clean t"
    and rt: "rt_main (cx_rt s') = rt_main (cx_rt s)" "rt_oom (cx_rt s') = rt_oom (cx_rt s)"
      "rt_threads (cx_rt s') = (rt_threads (cx_rt s))(thrd := if sint (th_nref t) = 1 then None else Some (t\<lparr>th_nref := th_nref t - 1\<rparr>))"
    and new: "rt_threads rt0 thrd = None"
    and refs: "owners s' thrd + of_bool (cx_pcs s' thrd \<noteq> None) = owners s thrd + of_bool (cx_pcs s thrd \<noteq> None) - 1"
      "owners s' thrd \<le> owners s thrd"
    and others: "\<And>x. x \<noteq> 0 \<Longrightarrow> x \<noteq> thrd \<Longrightarrow> owners s' x = owners s x \<and> cx_pcs s' x = cx_pcs s x" "cx_pcs s' 0 = None"
  shows "own_threads rt0 s'"
proof -
  have old: "own_thread s thrd" using own new by (simp add: own_threads_def)
  have "references s' thrd = references s thrd - 1"
    using t rt(3) clean_dec[of t] by (simp add: references_def)
  moreover have "clean t'" if "rt_threads (cx_rt s') thrd = Some t'" for t'
    using that t rt(3) clean_dec[of t] by (auto split: if_splits)
  ultimately have self: "own_thread s' thrd" using old refs by (simp add: own_thread_def)
  have "own_thread s' x \<longleftrightarrow> own_thread s x" if "x \<noteq> 0" "x \<noteq> thrd" for x
    using others(1)[OF that] rt(3) that by (intro own_thread_cong) simp_all
  then have all: "own_thread s' x" if "x \<noteq> 0" "rt_threads rt0 x = None" for x
    using own(1) self that by (cases "x = thrd") (auto simp: own_threads_def)
  have base: "owners s' x = 0 \<and> cx_pcs s' x = None \<and> rt_threads (cx_rt s') x \<noteq> None" if "rt_threads rt0 x \<noteq> None" for x
  proof -
    have "x \<noteq> thrd" "x \<noteq> 0" using that new own(2) by (auto simp: rt_ok_def)
    with others(1)[of x] show ?thesis using own(1) that rt(3) by (simp add: own_threads_def)
  qed
  show ?thesis
    using own(1,3) rt(1,2) all base others(2) rt(3) by (simp add: own_threads_def)
qed

section \<open>Every event\<close>

definition cxx_inv :: "memory runtime \<Rightarrow> cxx_sys \<Rightarrow> bool" where
  "cxx_inv rt0 s \<longleftrightarrow> own_threads rt0 s \<and> status_ok s"

lemma inv_rearranged:
  assumes "cxx_inv rt0 s" "rt_ok rt0" "\<And>thrd. thrd \<noteq> 0 \<Longrightarrow> owners s' thrd = owners s thrd"
    "set (cx_objs s') \<subseteq> insert (Handle 0) (set (cx_objs s))"
    "\<And>thrd. Making thrd \<in> set (cx_objs s) \<Longrightarrow> Making thrd \<in> set (cx_objs s')"
    "cx_rt s' = cx_rt s" "cx_status s' = cx_status s" "cx_pcs s' = cx_pcs s"
  shows "cxx_inv rt0 s'"
  using assms own_rearranged[of rt0 s s'] status_rearranged[of s s'] by (simp add: cxx_inv_def)

text \<open>Two objects, one of them empty or exchanged.\<close>

lemma inv_two_objects:
  assumes "cxx_inv rt0 s" "rt_ok rt0" "object_at i s = Some a" "object_at j s = Some b" "i \<noteq> j"
    and "(x, y) = (b, a) \<or> a = 0 \<and> (x, y) = (b, 0)"
  shows "cxx_inv rt0 (set_object j (Handle y) (set_object i (Handle x) s))"
proof (rule inv_rearranged[OF assms(1,2)])
  have ij: "i < length (cx_objs s)" "j < length (cx_objs s)" "cx_objs s ! i = Handle a" "cx_objs s ! j = Handle b"
    using assms(3,4) by (simp_all add: object_at_iff)
  show "owners (set_object j (Handle y) (set_object i (Handle x) s)) thrd = owners s thrd" if "thrd \<noteq> 0" for thrd
    using ij assms(5,6) that by (auto simp: owners_set_object)
  show "set (cx_objs (set_object j (Handle y) (set_object i (Handle x) s))) \<subseteq> insert (Handle 0) (set (cx_objs s))"
  proof -
    have "Handle x \<in> set (cx_objs s)" "Handle y \<in> insert (Handle 0) (set (cx_objs s))"
      using ij assms(6) nth_mem by (metis Pair_inject, metis Pair_inject insertCI)
    then show ?thesis
      using set_update_subset_insert[of "(cx_objs s)[i := Handle x]" j "Handle y"] set_update_subset_insert[of "cx_objs s" i "Handle x"]
      by auto
  qed
  show "Making thrd \<in> set (cx_objs (set_object j (Handle y) (set_object i (Handle x) s)))" if "Making thrd \<in> set (cx_objs s)" for thrd
    using that ij assms(5) by (auto intro!: making_kept)
qed simp_all

lemma step_complete:
  assumes inv: "cxx_inv rt0 s" "rt_ok rt0" and i: "making_at i s = Some thrd"
  shows "cxx_inv rt0 ((set_object i (Handle thrd) s)\<lparr>cx_status := complete_thread thrd (cx_status s)\<rparr>)" (is "cxx_inv rt0 ?s")
  unfolding cxx_inv_def
proof
  have i': "i < length (cx_objs s)" "cx_objs s ! i = Making thrd" using i by (simp_all add: making_at_iff)
  have own: "own_threads rt0 s" and st: "status_ok s" using inv(1) by (simp_all add: cxx_inv_def)
  have ob: "object_ok s (Making thrd)" using st i' nth_mem[OF i'(1)] by (auto simp: status_ok_def)
  then have pc: "thrd \<noteq> 0" "cx_status s thrd = St_zero" "cx_pcs s thrd = Some Awaiting" by simp_all
  show "own_threads rt0 ?s"
    by (rule own_rearranged[OF own inv(2)]) (use i' in \<open>simp_all add: owners_set_object\<close>)
  have objs: "ob = Handle thrd \<or> ob \<in> set (cx_objs s) \<and> held ob \<noteq> thrd" if "ob \<in> set (cx_objs ?s)" for ob
    using other_objects[OF own i'(1) _ pc(1)] i'(2) that by simp
  have "object_ok ?s ob" if "ob \<in> set (cx_objs ?s)" for ob
    using objs[OF that] st by (cases ob) (auto simp: status_ok_def complete_thread_def)
  moreover have "Making x \<in> set (cx_objs ?s)" if "cx_status ?s x = St_zero" "cx_pcs ?s x = Some Awaiting" for x
  proof -
    have "x \<noteq> thrd" using that(1) by (auto simp: complete_thread_def St_zero_def St_constructed_def)
    then have "Making x \<in> set (cx_objs s)" using st that by (simp add: status_ok_def complete_thread_def)
    then show ?thesis using making_kept[of x "cx_objs s" i] i'(2) \<open>x \<noteq> thrd\<close> by simp
  qed
  ultimately show "status_ok ?s" using st pc by (auto simp: status_ok_def complete_thread_def)
qed

text \<open>An object that gives its reference back becomes empty.\<close>

lemma inv_object_dropped:
  assumes inv: "cxx_inv rt0 s" "rt_ok rt0" and i: "i < length (cx_objs s)" "held (cx_objs s ! i) = thrd" "thrd \<noteq> 0"
    and st: "\<And>x. x \<noteq> thrd \<Longrightarrow> st x = cx_status s x" "st thrd \<noteq> St_zero"
      "st thrd \<in> {St_constructed, St_cancelled}" "st thrd = cx_status s thrd \<or> cx_status s thrd = St_zero"
  obtains rt where "MCF_thread_drop_ref thrd (cx_rt s) = Some rt"
    "cxx_inv rt0 ((set_object i (Handle 0) s)\<lparr>cx_rt := rt, cx_status := st\<rparr>)"
proof -
  have own: "own_threads rt0 s" and ok: "status_ok s" using inv(1) by (simp_all add: cxx_inv_def)
  obtain t where t: "rt_threads (cx_rt s) thrd = Some t" "clean t" "rt_threads rt0 thrd = None"
    using has_thread[OF own i(3)] owner_pos[OF i(1,2)] by metis
  have main: "thrd \<noteq> rt_main (cx_rt s)" "rt_oom (cx_rt s) \<noteq> Some thrd"
    using own inv(2) t(3) by (auto simp: own_threads_def rt_ok_def)
  obtain rt where rt: "MCF_thread_drop_ref_nonnull thrd (cx_rt s) = Some rt"
    "rt_main rt = rt_main (cx_rt s)" "rt_oom rt = rt_oom (cx_rt s)"
    "rt_threads rt = (rt_threads (cx_rt s))(thrd := if sint (th_nref t) = 1 then None else Some (t\<lparr>th_nref := th_nref t - 1\<rparr>))"
    using drop_ref[OF t(1,2) main] by blast
  let ?s = "(set_object i (Handle 0) s)\<lparr>cx_rt := rt, cx_status := st\<rparr>"
  have "own_threads rt0 ?s"
    by (rule own_dropped[OF own inv(2) i(3) t(1,2)])
      (use i t(3) rt own in \<open>auto simp: owners_set_object own_threads_def\<close>)
  moreover have "status_ok ?s"
  proof -
    have objs: "ob = Handle 0 \<or> ob \<in> set (cx_objs s) \<and> held ob \<noteq> thrd" if "ob \<in> set (cx_objs ?s)" for ob
      using other_objects[OF own i(1,2,3)] that by simp
    have "object_ok ?s ob" if "ob \<in> set (cx_objs ?s)" for ob
      using objs[OF that] ok st(1) by (cases ob) (auto simp: status_ok_def)
    moreover have "Making x \<in> set (cx_objs ?s)" if "cx_status ?s x = St_zero" "cx_pcs ?s x = Some Awaiting" for x
    proof -
      have "x \<noteq> thrd" using that(1) st(2) by auto
      then have "Making x \<in> set (cx_objs s)" using ok that st(1) by (simp add: status_ok_def)
      moreover have "cx_objs s ! i \<noteq> Making x" using i(2) \<open>x \<noteq> thrd\<close> by auto
      ultimately show ?thesis by (simp add: making_kept)
    qed
    moreover have "st x = St_constructed" if "cx_pcs s x = Some Invoking" for x
    proof (cases "x = thrd")
      case True
      have "cx_status s thrd = St_constructed" using ok that True by (simp add: status_ok_def)
      then show ?thesis using st(4) True by (auto simp: St_zero_def St_constructed_def)
    qed (use ok that st(1) in \<open>simp add: status_ok_def\<close>)
    moreover have "st x \<in> {St_zero, St_constructed, St_cancelled}" if "cx_pcs s x = Some Awaiting" for x
      using ok that st(1)[of x] st(3) by (cases "x = thrd") (auto simp: status_ok_def)
    ultimately show ?thesis by (simp add: status_ok_def)
  qed
  ultimately show thesis using that[of rt] rt(1) i(3) by (simp add: MCF_thread_drop_ref_def cxx_inv_def)
qed

lemma step_cancel:
  assumes inv: "cxx_inv rt0 s" "rt_ok rt0" and i: "making_at i s = Some thrd"
  shows "\<exists>s'. cxx_move (Cx_cancel i) s = Some (Returns s') \<and> cxx_inv rt0 s'"
proof -
  have i': "i < length (cx_objs s)" "cx_objs s ! i = Making thrd" using i by (simp_all add: making_at_iff)
  then have "object_ok s (Making thrd)" using inv(1) nth_mem[OF i'(1)] by (auto simp: status_ok_def cxx_inv_def)
  then have pc: "thrd \<noteq> 0" "cx_status s thrd = St_zero" by simp_all
  obtain rt where "MCF_thread_drop_ref thrd (cx_rt s) = Some rt"
    "cxx_inv rt0 ((set_object i (Handle 0) s)\<lparr>cx_rt := rt, cx_status := (cx_status s)(thrd := St_cancelled)\<rparr>)"
    by (rule inv_object_dropped[OF inv i'(1) _ pc(1), where st = "(cx_status s)(thrd := St_cancelled)"])
      (use i' pc in \<open>auto simp: St_zero_def St_cancelled_def\<close>)
  then show ?thesis using i by (simp add: cancel_thread_def)
qed

lemma handle_status:
  assumes "cxx_inv rt0 s" "object_at i s = Some this" "this \<noteq> 0"
  shows "cx_status s this = St_constructed"
proof -
  have "i < length (cx_objs s)" "cx_objs s ! i = Handle this" using assms(2) by (simp_all add: object_at_iff)
  then have "object_ok s (Handle this)" using assms(1) nth_mem by (fastforce simp: status_ok_def cxx_inv_def)
  then show ?thesis using assms(3) by simp
qed

text \<open>A thread object that is joinable gives its reference back.\<close>

lemma release_handle:
  assumes inv: "cxx_inv rt0 s" "rt_ok rt0" and i: "object_at i s = Some this" "this \<noteq> 0"
  obtains rt where "MCF_thread_drop_ref this (cx_rt s) = Some rt" "cxx_inv rt0 ((set_object i (Handle 0) s)\<lparr>cx_rt := rt\<rparr>)"
proof -
  have i': "i < length (cx_objs s)" "cx_objs s ! i = Handle this" using i(1) by (simp_all add: object_at_iff)
  obtain rt where "MCF_thread_drop_ref this (cx_rt s) = Some rt"
    "cxx_inv rt0 ((set_object i (Handle 0) s)\<lparr>cx_rt := rt, cx_status := cx_status s\<rparr>)"
    by (rule inv_object_dropped[OF inv i'(1) _ i(2), where st = "cx_status s"])
      (use i' handle_status[OF inv(1) i] in \<open>auto simp: St_zero_def St_constructed_def\<close>)
  moreover have "(set_object i (Handle 0) s)\<lparr>cx_rt := rt, cx_status := cx_status s\<rparr> = (set_object i (Handle 0) s)\<lparr>cx_rt := rt\<rparr>"
    by (simp add: set_object_def)
  ultimately show thesis using that by simp
qed

lemma step_detach:
  assumes "cxx_inv rt0 s" "rt_ok rt0" "object_at i s = Some this" "this \<noteq> 0"
  shows "\<exists>s'. cxx_move (Cx_detach i) s = Some (Returns s') \<and> cxx_inv rt0 s'"
  by (rule release_handle[OF assms]) (use assms(3,4) in \<open>simp add: cxx_thread_detach_def after_call_def\<close>)

lemma step_join:
  assumes "cxx_inv rt0 s" "rt_ok rt0" "object_at i s = Some this" "this \<noteq> 0"
  shows "case cxx_move (Cx_join i tid) s of
      None \<Rightarrow> cx_pcs s this \<noteq> None
    | Some (Returns s') \<Rightarrow> cxx_inv rt0 s' \<and> cx_pcs s this = None
    | Some (Throws err s') \<Rightarrow> s' = s
    | _ \<Rightarrow> False"
proof -
  have i': "i < length (cx_objs s)" "cx_objs s ! i = Handle this" using assms(3) by (simp_all add: object_at_iff)
  have own: "own_threads rt0 s" using assms(1) by (simp add: cxx_inv_def)
  obtain t where t: "rt_threads (cx_rt s) this = Some t"
    using has_thread[OF own assms(4)] owner_pos[OF i'(1), of this] i'(2) by (metis held.simps(1))
  obtain rt where rt: "MCF_thread_drop_ref this (cx_rt s) = Some rt" "cxx_inv rt0 ((set_object i (Handle 0) s)\<lparr>cx_rt := rt\<rparr>)"
    using release_handle[OF assms] by blast
  have "(cx_objs s)[i := Handle this] = cx_objs s" by (metis i'(2) list_update_id)
  then have "after_call i s (Throws err (this, cx_rt s)) = Throws err s" for err
    by (simp add: after_call_def set_object_def)
  then show ?thesis using assms(3,4) t rt
    by (auto simp: cxx_thread_join_def MCF_thread_get_tid_def after_call_def)
qed

text \<open>A new thread comes with two references and nothing registered.\<close>

lemma new_thread_fields:
  assumes "MCF_thread_p_new proc al 0 n alloc create m = Some (Inr (thrd, t, m', kept))"
  shows "sint (th_nref t) = 2 \<and> dq_prev (th_atexit_queue t) = None \<and> tt_elems (th_tls_table t) = []"
  using assms
  by (cases create; cases "projr create")
    (auto simp: MCF_thread_p_new_def Let_def thread_zero_def dtor_queue_zero_def tls_table_zero_def
      split: if_splits option.splits sum.splits prod.splits simp: Option.bind_eq_Some_conv)

lemma step_create:
  assumes inv: "cxx_inv rt0 s" "rt_ok rt0" and mv: "cxx_move (Cx_create i f al n alloc create) s = Some r"
  shows "(\<exists>s'. r = Returns s' \<and> cxx_inv rt0 s') \<or> (\<exists>err. r = Throws err s)"
proof -
  have own: "own_threads rt0 s" and ok: "status_ok s" using inv(1) by (simp_all add: cxx_inv_def)
  have i: "i < length (cx_objs s)" "cx_objs s ! i = Handle 0"
    using mv by (auto simp: object_at_iff split: if_splits)
  consider err where "r = Throws err s"
    | thrd t m kept where "MCF_thread_p_new f al 0 n alloc create (rt_world (cx_rt s)) = Some (Inr (thrd, t, m, kept))"
      "thrd \<noteq> 0" "rt_threads (cx_rt s) thrd = None"
      "r = Returns ((set_object i (Making thrd) s)\<lparr>cx_rt := (cx_rt s)\<lparr>rt_threads := (rt_threads (cx_rt s))(thrd \<mapsto> t), rt_world := m\<rparr>,
         cx_status := (cx_status s)(thrd := St_zero), cx_pcs := (cx_pcs s)(thrd \<mapsto> Awaiting)\<rparr>)"
    using mv by (auto simp: cxx_thread_ctor_def split: if_splits option.splits sum.splits prod.splits)
  then show ?thesis
  proof cases
    case (2 thrd t m kept)
    let ?s = "(set_object i (Making thrd) s)\<lparr>cx_rt := (cx_rt s)\<lparr>rt_threads := (rt_threads (cx_rt s))(thrd \<mapsto> t), rt_world := m\<rparr>,
         cx_status := (cx_status s)(thrd := St_zero), cx_pcs := (cx_pcs s)(thrd \<mapsto> Awaiting)\<rparr>"
    have t: "sint (th_nref t) = 2" "clean t" using new_thread_fields[OF 2(1)] by (simp_all add: clean_def)
    have new: "rt_threads rt0 thrd = None" using own 2(3) by (auto simp: own_threads_def)
    have none: "owners s thrd = 0" "cx_pcs s thrd = None"
    proof -
      have "references s thrd = 0" using 2(3) by (simp add: references_def)
      moreover have "own_thread s thrd" "0 \<le> owners s thrd" using own new 2(2) by (simp_all add: own_threads_def owners_def)
      ultimately have "owners s thrd + of_bool (cx_pcs s thrd \<noteq> None) = 0" by (simp add: own_thread_def)
      then show "owners s thrd = 0" "cx_pcs s thrd = None"
        using \<open>0 \<le> owners s thrd\<close> by (auto simp: of_bool_def split: if_splits)
    qed
    have "own_thread ?s x \<longleftrightarrow> own_thread s x" if "x \<noteq> 0" "x \<noteq> thrd" for x
      using that i by (intro own_thread_cong) (simp_all add: owners_set_object)
    moreover have "own_thread ?s thrd"
      using t none i 2(2) by (auto simp: own_thread_def references_def owners_set_object)
    ultimately have "own_thread ?s x" if "x \<noteq> 0" "rt_threads rt0 x = None" for x
      using own that by (cases "x = thrd") (auto simp: own_threads_def)
    moreover have "owners ?s x = 0" if "rt_threads rt0 x \<noteq> None" for x
    proof -
      have "x \<noteq> thrd" "x \<noteq> 0" using that new inv(2) by (auto simp: rt_ok_def)
      then show ?thesis using own that i by (simp add: owners_set_object own_threads_def)
    qed
    ultimately have "own_threads rt0 ?s" using own new 2(2) by (auto simp: own_threads_def)
    moreover have "status_ok ?s"
    proof -
      have apart: "held ob \<noteq> thrd" if "ob \<in> set (cx_objs s)" for ob
        using that none(1) owner_pos[of _ s thrd] by (metis in_set_conv_nth less_irrefl)
      have "object_ok ?s ob" if "ob \<in> set (cx_objs ?s)" for ob
      proof (cases "ob = Making thrd")
        case False
        then have "ob \<in> set (cx_objs s)" using that set_update_subset_insert[of "cx_objs s" i "Making thrd"] by auto
        with apart[OF this] ok show ?thesis by (cases ob) (auto simp: status_ok_def)
      qed (use 2(2) in simp)
      moreover have "Making x \<in> set (cx_objs ?s)" if "cx_status ?s x = St_zero" "cx_pcs ?s x = Some Awaiting" for x
        using that ok i making_kept[of x "cx_objs s" i]
        by (cases "x = thrd") (auto simp: status_ok_def set_update_memI)
      ultimately show ?thesis using ok none(2) by (auto simp: status_ok_def)
    qed
    ultimately show ?thesis using 2(4) by (auto simp: cxx_inv_def)
  qed blast
qed

lemma step_pc:
  assumes inv: "cxx_inv rt0 s" "rt_ok rt0" and pc: "cx_pcs s thrd = Some pc" "pc' \<noteq> Awaiting"
    "cx_status s thrd \<noteq> St_zero" "pc' = Invoking \<longrightarrow> cx_status s thrd = St_constructed"
  shows "cxx_inv rt0 (s\<lparr>cx_pcs := (cx_pcs s)(thrd \<mapsto> pc')\<rparr>)" (is "cxx_inv rt0 ?s")
  unfolding cxx_inv_def
proof
  have own: "own_threads rt0 s" and ok: "status_ok s" using inv(1) by (simp_all add: cxx_inv_def)
  show "own_threads rt0 ?s" by (rule own_rearranged[OF own inv(2)]) (use pc in simp_all)
  have "object_ok ?s ob" if "ob \<in> set (cx_objs ?s)" for ob
  proof -
    have "object_ok s ob" using that ok by (simp add: status_ok_def)
    then show ?thesis using pc(3) by (cases ob) auto
  qed
  then show "status_ok ?s" using ok pc by (auto simp: status_ok_def)
qed

text \<open>A thread that is past the wait has been told.\<close>

lemma status_told:
  assumes "cxx_inv rt0 s" "cx_pcs s thrd = Some pc" "pc \<noteq> Awaiting" "rt_ok rt0"
  shows "pc = Invoking \<Longrightarrow> cx_status s thrd = St_constructed"
  using assms by (auto simp: cxx_inv_def status_ok_def)

lemma step_end:
  assumes inv: "cxx_inv rt0 s" "rt_ok rt0" and pc: "cx_pcs s thrd = Some Leaving"
  shows "\<exists>s'. cxx_move (Cx_end thrd) s = Some (Returns s') \<and> cxx_inv rt0 s'"
proof -
  have own: "own_threads rt0 s" and ok: "status_ok s" using inv(1) by (simp_all add: cxx_inv_def)
  have nz: "thrd \<noteq> 0" using pc own by (auto simp: own_threads_def)
  obtain t where t: "rt_threads (cx_rt s) thrd = Some t" "clean t" "rt_threads rt0 thrd = None"
    using has_thread[OF own nz] pc by (metis option.distinct(1))
  have main: "thrd \<noteq> rt_main (cx_rt s)" "rt_oom (cx_rt s) \<noteq> Some thrd"
    using own inv(2) t(3) by (auto simp: own_threads_def rt_ok_def)
  obtain rt where rt: "MCF_thread_drop_ref_nonnull thrd (cx_rt s) = Some rt"
    "rt_main rt = rt_main (cx_rt s)" "rt_oom rt = rt_oom (cx_rt s)"
    "rt_threads rt = (rt_threads (cx_rt s))(thrd := if sint (th_nref t) = 1 then None else Some (t\<lparr>th_nref := th_nref t - 1\<rparr>))"
    using drop_ref[OF t(1,2) main] by blast
  let ?s = "s\<lparr>cx_rt := rt, cx_pcs := (cx_pcs s)(thrd := None)\<rparr>"
  have "own_threads rt0 ?s"
    by (rule own_dropped[OF own inv(2) nz t(1,2)]) (use pc t(3) rt own in \<open>auto simp: own_threads_def\<close>)
  moreover have "status_ok ?s"
  proof -
    have "object_ok ?s ob" if "ob \<in> set (cx_objs ?s)" for ob
    proof -
      have "object_ok s ob" using that ok by (simp add: status_ok_def)
      then show ?thesis using pc by (cases ob) auto
    qed
    then show ?thesis using ok by (auto simp: status_ok_def)
  qed
  ultimately show ?thesis using pc rt(1) by (auto simp: cxx_inv_def)
qed

section \<open>Reachable states\<close>

lemma step_keeps:
  assumes inv: "cxx_inv rt0 s" "rt_ok rt0" and mv: "cxx_move ev s = Some r"
  shows "case r of
      Returns s' \<Rightarrow> cxx_inv rt0 s'
    | Throws err s' \<Rightarrow> s' = s
    | Terminates \<Rightarrow> (\<exists>i thrd. object_at i s = Some thrd \<and> cxx_thread_joinable thrd \<and> (ev = Cx_dtor i \<or> (\<exists>j. ev = Cx_move_assign i j)))
    | Fails \<Rightarrow> (\<exists>i. object_at i s = Some 0 \<and> (ev = Cx_detach i \<or> (\<exists>tid. ev = Cx_join i tid)))"
proof (cases ev)
  case (Cx_create i f al n alloc create)
  from step_create[OF inv mv[unfolded Cx_create]] show ?thesis by auto
next
  case (Cx_complete i)
  with mv obtain thrd where "making_at i s = Some thrd" by (auto split: option.splits)
  with step_complete[OF inv this] mv Cx_complete show ?thesis by auto
next
  case (Cx_cancel i)
  with mv obtain thrd where "making_at i s = Some thrd" by (auto split: option.splits)
  with step_cancel[OF inv this] mv Cx_cancel show ?thesis by auto
next
  case (Cx_move_ctor i j)
  with mv obtain b where "object_at i s = Some 0" "object_at j s = Some b" "i \<noteq> j"
    "r = Returns (set_object j (Handle 0) (set_object i (Handle b) s))"
    by (auto simp: cxx_thread_move_ctor_def Let_def split: option.splits if_splits)
  with inv_two_objects[OF inv this(1,2,3)] show ?thesis by simp
next
  case (Cx_move_assign i j)
  with mv obtain a b where ab: "object_at i s = Some a" "object_at j s = Some b"
    "r = (if a \<noteq> 0 then Terminates else Returns (set_object i (Handle b) (set_object j (Handle 0) s)))"
    by (auto simp: cxx_thread_move_assign_def Let_def split: option.splits)
  show ?thesis
  proof (cases "a \<noteq> 0 \<or> i = j")
    case True
    have "set_object i (Handle 0) (set_object i (Handle 0) s) = s" if "object_at i s = Some 0"
      using that by (simp add: set_object_def object_at_iff) (metis cxx_sys.surjective cxx_sys.update_convs(1) list_update_id)
    then show ?thesis using True ab inv(1) Cx_move_assign by (auto simp: cxx_thread_joinable_def)
  next
    case False
    then have "set_object i (Handle b) (set_object j (Handle 0) s) = set_object j (Handle 0) (set_object i (Handle b) s)"
      by (simp add: set_object_def list_update_swap)
    with inv_two_objects[OF inv ab(1,2), of b 0] ab(3) False show ?thesis by simp
  qed
next
  case (Cx_swap i j)
  with mv obtain a b where ab: "object_at i s = Some a" "object_at j s = Some b"
    "r = Returns (set_object j (Handle a) (set_object i (Handle b) s))"
    by (auto simp: cxx_thread_swap_def split: option.splits)
  show ?thesis
  proof (cases "i = j")
    case True
    then have "set_object j (Handle a) (set_object i (Handle b) s) = s"
      using ab(1,2) by (simp add: set_object_def object_at_iff) (metis cxx_sys.surjective cxx_sys.update_convs(1) list_update_id)
    then show ?thesis using ab(3) inv(1) by simp
  next
    case False
    with inv_two_objects[OF inv ab(1,2), of b a] ab(3) show ?thesis by simp
  qed
next
  case (Cx_dtor i)
  with mv inv(1) show ?thesis by (auto simp: cxx_thread_dtor_def cxx_thread_joinable_def)
next
  case (Cx_join i tid)
  with mv obtain h where h: "object_at i s = Some h" by (auto split: option.splits)
  show ?thesis
  proof (cases "h = 0")
    case True
    then have "r = Fails" using mv h Cx_join by (simp add: cxx_thread_join_def after_call_def)
    then show ?thesis using True h Cx_join by auto
  next
    case False
    from step_join[OF inv h False, of tid] mv Cx_join show ?thesis by (auto split: cxx_end.splits)
  qed
next
  case (Cx_detach i)
  with mv obtain h where h: "object_at i s = Some h" by auto
  show ?thesis
  proof (cases "h = 0")
    case True
    then have "r = Fails" using mv h Cx_detach by (simp add: cxx_thread_detach_def after_call_def)
    then show ?thesis using True h Cx_detach by auto
  next
    case False
    from step_detach[OF inv h False] mv Cx_detach show ?thesis by auto
  qed
next
  case (Cx_wake thrd)
  with mv have pc: "cx_pcs s thrd = Some Awaiting" "cx_status s thrd \<noteq> St_zero" by (auto split: if_splits)
  with inv(1) have st: "cx_status s thrd = St_constructed \<or> cx_status s thrd = St_cancelled"
    by (auto simp: cxx_inv_def status_ok_def)
  then have "r = Returns (s\<lparr>cx_pcs := (cx_pcs s)(thrd \<mapsto> if cx_status s thrd = St_constructed then Invoking else Leaving)\<rparr>)"
    using mv Cx_wake pc by (auto simp: thread_fn_invokes_def St_constructed_def St_cancelled_def)
  then show ?thesis using step_pc[OF inv pc(1) _ pc(2)] st by auto
next
  case (Cx_leave thrd)
  with mv have pc: "cx_pcs s thrd = Some Invoking" "r = Returns (s\<lparr>cx_pcs := (cx_pcs s)(thrd \<mapsto> Leaving)\<rparr>)"
    by (auto split: if_splits)
  then have "cx_status s thrd = St_constructed" using inv(1) by (simp add: cxx_inv_def status_ok_def)
  then show ?thesis using step_pc[OF inv pc(1), of Leaving] pc(2) by (simp add: St_constructed_def St_zero_def)
next
  case (Cx_end thrd)
  with mv have "cx_pcs s thrd = Some Leaving" by (auto split: if_splits)
  from step_end[OF inv this] mv Cx_end show ?thesis by auto
qed

lemma cxx_start_inv: "rt_ok rt \<Longrightarrow> cxx_inv rt (cxx_begin k rt)"
  by (auto simp: cxx_inv_def own_threads_def own_thread_def status_ok_def cxx_begin_def owners_def references_def rt_ok_def
      count_list_0_iff split: option.splits)

lemma cxx_reach_inv: "cxx_reach (cxx_begin k rt) s \<Longrightarrow> rt_ok rt \<Longrightarrow> cxx_inv rt s"
  by (induction rule: cxx_reach.induct) (use step_keeps cxx_start_inv in \<open>force+\<close>)

lemma exists_iff:
  assumes "cxx_inv rt0 s" "thrd \<noteq> 0" "rt_threads rt0 thrd = None"
  shows "rt_threads (cx_rt s) thrd = None \<longleftrightarrow> owners s thrd = 0 \<and> cx_pcs s thrd = None"
proof -
  have own: "own_thread s thrd" using assms by (simp add: cxx_inv_def own_threads_def)
  have "0 \<le> owners s thrd" by (simp add: owners_def)
  show ?thesis
  proof
    assume "rt_threads (cx_rt s) thrd = None"
    then have "owners s thrd + of_bool (cx_pcs s thrd \<noteq> None) = 0" using own by (simp add: own_thread_def references_def)
    then show "owners s thrd = 0 \<and> cx_pcs s thrd = None"
      using \<open>0 \<le> owners s thrd\<close> by (auto simp: of_bool_def split: if_splits)
  next
    assume "owners s thrd = 0 \<and> cx_pcs s thrd = None"
    then show "rt_threads (cx_rt s) thrd = None"
      using own by (auto simp: own_thread_def references_def clean_def split: option.splits)
  qed
qed

text \<open>C21. Thread objects and their references, after any interleaving of constructions, moves, swaps, joins,
  detachments and the steps of the new threads, with constructors that may raise an exception: a
  control structure is owned by one object at most; it has one reference for that object and one for the
  thread until it ends, and exists exactly while it has one; a thread that invokes its function object
  was told that the object is constructed; no assertion fails but those of \<open>join\<close> and \<open>detach\<close> on
  an empty object; and the process terminates only by destroying or overwriting a joinable object.\<close>

theorem cxx_thread_ownership:
  assumes "cxx_reach (cxx_begin k rt) s" "rt_ok rt"
  shows "(\<forall>thrd. thrd \<noteq> 0 \<and> rt_threads rt thrd = None \<longrightarrow>
      owners s thrd \<le> 1 \<and> references s thrd = owners s thrd + of_bool (cx_pcs s thrd \<noteq> None) \<and>
      (rt_threads (cx_rt s) thrd = None \<longleftrightarrow> owners s thrd = 0 \<and> cx_pcs s thrd = None)) \<and>
    (\<forall>thrd. cx_pcs s thrd = Some Invoking \<longrightarrow> cx_status s thrd = St_constructed) \<and>
    (cxx_move ev s = Some Fails \<longrightarrow>
      (\<exists>i. object_at i s = Some 0 \<and> (ev = Cx_detach i \<or> (\<exists>tid. ev = Cx_join i tid)))) \<and>
    (cxx_move ev s = Some Terminates \<longrightarrow>
      (\<exists>i thrd. object_at i s = Some thrd \<and> cxx_thread_joinable thrd \<and> (ev = Cx_dtor i \<or> (\<exists>j. ev = Cx_move_assign i j))))"
proof (intro conjI allI impI)
  have inv: "cxx_inv rt s" by (rule cxx_reach_inv[OF assms])
  show "owners s thrd \<le> 1" "references s thrd = owners s thrd + of_bool (cx_pcs s thrd \<noteq> None)"
    "rt_threads (cx_rt s) thrd = None \<longleftrightarrow> owners s thrd = 0 \<and> cx_pcs s thrd = None"
    if "thrd \<noteq> 0 \<and> rt_threads rt thrd = None" for thrd
    using that inv exists_iff[OF inv] by (simp_all add: cxx_inv_def own_threads_def own_thread_def)
  show "cx_status s thrd = St_constructed" if "cx_pcs s thrd = Some Invoking" for thrd
    using that inv by (simp add: cxx_inv_def status_ok_def)
  show "\<exists>i. object_at i s = Some 0 \<and> (ev = Cx_detach i \<or> (\<exists>tid. ev = Cx_join i tid))" if "cxx_move ev s = Some Fails"
    using step_keeps[OF inv assms(2) that] by simp
  show "\<exists>i thrd. object_at i s = Some thrd \<and> cxx_thread_joinable thrd \<and> (ev = Cx_dtor i \<or> (\<exists>j. ev = Cx_move_assign i j))"
    if "cxx_move ev s = Some Terminates"
    using step_keeps[OF inv assms(2) that] by simp
qed

section \<open>Every thread can be joined\<close>

fun cxx_run :: "cxx_event list \<Rightarrow> cxx_sys \<Rightarrow> cxx_sys option" where
  "cxx_run [] s = Some s"
| "cxx_run (ev # evs) s = (case cxx_move ev s of Some (Returns s) \<Rightarrow> cxx_run evs s | _ \<Rightarrow> None)"

lemma run_reach: "cxx_run evs s = Some s' \<Longrightarrow> cxx_reach s0 s \<Longrightarrow> cxx_reach s0 s'"
  by (induction evs arbitrary: s) (auto split: option.splits cxx_end.splits intro: cxx_next)

lemma cxx_join_ended:
  assumes inv: "cxx_inv rt0 s" "rt_ok rt0" and i: "object_at i s = Some thrd" "thrd \<noteq> 0" "cx_pcs s thrd = None"
    and tid: "MCF_thread_get_tid thrd (cx_rt s) \<noteq> Some tid"
  shows "\<exists>s'. cxx_run [Cx_join i tid] s = Some s' \<and> object_at i s' = Some 0 \<and> rt_threads (cx_rt s') thrd = None"
proof -
  have i': "i < length (cx_objs s)" "cx_objs s ! i = Handle thrd" using i(1) by (simp_all add: object_at_iff)
  have own: "own_threads rt0 s" using inv(1) by (simp add: cxx_inv_def)
  obtain t where t: "rt_threads (cx_rt s) thrd = Some t" "rt_threads rt0 thrd = None" "owners s thrd \<le> 1"
    using has_thread[OF own i(2)] owner_pos[OF i'(1), of thrd] i'(2) by (metis held.simps(1))
  obtain rt where rt: "MCF_thread_drop_ref thrd (cx_rt s) = Some rt" "cxx_inv rt0 ((set_object i (Handle 0) s)\<lparr>cx_rt := rt\<rparr>)"
    using release_handle[OF inv i(1,2)] by blast
  let ?s = "(set_object i (Handle 0) s)\<lparr>cx_rt := rt\<rparr>"
  have "cxx_move (Cx_join i tid) s = Some (Returns ?s)"
    using i t(1) tid rt(1) by (auto simp: cxx_thread_join_def MCF_thread_get_tid_def after_call_def)
  moreover have "rt_threads rt thrd = None"
  proof -
    have "owners ?s thrd = 0"
      using i' i(2) t(3) owner_pos[OF i'(1), of thrd] by (simp add: owners_set_object)
    then show ?thesis using exists_iff[OF rt(2) i(2) t(2)] i(3) by simp
  qed
  moreover have "object_at i ?s = Some 0" using i' by (simp add: object_at_iff)
  ultimately show ?thesis by (intro exI[of _ ?s]) (simp del: cxx_move.simps)
qed

lemma end_then:
  assumes inv: "cxx_inv rt0 s" "rt_ok rt0" and i: "object_at i s = Some thrd" "cx_pcs s thrd = Some Leaving"
    and tid: "MCF_thread_get_tid thrd (cx_rt s) \<noteq> Some tid" "thrd \<noteq> 0"
  shows "\<exists>s'. cxx_run [Cx_end thrd, Cx_join i tid] s = Some s' \<and> object_at i s' = Some 0 \<and> rt_threads (cx_rt s') thrd = None"
proof -
  have own: "own_threads rt0 s" using inv(1) by (simp add: cxx_inv_def)
  obtain t where t: "rt_threads (cx_rt s) thrd = Some t" "clean t" "rt_threads rt0 thrd = None"
    using has_thread[OF own tid(2)] i(2) by (metis option.distinct(1))
  obtain s1 where s1: "cxx_move (Cx_end thrd) s = Some (Returns s1)" "cxx_inv rt0 s1" using step_end[OF inv i(2)] by blast
  then obtain rt where rt: "MCF_thread_drop_ref_nonnull thrd (cx_rt s) = Some rt" "s1 = s\<lparr>cx_rt := rt, cx_pcs := (cx_pcs s)(thrd := None)\<rparr>"
    using i(2) by (auto split: option.splits)
  have "thrd \<noteq> rt_main (cx_rt s)" "rt_oom (cx_rt s) \<noteq> Some thrd" using t(3) own inv(2) by (auto simp: own_threads_def rt_ok_def)
  then obtain rt' where "MCF_thread_drop_ref_nonnull thrd (cx_rt s) = Some rt'"
    "rt_threads rt' = (rt_threads (cx_rt s))(thrd := if sint (th_nref t) = 1 then None else Some (t\<lparr>th_nref := th_nref t - 1\<rparr>))"
    by (rule drop_ref[OF t(1,2)])
  then have "\<forall>t'. rt_threads rt thrd = Some t' \<longrightarrow> th_tid t' = th_tid t" using rt(1) by (simp split: if_splits)
  then have "MCF_thread_get_tid thrd rt \<noteq> Some tid" using tid(1) t(1) by (auto simp: MCF_thread_get_tid_def)
  moreover have "object_at i s1 = Some thrd" "cx_pcs s1 thrd = None" using i(1) rt(2) by simp_all
  ultimately obtain s' where "cxx_run [Cx_join i tid] s1 = Some s'" "object_at i s' = Some 0" "rt_threads (cx_rt s') thrd = None"
    using cxx_join_ended[OF s1(2) inv(2), of i thrd tid] tid(2) rt(2) by auto
  then show ?thesis using s1(1) by (auto simp del: cxx_move.simps)
qed

text \<open>C22. No thread is stuck and every thread can be joined: from any reachable state, for any joinable
  object whose constructor is complete, the thread can wake up, invoke its function object, return from
  it and end, without anything from other threads; then a join by another thread returns, empties
  the object and frees the control structure.\<close>

theorem cxx_thread_joins:
  assumes "cxx_reach (cxx_begin k rt) s" "rt_ok rt" "object_at i s = Some thrd" "cxx_thread_joinable thrd"
    and "MCF_thread_get_tid thrd (cx_rt s) \<noteq> Some tid"
  shows "\<exists>evs s'. set evs \<subseteq> {Cx_wake thrd, Cx_leave thrd, Cx_end thrd} \<and> length evs \<le> 3 \<and>
    cxx_run (evs @ [Cx_join i tid]) s = Some s' \<and> object_at i s' = Some 0 \<and> rt_threads (cx_rt s') thrd = None"
proof -
  have inv: "cxx_inv rt s" by (rule cxx_reach_inv[OF assms(1,2)])
  have nz: "thrd \<noteq> 0" using assms(4) by (simp add: cxx_thread_joinable_def)
  have st: "cx_status s thrd = St_constructed" by (rule handle_status[OF inv assms(3) nz])
  let ?at = "\<lambda>pc. s\<lparr>cx_pcs := (cx_pcs s)(thrd \<mapsto> pc)\<rparr>"
  have ended: "\<exists>s'. cxx_run [Cx_end thrd, Cx_join i tid] (?at Leaving) = Some s' \<and> object_at i s' = Some 0 \<and>
      rt_threads (cx_rt s') thrd = None" if "cx_pcs s thrd \<noteq> None"
  proof (rule end_then[OF _ assms(2)])
    show "cxx_inv rt (?at Leaving)" using that st step_pc[OF inv assms(2)] by (auto simp: St_constructed_def St_zero_def)
  qed (use assms(3,5) nz in simp_all)
  have leave: "cxx_move (Cx_leave thrd) (?at Invoking) = Some (Returns (?at Leaving))" by simp
  have wake: "cxx_move (Cx_wake thrd) s = Some (Returns (?at Invoking))" if "cx_pcs s thrd = Some Awaiting"
    using that st by (simp add: thread_fn_invokes_def St_constructed_def St_zero_def St_cancelled_def)
  show ?thesis
  proof (cases "cx_pcs s thrd")
    case None
    from cxx_join_ended[OF inv assms(2,3) nz None assms(5)] show ?thesis by (intro exI[of _ "[]"]) simp
  next
    case (Some pc)
    then obtain s' where s': "cxx_run [Cx_end thrd, Cx_join i tid] (?at Leaving) = Some s'" "object_at i s' = Some 0"
      "rt_threads (cx_rt s') thrd = None" using ended by auto
    have same: "?at pc = s" using Some by (simp add: fun_upd_idem)
    show ?thesis
    proof (cases pc)
      case Leaving
      then show ?thesis using s' same by (intro exI[of _ "[Cx_end thrd]"] exI[of _ s']) (simp del: cxx_move.simps)
    next
      case Invoking
      then show ?thesis using s' same leave
        by (intro exI[of _ "[Cx_leave thrd, Cx_end thrd]"] exI[of _ s']) (simp del: cxx_move.simps)
    next
      case Awaiting
      then show ?thesis using s' leave wake Some
        by (intro exI[of _ "[Cx_wake thrd, Cx_leave thrd, Cx_end thrd]"] exI[of _ s']) (simp del: cxx_move.simps)
    qed
  qed
qed

definition cxx_sample_rt :: "memory runtime" where
  "cxx_sample_rt = \<lparr>rt_threads = [0x500 \<mapsto> thread_zero\<lparr>th_nref := 1, th_tid := 3\<rparr>], rt_main = 0x500, rt_oom = None,
     rt_oom_mtx = MCF_mutex_init, rt_slot = 0, rt_keys = (\<lambda>_. None), rt_world = (\<lambda>_. 0)\<rparr>"

text \<open>A constructor that is complete, one that raises an exception, and a move.\<close>

definition cxx_sample_events :: "cxx_event list" where
  "cxx_sample_events =
     [Cx_create 0 0x2000 16 8 (\<lambda>_. Some 0x1000) (Inr (8, 4)), Cx_complete 0,
      Cx_create 1 0x2000 16 8 (\<lambda>_. Some 0x3000) (Inr (12, 5)), Cx_cancel 1, Cx_wake 0x3000, Cx_swap 0 1]"

lemma cxx_sample_run:
  obtains s where "cxx_run cxx_sample_events (cxx_begin 2 cxx_sample_rt) = Some s" "rt_ok cxx_sample_rt"
    "object_at 1 s = Some 0x1000" "object_at 0 s = Some 0" "MCF_thread_get_tid 0x1000 (cx_rt s) = Some 4" "cx_pcs s 0x3000 = Some Leaving"
proof -
  have two: "replicate 2 x = [x, x]" for x :: cxx_obj by (simp add: numeral_2_eq_2)
  have "case cxx_run cxx_sample_events (cxx_begin 2 cxx_sample_rt) of None \<Rightarrow> False | Some s \<Rightarrow>
      object_at 1 s = Some 0x1000 \<and> object_at 0 s = Some 0 \<and> MCF_thread_get_tid 0x1000 (cx_rt s) = Some 4 \<and> cx_pcs s 0x3000 = Some Leaving"
    by (simp add: cxx_sample_events_def cxx_begin_def cxx_sample_rt_def object_at_def making_at_def set_object_def cxx_thread_ctor_def
        MCF_thread_p_new_def thread_data_place_def MCF_maxz_def MCF_THREAD_DATA_ALIGNMENT_def Let_def sizeof_thread_base_def MCF_THREAD_MAX_DATA_ALIGNMENT_def complete_thread_def cancel_thread_def
        MCF_thread_drop_ref_def MCF_thread_drop_ref_nonnull_def word_sless_alt thread_fn_invokes_def St_zero_def St_constructed_def
        St_cancelled_def cxx_thread_swap_def MCF_thread_get_tid_def two)
  moreover have "rt_ok cxx_sample_rt" by (simp add: rt_ok_def cxx_sample_rt_def)
  ultimately show thesis using that by (auto split: option.splits)
qed

lemma cxx_thread_ownership_witness:
  "\<exists>s. cxx_reach (cxx_begin 2 cxx_sample_rt) s \<and> rt_ok cxx_sample_rt \<and> object_at 1 s = Some 0x1000 \<and>
    cx_pcs s 0x3000 = Some Leaving \<and> owners s 0x3000 \<le> 1 \<and> references s 0x3000 = owners s 0x3000 + 1"
proof -
  obtain s where s: "cxx_run cxx_sample_events (cxx_begin 2 cxx_sample_rt) = Some s" "rt_ok cxx_sample_rt"
    "object_at 1 s = Some 0x1000" "cx_pcs s 0x3000 = Some Leaving" by (rule cxx_sample_run) blast
  have reach: "cxx_reach (cxx_begin 2 cxx_sample_rt) s" by (rule run_reach[OF s(1) cxx_start])
  have "rt_threads cxx_sample_rt 0x3000 = None" by (simp add: cxx_sample_rt_def)
  then have "owners s 0x3000 \<le> 1 \<and> references s 0x3000 = owners s 0x3000 + 1"
    using cxx_thread_ownership[OF reach s(2), of "Cx_dtor 0"] s(4) by simp
  then show ?thesis using s reach by blast
qed

lemma cxx_thread_joins_witness:
  "\<exists>s evs s'. cxx_reach (cxx_begin 2 cxx_sample_rt) s \<and> object_at 1 s = Some 0x1000 \<and>
    cxx_run (evs @ [Cx_join 1 3]) s = Some s' \<and> object_at 1 s' = Some 0"
proof -
  obtain s where s: "cxx_run cxx_sample_events (cxx_begin 2 cxx_sample_rt) = Some s" "rt_ok cxx_sample_rt"
    "object_at 1 s = Some 0x1000" "MCF_thread_get_tid 0x1000 (cx_rt s) = Some 4" by (rule cxx_sample_run) blast
  have reach: "cxx_reach (cxx_begin 2 cxx_sample_rt) s" by (rule run_reach[OF s(1) cxx_start])
  have "cxx_thread_joinable 0x1000" "MCF_thread_get_tid 0x1000 (cx_rt s) \<noteq> Some 3" using s(4) by (simp_all add: cxx_thread_joinable_def)
  then show ?thesis using cxx_thread_joins[OF reach s(2,3)] s(3) reach by blast
qed

end
