(* ===== verification/Cxx_Api.thy ===== *)
theory Cxx_Api
  imports Cxx_Thread Cxx_Locks Gthr_Once Thread_Exit
begin

text \<open>
  The rest of \<open>cxx11.hpp\<close>: \<open>call_once\<close>, \<open>notify_all_at_thread_exit\<close>, the class
  \<open>thread_specific_ptr\<close> and the sleeping functions of \<open>this_thread\<close>.

  Shown: \<open>call_once\<close> and the C function with an exception handler are the same; a
  \<open>thread_specific_ptr\<close> destroys each value that is replaced, and not one that is released; the
  callbacks of \<open>notify_all_at_thread_exit\<close> run in the right order, and are registered both or not at all.
\<close>

definition not_enough_memory :: int where "not_enough_memory = 12"

section \<open>One-time initialisation\<close>

text \<open>An exception of the callable leaves through the sentry, whose deleter is \<open>_MCF_once_abort\<close> until the
  callable has returned.\<close>

definition cxx_call_once :: "('u \<Rightarrow> init_end \<times> 'u) \<Rightarrow> once_mem schedule \<Rightarrow> 'u \<Rightarrow> once_mem \<Rightarrow>
    (once_end \<times> 'u \<times> once_mem \<times> once_mem schedule) option" where
  "cxx_call_once callable sch u m =
     (case run_wait MCF_once_wait_slow sch m (WFast None) of
        None \<Rightarrow> None
      | Some (err, m, sch) \<Rightarrow>
          if err = 0 then Some (Was_ready, u, m, sch)
          else if err \<noteq> 1 then None
          else
            (case callable u of
               (Init_returns, u) \<Rightarrow> map_option (\<lambda>(_, m, sch). (Ran, u, m, sch)) (run_signal MCF_once_release sch m SFast)
             | (Init_raises _, u) \<Rightarrow> map_option (\<lambda>(_, m, sch). (Raised, u, m, sch)) (run_signal MCF_once_abort sch m SFast)))"

text \<open>An exception unwinds the stack once.\<close>

definition unwinds_once :: "u32 list \<Rightarrow> bool" where
  "unwinds_once passes \<longleftrightarrow> length (filter (\<lambda>flags. flags AND EXCEPTION_UNWINDING \<noteq> 0) passes) = 1"

lemma passes_search: "\<forall>flags \<in> set passes. flags AND EXCEPTION_UNWINDING = 0 \<Longrightarrow> unwind_passes passes sch m = Some (m, sch)"
  by (induction passes) (simp_all add: do_call_once_seh_unwind_def)

lemma passes_once:
  "unwinds_once passes \<Longrightarrow> unwind_passes passes sch m = map_option (\<lambda>(_, m, sch). (m, sch)) (run_signal MCF_once_abort sch m SFast)"
proof (induction passes)
  case (Cons flags passes)
  show ?case
  proof (cases "flags AND EXCEPTION_UNWINDING = 0")
    case True
    with Cons show ?thesis by (simp add: unwinds_once_def do_call_once_seh_unwind_def)
  next
    case False
    then have "\<forall>flags \<in> set passes. flags AND EXCEPTION_UNWINDING = 0"
      using Cons.prems by (auto simp: unwinds_once_def filter_empty_conv)
    with False show ?thesis
      by (cases "run_signal MCF_once_abort sch m SFast") (auto simp: do_call_once_seh_unwind_def passes_search)
  qed
qed (simp add: unwinds_once_def)

text \<open>C25. \<open>call_once\<close> of C++ and the C function that uses structured exceptions do the same, for a
  callable whose exceptions unwind the stack once: the flag, the state of the callable and
  the way the call ends are the same for every behaviour of other threads.\<close>

theorem cxx_call_once_same:
  assumes "\<forall>u passes. fst (callable u) = Init_raises passes \<longrightarrow> unwinds_once passes"
  shows "cxx_call_once callable sch u m = MCF_gthr_call_once_seh callable sch u m"
proof -
  have "unwind_passes passes sch m = map_option (\<lambda>(_, m, sch). (m, sch)) (run_signal MCF_once_abort sch m SFast)"
    if "callable u = (Init_raises passes, u')" for passes u' sch m
    using assms that by (intro passes_once) (metis fst_conv)
  then show ?thesis
    by (cases "callable u")
      (auto simp: cxx_call_once_def MCF_gthr_call_once_seh_def MCF_gthr_call_once_seh_take_over_def option.map_comp
        comp_def split: option.splits init_end.splits intro!: option.map_cong)
qed

lemma cxx_call_once_same_witness:
  "cxx_call_once (\<lambda>u. (Init_raises [0, 2], Suc u)) (alone [Step, Step, Clock 0, Step, Step]) 4 (MCF_once_init, ()) =
    MCF_gthr_call_once_seh (\<lambda>u. (Init_raises [0, 2], Suc u)) (alone [Step, Step, Clock 0, Step, Step]) 4 (MCF_once_init, ())"
  by (rule cxx_call_once_same) (simp add: unwinds_once_def EXCEPTION_UNWINDING_def)

section \<open>Sleeping\<close>

definition cxx_sleep_noninterruptible :: "(i64 \<Rightarrow> i32) \<Rightarrow> u64 \<Rightarrow> i64 \<Rightarrow> int option" where
  "cxx_sleep_noninterruptible NtDelayExecution now timeout =
     map_option (\<lambda>_. 0) (MCF_sleep_noninterruptible NtDelayExecution (Some timeout) now)"

definition cxx_sleep_for :: "(i64 \<Rightarrow> i32) \<Rightarrow> u64 \<Rightarrow> i64 \<Rightarrow> int option" where
  "cxx_sleep_for NtDelayExecution now rel_time = cxx_wait_for rel_time (cxx_sleep_noninterruptible NtDelayExecution now)"

definition cxx_sleep_until :: "(i64 \<Rightarrow> i32) \<Rightarrow> u64 \<Rightarrow> i64 \<Rightarrow> int option" where
  "cxx_sleep_until NtDelayExecution now abs_time = cxx_wait_until abs_time (cxx_sleep_noninterruptible NtDelayExecution now)"

definition cxx_sleep_until_clock :: "(i64 \<Rightarrow> i32) \<Rightarrow> u64 \<Rightarrow> i64 list \<Rightarrow> i64 \<Rightarrow> unit \<Rightarrow> (int \<times> i64 list \<times> unit) option" where
  "cxx_sleep_until_clock NtDelayExecution now readings abs_time =
     cxx_wait_until_clock readings abs_time
       (\<lambda>timeout s. map_option (\<lambda>err. (err, s)) (cxx_sleep_noninterruptible NtDelayExecution now timeout))"

text \<open>By another clock there is one sleep, however the clock goes meanwhile.\<close>

lemma sleep_until_clock_once:
  assumes "\<forall>t. 0 \<le>s NtDelayExecution t"
  shows "cxx_sleep_until_clock NtDelayExecution now (reading # readings) abs_time () = Some (0, readings, ())"
  using assms by (simp add: cxx_sleep_until_clock_def cxx_sleep_noninterruptible_def MCF_sleep_noninterruptible_def Let_def)

section \<open>At the end of a thread\<close>

text \<open>\<open>memory\<close> tells whether there is memory for the first push, \<open>memory_then\<close> for the second one. The lock
  is an argument by value: an exception leaves it to its destructor.\<close>

definition cxx_notify_all_at_thread_exit :: "uptr \<Rightarrow> uptr \<Rightarrow> uptr \<Rightarrow> bool \<Rightarrow> bool \<Rightarrow> uptr \<Rightarrow> unique_lock \<Rightarrow> dtor_queue \<Rightarrow>
    (dtor_queue \<times> unique_lock) cxx_end" where
  "cxx_notify_all_at_thread_exit dso_handle cond_signal_all mutex_unlock memory memory_then cnd lock queue =
     (if \<not> ul_owns lock \<or> ul_mutex lock = 0 then Fails
      else
        (let elem = \<lparr>dtor_fn = cond_signal_all, dtor_this = cnd, dtor_dso = dso_handle\<rparr>;
             (err, queue) = MCF_dtor_queue_reserve_and_push memory queue 2 (Some elem)
         in if err \<noteq> 0 then Throws not_enough_memory (queue, lock)
            else
              (let elem = elem\<lparr>dtor_fn := mutex_unlock, dtor_this := ul_mutex lock\<rparr>;
                   (_, queue) = MCF_dtor_queue_push memory_then queue (Some elem)
               in Returns (queue, \<lparr>ul_mutex = 0, ul_owns = False\<rparr>))))"

lemma two_pushes:
  assumes "dq_ok q" "MCF_dtor_queue_reserve_and_push memory q 2 (Some e) = (0, q1)" "dtor_fn e' \<noteq> 0"
  shows "case MCF_dtor_queue_push memory_then q1 (Some e') of (err, q2) \<Rightarrow>
    err = 0 \<and> dq_ok q2 \<and> callbacks q2 = callbacks q @ [e, e']"
proof -
  have 1: "dq_ok q1" "callbacks q1 = callbacks q @ [e]" "unat (dq_size q1) + 2 \<le> 64"
    using push_cases[OF assms(1), of "Some e" 2 memory] assms(2) by (auto split: if_splits)
  from push_cases[OF 1(1), of "Some e'" 1 memory_then] 1(2,3) assms(3) show ?thesis
    by (auto simp: MCF_dtor_queue_push_def split: if_splits prod.splits)
qed



section \<open>Thread-specific pointers\<close>

text \<open>The object is the address of its key; \<open>cleanup\<close> is the destructor of the values, or 0.\<close>

definition cxx_thread_specific_ptr_ctor :: "uptr option \<Rightarrow> uptr \<Rightarrow> key_heap \<Rightarrow> (uptr \<times> key_heap) cxx_end" where
  "cxx_thread_specific_ptr_ctor place cleanup h =
     (let (key, h) = MCF_tls_key_new place cleanup h
      in if key = 0 then Throws resource_unavailable_try_again (key, h) else Returns (key, h))"

definition cxx_thread_specific_ptr_dtor :: "uptr \<Rightarrow> key_heap \<Rightarrow> key_heap option" where
  "cxx_thread_specific_ptr_dtor key h = MCF_tls_key_delete key h"

definition cxx_thread_specific_ptr_get :: "uptr \<Rightarrow> uptr \<Rightarrow> 'w runtime \<Rightarrow> uptr option" where
  "cxx_thread_specific_ptr_get self key s = MCF_tls_get self key s"

definition cxx_thread_specific_ptr_bool :: "uptr \<Rightarrow> uptr \<Rightarrow> 'w runtime \<Rightarrow> bool option" where
  "cxx_thread_specific_ptr_bool self key s = map_option (\<lambda>ptr. ptr \<noteq> 0) (MCF_tls_get self key s)"

definition cxx_thread_specific_ptr_deref :: "uptr \<Rightarrow> uptr \<Rightarrow> 'w runtime \<Rightarrow> uptr option" where
  "cxx_thread_specific_ptr_deref self key s = Option.bind (MCF_tls_get self key s) (\<lambda>ptr. if ptr \<noteq> 0 then Some ptr else None)"

definition cxx_thread_specific_ptr_reset :: "(nat \<Rightarrow> nat option) \<Rightarrow> 'w dtor_call \<Rightarrow> uptr \<Rightarrow> uptr \<Rightarrow> uptr \<Rightarrow> 'w runtime \<Rightarrow>
    'w runtime cxx_end" where
  "cxx_thread_specific_ptr_reset alloc call self key ptr s =
     (case MCF_tls_xset alloc self key ptr s of
        None \<Rightarrow> Fails
      | Some (err, ptr_old, s) \<Rightarrow>
          if err < 0 then Throws not_enough_memory s
          else if ptr_old \<noteq> 0 then
            (case MCF_tls_key_get_destructor key (rt_keys s) of
               None \<Rightarrow> Fails
             | Some my_cleanup \<Rightarrow> Returns (if my_cleanup \<noteq> 0 then call my_cleanup ptr_old s else s))
          else Returns s)"

definition cxx_thread_specific_ptr_release :: "(nat \<Rightarrow> nat option) \<Rightarrow> uptr \<Rightarrow> uptr \<Rightarrow> 'w runtime \<Rightarrow> (uptr \<times> 'w runtime) option" where
  "cxx_thread_specific_ptr_release alloc self key s =
     (case MCF_tls_xset alloc self key 0 s of None \<Rightarrow> None | Some (err, ptr_old, s) \<Rightarrow> Some (ptr_old, s))"

lemma store_keeps_dtor:
  "tls_store t k v h = Some (err, old, t', h') \<Longrightarrow> map_option key_dtor (h' x) = map_option key_dtor (h x)"
  by (auto simp: tls_store_def bind_eq_Some_conv Let_def split: if_splits)

lemma xset_keeps_dtor:
  assumes ok: "tls_ok t" "tls_alive (tls_keys (tt_elems t)) h"
    and alloc: "\<forall>c n. alloc c = Some n \<longrightarrow> c \<le> n \<and> n \<le> 2 ^ 32"
    and key: "key_is_deleted h k = Some False"
    and run: "MCF_tls_table_xset alloc t k v h = Some (err, old, t', h')"
  shows "map_option key_dtor (h' k) = map_option key_dtor (h k)"
proof (rule grow_result[OF ok alloc], goal_cases)
  case (1 t1)
  have "drop_refs (dead_keys h (tt_elems t)) h k = h k" using key by (simp add: drop_refs_def dead_keys_def)
  then show ?case
    using run 1(1) key store_keeps_dtor[of t k v h err old t' h' k]
      store_keeps_dtor[of t1 k v "drop_refs (dead_keys h (tt_elems t)) h" err old t' h' k]
    by (auto simp: MCF_tls_table_xset_def split: if_splits)
next
  case 2
  then show ?case
    using run key store_keeps_dtor[of t k v h err old t' h' k] by (auto simp: MCF_tls_table_xset_def split: if_splits)
qed

text \<open>The result of \<open>_MCF_tls_xset\<close> for a live key.\<close>

lemma xset_self:
  assumes s: "rt_threads s self = Some t" "tls_ok (th_tls_table t)" "tls_alive (tls_keys (tt_elems (th_tls_table t))) (rt_keys s)"
    and key: "k \<noteq> 0" "rt_keys s k = Some r" "0 <s key_nref r" "key_nref r <s 0x7FFFFFFF" "\<not> key_deleted r"
    and alloc: "\<forall>c n. alloc c = Some n \<longrightarrow> c \<le> n \<and> n \<le> 2 ^ 32"
  obtains s' where "MCF_tls_xset alloc self k v s = Some (0, tls_lookup (th_tls_table t) k, s')"
      "MCF_tls_get self k s' = Some v" "MCF_tls_key_get_destructor k (rt_keys s') = Some (key_dtor r)" "rt_world s' = rt_world s"
  | "MCF_tls_xset alloc self k v s = Some (- 2, 0, s)" "v \<noteq> 0"
proof -
  have del: "key_is_deleted (rt_keys s) k = Some False" using key(2,5) by (simp add: key_is_deleted_def)
  from xset_live[OF s(2,3) key alloc, of v] consider
    (kept) "set_result (th_tls_table t) k v (rt_keys s) (MCF_tls_table_xset alloc (th_tls_table t) k v (rt_keys s))"
    | (none) "v \<noteq> 0" "MCF_tls_table_xset alloc (th_tls_table t) k v (rt_keys s) = Some (- 2, 0, th_tls_table t, rt_keys s)" by blast
  then show ?thesis
  proof cases
    case kept
    then obtain tb h' where x: "MCF_tls_table_xset alloc (th_tls_table t) k v (rt_keys s) = Some (0, tls_lookup (th_tls_table t) k, tb, h')"
      "tls_ok tb" "tls_lookup tb k = v" "key_is_deleted h' k = Some False" unfolding set_result_def by blast
    let ?s = "s\<lparr>rt_threads := (rt_threads s)(self \<mapsto> t\<lparr>th_tls_table := tb\<rparr>), rt_keys := h'\<rparr>"
    show ?thesis
    proof (rule that(1))
      show "MCF_tls_xset alloc self k v s = Some (0, tls_lookup (th_tls_table t) k, ?s)"
        using s(1) x(1) by (simp add: MCF_tls_xset_def)
      show "MCF_tls_get self k ?s = Some v" using get_lookup[OF x(2) key(1) x(4)] x(3) by (simp add: MCF_tls_get_def)
      show "MCF_tls_key_get_destructor k (rt_keys ?s) = Some (key_dtor r)"
        using xset_keeps_dtor[OF s(2,3) alloc del x(1)] key(2) by (simp add: MCF_tls_key_get_destructor_def)
    qed simp
  next
    case none
    have "s\<lparr>rt_threads := (rt_threads s)(self \<mapsto> t\<lparr>th_tls_table := th_tls_table t\<rparr>)\<rparr> = s"
      using s(1) by (simp add: map_upd_triv)
    with none s(1) show ?thesis by (intro that(2)) (simp_all add: MCF_tls_xset_def)
  qed
qed

text \<open>C24. A \<open>thread_specific_ptr\<close>, with a cleanup that registers and sets nothing: \<open>reset\<close> stores the new
  pointer and then calls the cleanup once on the pointer that it replaces, if both are there; it raises an
  exception only for a pointer that is not null and a table that cannot grow, and has no effect then.
  \<open>release\<close> never fails, gives the pointer back, leaves null in its place and calls no cleanup.\<close>

theorem cxx_specific_ptr:
  assumes s: "rt_threads s self = Some t" "tls_ok (th_tls_table t)" "tls_alive (tls_keys (tt_elems (th_tls_table t))) (rt_keys s)"
    and key: "k \<noteq> 0" "rt_keys s k = Some r" "0 <s key_nref r" "key_nref r <s 0x7FFFFFFF" "\<not> key_deleted r"
    and alloc: "\<forall>c n. alloc c = Some n \<longrightarrow> c \<le> n \<and> n \<le> 2 ^ 32"
  shows "\<exists>old. cxx_thread_specific_ptr_get self k s = Some old \<and>
    (case cxx_thread_specific_ptr_reset alloc (quiet_call act) self k ptr s of
       Returns s' \<Rightarrow> cxx_thread_specific_ptr_get self k s' = Some ptr \<and>
         rt_world s' = (if old \<noteq> 0 \<and> key_dtor r \<noteq> 0 then act (key_dtor r) old (rt_world s) else rt_world s)
     | Throws err s' \<Rightarrow> err = not_enough_memory \<and> ptr \<noteq> 0 \<and> s' = s
     | _ \<Rightarrow> False) \<and>
    (\<exists>s'. cxx_thread_specific_ptr_release alloc self k s = Some (old, s') \<and>
       cxx_thread_specific_ptr_get self k s' = Some 0 \<and> rt_world s' = rt_world s)"
proof (rule exI, intro conjI)
  let ?old = "tls_lookup (th_tls_table t) k"
  have "key_is_deleted (rt_keys s) k = Some False" using key(2,5) by (simp add: key_is_deleted_def)
  then show "cxx_thread_specific_ptr_get self k s = Some ?old"
    using get_lookup[OF s(2) key(1)] s(1) by (simp add: cxx_thread_specific_ptr_get_def MCF_tls_get_def)
  show "case cxx_thread_specific_ptr_reset alloc (quiet_call act) self k ptr s of
       Returns s' \<Rightarrow> cxx_thread_specific_ptr_get self k s' = Some ptr \<and>
         rt_world s' = (if ?old \<noteq> 0 \<and> key_dtor r \<noteq> 0 then act (key_dtor r) ?old (rt_world s) else rt_world s)
     | Throws err s' \<Rightarrow> err = not_enough_memory \<and> ptr \<noteq> 0 \<and> s' = s
     | _ \<Rightarrow> False"
    by (rule xset_self[OF s key alloc, of ptr])
      (auto simp: cxx_thread_specific_ptr_reset_def cxx_thread_specific_ptr_get_def quiet_call_def MCF_tls_get_def)
  show "\<exists>s'. cxx_thread_specific_ptr_release alloc self k s = Some (?old, s') \<and>
       cxx_thread_specific_ptr_get self k s' = Some 0 \<and> rt_world s' = rt_world s"
    by (rule xset_self[OF s key alloc, of 0])
      (auto simp: cxx_thread_specific_ptr_release_def cxx_thread_specific_ptr_get_def)
qed

definition one_pointer :: "uptr list runtime" where
  "one_pointer = \<lparr>rt_threads = [8 \<mapsto> thread_zero\<lparr>th_tls_table := one_value\<rparr>], rt_main = 8, rt_oom = None,
     rt_oom_mtx = MCF_mutex_init, rt_slot = 8, rt_keys = [64 \<mapsto> \<lparr>key_nref = 2, key_deleted = False, key_dtor = 9\<rparr>], rt_world = []\<rparr>"

lemma cxx_specific_ptr_witness:
  "cxx_thread_specific_ptr_get 8 64 one_pointer = Some 5 \<and>
    (case cxx_thread_specific_ptr_reset heap_alloc (quiet_call (\<lambda>f x w. w @ [f, x])) 8 64 6 one_pointer of
       Returns s' \<Rightarrow> cxx_thread_specific_ptr_get 8 64 s' = Some 6 \<and> rt_world s' = [9, 5]
     | Throws err s' \<Rightarrow> err = not_enough_memory \<and> s' = one_pointer
     | _ \<Rightarrow> False) \<and>
    (\<exists>s'. cxx_thread_specific_ptr_release heap_alloc 8 64 one_pointer = Some (5, s') \<and> rt_world s' = [])"
proof -
  let ?t = "thread_zero\<lparr>th_tls_table := one_value\<rparr>" and ?r = "\<lparr>key_nref = 2, key_deleted = False, key_dtor = 9\<rparr>"
  have 1: "rt_threads one_pointer 8 = Some ?t" "rt_keys one_pointer 64 = Some ?r" by (simp_all add: one_pointer_def)
  have 2: "tls_ok (th_tls_table ?t)" "tls_alive (tls_keys (tt_elems (th_tls_table ?t))) (rt_keys one_pointer)"
    using one_value_ok by (auto simp: tls_alive_def one_pointer_def one_key_def word_sless_alt split: if_splits)
  have 3: "(64::uptr) \<noteq> 0" "0 <s key_nref ?r" "key_nref ?r <s 0x7FFFFFFF" "\<not> key_deleted ?r"
    "\<forall>c n. heap_alloc c = Some n \<longrightarrow> c \<le> n \<and> n \<le> 2 ^ 32" by (simp_all add: word_sless_alt heap_alloc_def)
  have "tls_lookup one_value 64 = 5"
    by (simp add: tls_lookup_def slot_def one_value_def probe_order_def tls_origin_def empty_element_def)
  moreover have "key_is_deleted (rt_keys one_pointer) 64 = Some False" by (simp add: key_is_deleted_def one_pointer_def)
  ultimately have five: "cxx_thread_specific_ptr_get 8 64 one_pointer = Some 5"
    using get_lookup[OF 2(1) 3(1)] 1(1) by (simp add: cxx_thread_specific_ptr_get_def MCF_tls_get_def)
  show ?thesis
    using cxx_specific_ptr[OF 1(1) 2 3(1) 1(2) 3(2-5), of 6 "\<lambda>f x w. w @ [f, x]"] five
    by (auto simp: one_pointer_def split: cxx_end.splits)
qed

end
