(* ===== verification/Spec2Isabelle.thy ===== *)
theory Spec2Isabelle
  imports Mcf_Mutex Mcf_Once Mcf_Shared_Mutex Mcf_Sem Mcf_Event Mcf_Cond
    Mcf_Clock Mcf_Memory Dtor_Queue Mcf_Cxa Mcf_Tls Cpu_Collection Mcf_Thread
    Thread_Layout Thread_Exit Thread_Affinity Thread_Sleep Gthr_Rc_Mutex Gthr_Locks
    Gthr_Once Gthr_Thread Gthr_Api Mcf_Globals Mcf_Failure Cxx_Locks Cxx_Thread Cxx_Api
begin

text \<open>
  \<^bold>\<open>mcfgthread: threads, locks and thread-local data for GCC on Windows\<close>

  The library implements the thread support that the C and C++ runtimes of GCC and LLVM need, on
  the system calls of Windows NT. Its sources are below \<open>src/mcfgthread\<close>: one header and one
  C file for each component, inline fast paths in the headers, slow paths in \<open>src/mcfgthread/src\<close>.
  This development models them as they behave on a 64-bit system.

  \<^bold>\<open>How the parts interact.\<close> Every object on which a thread may block is one pointer-sized word,
  changed by compare-and-swap loops, with a number of sleepers in it. A thread that has to wait
  registers in the word and calls \<open>NtWaitForKeyedEvent\<close>; a thread that changes the word takes
  sleepers off it and releases as many with \<open>__MCF_batch_release_common\<close>. On top of
  these objects are the lists of exit callbacks (\<open>dtor_queue.h\<close>, \<open>cxa.h\<close>, \<open>exit.h\<close>), thread-local
  values (\<open>tls.h\<close>), threads (\<open>thread.h\<close>) with their CPU affinity (\<open>cpu_collection.h\<close>), and the
  interfaces of the clients: \<open>gthr.h\<close> (libgcc and libstdc++), \<open>c11.h\<close>, \<open>libcxx.h\<close>,
  \<open>gthr_libobjc.h\<close> and \<open>cxx11.hpp\<close>, which share \<open>gthr_aux.h\<close>. Global data are in a section of
  memory that all copies of the library in one process share (\<open>xglobals.h\<close>).

  \<^bold>\<open>The theories, in the order of imports.\<close>

  \<^item> \<open>Mcf_Prelude\<close>: machine types, the \<open>size_t\<close> helpers of \<open>fwd.h\<close>, facts on words, lists and sums.
  \<^item> \<open>Winnt_Timeout\<close>: \<open>__MCF_initialize_winnt_timeout_v3\<close>, \<open>__MCF_adjust_winnt_timeout_v3\<close> and
    \<open>__MCF_check_wait_safety\<close> of \<open>xglobals.c\<close>; no overflow, and adjusted timeouts do not stretch.
  \<^item> \<open>Keyed_Event\<close>: the programs of a waiting and of a signalling thread, one atomic access at a
    time (\<open>wait_step\<close>, \<open>signal_step\<close>), which \<open>once.c\<close>, \<open>mutex.c\<close>, \<open>shared_mutex.c\<close>, \<open>sem.c\<close>,
    \<open>event.c\<close> and \<open>cond.c\<close> instantiate with what differs between them; systems of any number of
    such threads; schedules, on which one call runs between arbitrary actions of the others
    (\<open>run_wait\<close>, \<open>run_signal\<close>).
  \<^item> \<open>Keyed_Event_Laws\<close>: the locales \<open>books\<close> (quantities that the word and the threads share) and
    \<open>baton\<close> (an unlocked object with sleepers has somebody awake for it), with the invariants that
    follow; every object interprets one of them on its own operations.
  \<^item> \<open>Mcf_Mutex\<close>, \<open>Mcf_Once\<close>, \<open>Mcf_Shared_Mutex\<close>, \<open>Mcf_Sem\<close>, \<open>Mcf_Event\<close>, \<open>Mcf_Cond\<close>: the objects.
    Each has its word as a record of bit-fields, the raw-word fast paths, the branches of its
    loops, the interpretation, and its theorems: exclusion, conservation of units and of
    wake-ups, no sleeper left behind, no failed assertion, results of the calls, and
    agreement of fast and slow paths.
  \<^item> \<open>Mcf_Clock\<close>: the division by 10000 of \<open>clock.c\<close> and its exact rounding.
  \<^item> \<open>Mcf_Memory\<close>: the byte operations behind \<open>memcpy\<close>, \<open>memmove\<close>, \<open>memset\<close> and \<open>memcmp\<close>.
  \<^item> \<open>Mcf_Globals\<close>: the name and the layout of the global data and how copies of the library find them.
  \<^item> \<open>Mcf_Failure\<close>: the message box for a failure, the topmost exception handlers and the search in
    loaded modules, of \<open>xglobals.c\<close>; when the texts are right, and when a buffer is left.
  \<^item> \<open>Dtor_Queue\<close>: blocks of callbacks refine a list of callbacks.
  \<^item> \<open>Mcf_Cxa\<close>: \<open>cxa.c\<close>, \<open>exit.c\<close> and \<open>__MCF_run_static_dtors\<close>, with the locales \<open>dtor_store\<close> and
    \<open>quiet_dtors\<close> for a loop over callbacks that may register callbacks; which callbacks run at
    the end of a process or an object, in which order, and that this ends.
  \<^item> \<open>Mcf_Tls\<close>: keys with reference counts and the hash table of a thread.
  \<^item> \<open>Cpu_Collection\<close>: sets of processors from the two interfaces of the system.
  \<^item> \<open>Mcf_Thread\<close>, \<open>Thread_Layout\<close>, \<open>Thread_Exit\<close>, \<open>Thread_Affinity\<close>, \<open>Thread_Sleep\<close>: \<open>thread.c\<close> and the end
    of a thread; the block of a new thread, what runs when a thread ends, affinity read back, sleeps
    that Ctrl-C interrupts.
  \<^item> \<open>Gthr_Codes\<close>, \<open>Gthr_Rc_Mutex\<close>, \<open>Gthr_Locks\<close>, \<open>Gthr_Once\<close>, \<open>Gthr_Thread\<close>, \<open>Gthr_Api\<close>: the
    interfaces: recursive mutexes as threads of single loads and stores, results of the
    locks and waits, one-time initialisation with a callback that may raise an exception, threads
    with results, thread-local values.
  \<^item> \<open>Cxx_Time\<close>, \<open>Cxx_Locks\<close>, \<open>Cxx_Thread\<close>, \<open>Cxx_Api\<close>: the classes and functions of \<open>cxx11.hpp\<close>, with
    durations in milliseconds. Timeouts and waits by other clocks; locks and condition variables, with the waits
    for a predicate; thread objects, of which any number is constructed, moved, joined and detached
    concurrently with their threads (\<open>cxx_reach\<close>): references, exceptions in constructors, and that every thread
    can be joined; \<open>call_once\<close>, callbacks at the end of a thread and thread-specific pointers.

  \<^bold>\<open>State and operations.\<close> A C structure is a record with its fields, a bit-field of width \<open>w\<close> is
  a \<open>w word\<close>, a pointer is its 64-bit address, and a structure that other objects point to is in a map from
  addresses. A function of one thread that reads and writes such a state returns the new state; a
  failed \<open>__MCF_ASSERT\<close> or \<open>__MCF_CHECK\<close> is the value \<open>None\<close> or a position of its own (\<open>WFault\<close>, \<open>Rc_fault\<close>),
  and the theorems on invariants show that it is not reached. Concurrent objects are step relations: \<open>reach\<close>
  holds the states of all interleavings of atomic accesses.

  \<^bold>\<open>Bounds.\<close> The number of threads on one object is below \<open>2 ^ 55\<close> (mutex, once flag, event,
  condition variable), \<open>2 ^ 50\<close> (shared mutex) and \<open>2 ^ 63\<close> (semaphore), which is what the field of the word can
  count. Tables of thread-local values are bounded by \<open>2 ^ 32\<close> elements, the depth of a recursive mutex by
  \<open>0x7FFFFFFF\<close>, where the code has an assertion. Loops over memory or lists are structural
  recursions on their length; loops of which the code does not know the end are
  \<open>partial_function (option)\<close>, and where a theorem says that such a loop ends it says that the result is
  \<open>Some\<close>.

  \<^bold>\<open>Parameters and assumptions.\<close> What the system answers is an argument: clocks, memory
  from the heap, results of system calls, the kernel's handling of keyed events. Mutual exclusion and the counting
  invariants hold for every behaviour of keyed events unless stated; that no sleeper is left behind uses
  \<open>keyed_event_contract\<close>: a wait that is released and a release that succeeds leave their
  calls together. Atomic accesses are sequentially consistent.

  \<^bold>\<open>Not modelled.\<close> Memory orders (\<open>atomic.h\<close>) and the access to the thread block in assembly
  (\<open>teb.h\<close>); floating-point code: the clocks with a \<open>double\<close> result, the conversion of \<open>struct timespec\<close>, of the
  durations of C++ that are not whole milliseconds, and \<open>thrd_sleep\<close>, for which the theories allowed here have no IEEE arithmetic; declarations and macros of \<open>fwd.h\<close>,
  \<open>xwinternl.h\<close>, \<open>xprecompiled.h\<close>; entry points, load configuration and security
  cookie of \<open>xglobals.c\<close>; the unpacking of argument tuples in \<open>cxx11.hpp\<close>; functions that only forward a call to the system, such as \<open>_MCF_yield\<close>; 32-bit
  layouts.
\<close>

end
